(* ===== verification/Prelude.thy ===== *)
theory Prelude
  imports Main "HOL-Library.Word"
begin

text \<open>
  What every component of the model shares: the machine integers and byte strings of the Rust
  sources, the result of a call that may return an error or panic, state passing for
  \<^verbatim>\<open>&mut self\<close> methods, little-endian encodings, the arithmetic of the two build profiles,
  and generic lemmas on lists.
\<close>

unbundle bit_operations_syntax

named_theorems res_simps "case analysis of results and of their binds"
named_theorems le_simps "little-endian encoding and decoding"

subsection \<open>Integers, bytes and strings\<close>

type_synonym u8 = "8 word"
type_synonym u16 = "16 word"
type_synonym u32 = "32 word"
type_synonym u64 = "64 word"

text \<open>A Rust \<^verbatim>\<open>str\<close> is its UTF-8 bytes. A literal of the source is written \<open>bytes ''...''\<close>.\<close>

type_synonym rstr = "u8 list"

definition bytes :: "string \<Rightarrow> rstr" where
  "bytes s = map of_char s"

lemma length_bytes [simp]: "length (bytes s) = length s"
  by (simp add: bytes_def)

subsection \<open>Results: a value, an error of the source, or a panic\<close>

datatype ('e, 'a) res = Ok 'a | Err 'e | Panic

text \<open>\<open>rbind\<close> is the \<^verbatim>\<open>?\<close> operator of Rust: go on with the value, or leave the function.\<close>

primrec rbind :: "('e, 'a) res \<Rightarrow> ('a \<Rightarrow> ('e, 'b) res) \<Rightarrow> ('e, 'b) res" where
  "rbind (Ok x) f = f x"
| "rbind (Err e) f = Err e"
| "rbind Panic f = Panic"

text \<open>\<open>Option::ok_or\<close>.\<close>

primrec ok_or :: "'a option \<Rightarrow> 'e \<Rightarrow> ('e, 'a) res" where
  "ok_or None e = Err e"
| "ok_or (Some x) e = Ok x"

lemma rbind_eq_Ok [res_simps]: "rbind r f = Ok y \<longleftrightarrow> (\<exists>x. r = Ok x \<and> f x = Ok y)"
  by (cases r) auto

lemma rbind_eq_Err [res_simps]:
  "rbind r f = Err e \<longleftrightarrow> r = Err e \<or> (\<exists>x. r = Ok x \<and> f x = Err e)"
  by (cases r) auto

lemma rbind_eq_Panic [res_simps]:
  "rbind r f = Panic \<longleftrightarrow> r = Panic \<or> (\<exists>x. r = Ok x \<and> f x = Panic)"
  by (cases r) auto

lemma rbind_no_Panic [intro]:
  "r \<noteq> Panic \<Longrightarrow> (\<And>x. r = Ok x \<Longrightarrow> f x \<noteq> Panic) \<Longrightarrow> rbind r f \<noteq> Panic"
  by (cases r) auto

lemma ok_or_eq_Ok [res_simps]: "ok_or o' e = Ok x \<longleftrightarrow> o' = Some x"
  by (cases o') auto

lemma ok_or_eq_Err [res_simps]: "ok_or o' e = Err e' \<longleftrightarrow> o' = None \<and> e' = e"
  by (cases o') auto

lemma ok_or_no_Panic [simp]: "ok_or o' e \<noteq> Panic"
  by (cases o') auto

subsection \<open>State passing\<close>

text \<open>
  A \<^verbatim>\<open>&mut self\<close> method takes the state and returns its result beside the state it leaves.
  An error does not undo what was written before it, exactly as in the source.
\<close>

type_synonym ('s, 'e, 'a) prog = "'s \<Rightarrow> ('e, 'a) res \<times> 's"

definition sret :: "'a \<Rightarrow> ('s, 'e, 'a) prog" where
  "sret x = (\<lambda>s. (Ok x, s))"

definition sfail :: "'e \<Rightarrow> ('s, 'e, 'a) prog" where
  "sfail e = (\<lambda>s. (Err e, s))"

text \<open>A \<^verbatim>\<open>&self\<close> method called from a \<^verbatim>\<open>&mut self\<close> one.\<close>

definition sget :: "('s \<Rightarrow> ('e, 'a) res) \<Rightarrow> ('s, 'e, 'a) prog" where
  "sget f = (\<lambda>s. (f s, s))"

definition sbind :: "('s, 'e, 'a) prog \<Rightarrow> ('a \<Rightarrow> ('s, 'e, 'b) prog) \<Rightarrow> ('s, 'e, 'b) prog" where
  "sbind m f = (\<lambda>s. case m s of
      (Ok x, s') \<Rightarrow> f x s'
    | (Err e, s') \<Rightarrow> (Err e, s')
    | (Panic, s') \<Rightarrow> (Panic, s'))"

lemma sbind_Ok [simp]: "m s = (Ok x, s') \<Longrightarrow> sbind m f s = f x s'"
  by (simp add: sbind_def)

lemma sbind_Err [simp]: "m s = (Err e, s') \<Longrightarrow> sbind m f s = (Err e, s')"
  by (simp add: sbind_def)

lemma sbind_Panic [simp]: "m s = (Panic, s') \<Longrightarrow> sbind m f s = (Panic, s')"
  by (simp add: sbind_def)

lemma sret_apply [simp]: "sret x s = (Ok x, s)"
  by (simp add: sret_def)

lemma sfail_apply [simp]: "sfail e s = (Err e, s)"
  by (simp add: sfail_def)

lemma sget_apply [simp]: "sget f s = (f s, s)"
  by (simp add: sget_def)

lemma sbind_eq_Ok [res_simps]:
  "sbind m f s = (Ok y, s'') \<longleftrightarrow> (\<exists>x s'. m s = (Ok x, s') \<and> f x s' = (Ok y, s''))"
  by (auto simp: sbind_def split: prod.splits res.splits)

lemma sbind_eq_Err [res_simps]:
  "sbind m f s = (Err e, s'') \<longleftrightarrow>
     m s = (Err e, s'') \<or> (\<exists>x s'. m s = (Ok x, s') \<and> f x s' = (Err e, s''))"
  by (auto simp: sbind_def split: prod.splits res.splits)

lemma sbind_eq_Panic [res_simps]:
  "sbind m f s = (Panic, s'') \<longleftrightarrow>
     m s = (Panic, s'') \<or> (\<exists>x s'. m s = (Ok x, s') \<and> f x s' = (Panic, s''))"
  by (auto simp: sbind_def split: prod.splits res.splits)

text \<open>What a program keeps of its state on every outcome, errors and panics included.\<close>

definition keeps :: "('s \<Rightarrow> 's \<Rightarrow> bool) \<Rightarrow> ('s, 'e, 'a) prog \<Rightarrow> bool" where
  "keeps R m \<longleftrightarrow> (\<forall>s. R s (snd (m s)))"

lemma keepsD: "keeps R m \<Longrightarrow> m s = (r, s') \<Longrightarrow> R s s'"
  unfolding keeps_def by (metis snd_conv)

lemma keeps_Pair: "(\<And>s. R s s) \<Longrightarrow> keeps R (Pair r)"
  by (simp add: keeps_def)

lemma keeps_sret: "(\<And>s. R s s) \<Longrightarrow> keeps R (sret x)"
  by (simp add: keeps_def)

lemma keeps_sfail: "(\<And>s. R s s) \<Longrightarrow> keeps R (sfail e)"
  by (simp add: keeps_def)

lemma keeps_sget: "(\<And>s. R s s) \<Longrightarrow> keeps R (sget f)"
  by (simp add: keeps_def)

lemma keeps_guard:
  "keeps R f \<Longrightarrow> (\<And>s. R s s) \<Longrightarrow> keeps R (\<lambda>s. if b s then (Err e, s) else f s)"
  by (simp add: keeps_def)

lemma keeps_sbind:
  assumes "keeps R m" "\<And>x. keeps R (f x)" "\<And>a b c. R a b \<Longrightarrow> R b c \<Longrightarrow> R a c"
  shows "keeps R (sbind m f)"
  unfolding keeps_def
proof
  fix s
  obtain r s' where m: "m s = (r, s')" by fastforce
  with assms(1) have R: "R s s'" by (rule keepsD)
  show "R s (snd (sbind m f s))"
    using m R assms(2,3) by (cases r) (auto simp: keeps_def)
qed

text \<open>A program that does not panic from a state.\<close>

definition safe_at :: "('s, 'e, 'a) prog \<Rightarrow> 's \<Rightarrow> bool" where
  "safe_at m s \<longleftrightarrow> fst (m s) \<noteq> Panic"

lemma safe_at_Pair [simp]: "safe_at (Pair r) s \<longleftrightarrow> r \<noteq> Panic"
  by (simp add: safe_at_def)

lemma safe_at_sret [simp]: "safe_at (sret x) s"
  by (simp add: safe_at_def)

lemma safe_at_sfail [simp]: "safe_at (sfail e) s"
  by (simp add: safe_at_def)

lemma safe_at_sget [simp]: "safe_at (sget f) s \<longleftrightarrow> f s \<noteq> Panic"
  by (simp add: safe_at_def)

lemma safe_at_sbind [intro]:
  "safe_at m s \<Longrightarrow> (\<And>x s'. m s = (Ok x, s') \<Longrightarrow> safe_at (f x) s') \<Longrightarrow> safe_at (sbind m f) s"
  by (auto simp: safe_at_def sbind_def split: prod.splits res.splits)

subsection \<open>Programs that may hang\<close>

text \<open>\<open>None\<close>: the program does not return. \<open>Panic\<close>: it panics, and leaves the state as it is then.\<close>

type_synonym ('s, 'a) hprog = "'s \<Rightarrow> ((unit, 'a) res \<times> 's) option"

definition hbind :: "('s, 'a) hprog \<Rightarrow> ('a \<Rightarrow> ('s, 'b) hprog) \<Rightarrow> ('s, 'b) hprog" where
  "hbind p f = (\<lambda>k. case p k of
      None \<Rightarrow> None
    | Some (Ok x, k') \<Rightarrow> f x k'
    | Some (Err e, k') \<Rightarrow> Some (Err e, k')
    | Some (Panic, k') \<Rightarrow> Some (Panic, k'))"

definition hret :: "'a \<Rightarrow> ('s, 'a) hprog" where
  "hret x = (\<lambda>k. Some (Ok x, k))"

text \<open>\<^verbatim>\<open>unwrap\<close> of a result and of an option, and \<^verbatim>\<open>assert!\<close>.\<close>

definition unwrap :: "('e, 'a) res \<Rightarrow> ('s, 'a) hprog" where
  "unwrap r = (\<lambda>k. case r of Ok x \<Rightarrow> Some (Ok x, k) | _ \<Rightarrow> Some (Panic, k))"

definition unwrap_some :: "'a option \<Rightarrow> ('s, 'a) hprog" where
  "unwrap_some x = (\<lambda>k. case x of Some y \<Rightarrow> Some (Ok y, k) | None \<Rightarrow> Some (Panic, k))"

definition assert_that :: "bool \<Rightarrow> ('s, unit) hprog" where
  "assert_that b = (\<lambda>k. Some (if b then Ok () else Panic, k))"

lemma hbind_run [simp]: "p k = Some (Ok x, k') \<Longrightarrow> hbind p f k = f x k'"
  by (simp add: hbind_def)

lemma hang_steps [simp]:
  "unwrap (Ok x) k = Some (Ok x, k)" "unwrap_some (Some y) k = Some (Ok y, k)" "assert_that True k = Some (Ok (), k)"
  "hret z k = Some (Ok z, k)"
  by (simp_all add: unwrap_def unwrap_some_def assert_that_def hret_def)

subsection \<open>Build profiles and overflow\<close>

text \<open>
  An overflowing \<open>+\<close> or \<open>-\<close> panics in a debug build (\<^verbatim>\<open>overflow-checks\<close> is on in Cargo's dev
  profile) and wraps in a release build; a \<^verbatim>\<open>debug_assert!\<close> is compiled in a debug build only.
\<close>

datatype profile = Debug | Release

definition arith_add :: "profile \<Rightarrow> 'a::len word \<Rightarrow> 'a word \<Rightarrow> ('e, 'a word) res" where
  "arith_add p x y =
     (if unat x + unat y < 2 ^ LENGTH('a) then Ok (x + y)
      else case p of Debug \<Rightarrow> Panic | Release \<Rightarrow> Ok (x + y))"

definition arith_sub :: "profile \<Rightarrow> 'a::len word \<Rightarrow> 'a word \<Rightarrow> ('e, 'a word) res" where
  "arith_sub p x y =
     (if y \<le> x then Ok (x - y)
      else case p of Debug \<Rightarrow> Panic | Release \<Rightarrow> Ok (x - y))"

definition debug_assert :: "profile \<Rightarrow> bool \<Rightarrow> ('e, unit) res" where
  "debug_assert p b = (if p = Debug \<and> \<not> b then Panic else Ok ())"

lemma unat_add_no_wrap:
  fixes x y :: "'a::len word"
  shows "unat x + unat y < 2 ^ LENGTH('a) \<Longrightarrow> unat (x + y) = unat x + unat y"
  by (simp add: unat_word_ariths)

lemma arith_add_no_wrap:
  fixes x y :: "'a::len word"
  shows "unat x + unat y < 2 ^ LENGTH('a) \<Longrightarrow> arith_add p x y = Ok (x + y)"
  by (simp add: arith_add_def)

lemma arith_sub_no_wrap: "y \<le> x \<Longrightarrow> arith_sub p x y = Ok (x - y)"
  by (simp add: arith_sub_def)

lemma arith_add_Release [simp]: "arith_add Release x y = Ok (x + y)"
  by (simp add: arith_add_def)

lemma arith_sub_Release [simp]: "arith_sub Release x y = Ok (x - y)"
  by (simp add: arith_sub_def)

lemma arith_add_no_Err [simp]: "arith_add p x y \<noteq> Err e"
  by (simp add: arith_add_def split: profile.splits)

lemma arith_sub_no_Err [simp]: "arith_sub p x y \<noteq> Err e"
  by (simp add: arith_sub_def split: profile.splits)

lemma arith_add_OkD: "arith_add p x y = Ok z \<Longrightarrow> z = x + y"
  by (auto simp: arith_add_def split: if_splits profile.splits)

lemma arith_sub_OkD: "arith_sub p x y = Ok z \<Longrightarrow> z = x - y"
  by (auto simp: arith_sub_def split: if_splits profile.splits)

subsection \<open>Little-endian integers\<close>

fun from_le :: "u8 list \<Rightarrow> nat" where
  "from_le [] = 0"
| "from_le (b # bs) = unat b + 256 * from_le bs"

fun to_le :: "nat \<Rightarrow> nat \<Rightarrow> u8 list" where
  "to_le 0 v = []"
| "to_le (Suc n) v = word_of_nat v # to_le n (v div 256)"

text \<open>\<^verbatim>\<open>u16::from_le_bytes\<close>, \<^verbatim>\<open>u32::from_le_bytes\<close>, \<^verbatim>\<open>u16::to_le_bytes\<close>, \<^verbatim>\<open>u32::to_le_bytes\<close>.\<close>

definition u16_from_le :: "u8 list \<Rightarrow> u16" where
  "u16_from_le bs = word_of_nat (from_le bs)"

definition u32_from_le :: "u8 list \<Rightarrow> u32" where
  "u32_from_le bs = word_of_nat (from_le bs)"

definition u16_to_le :: "u16 \<Rightarrow> u8 list" where
  "u16_to_le v = to_le 2 (unat v)"

definition u32_to_le :: "u32 \<Rightarrow> u8 list" where
  "u32_to_le v = to_le 4 (unat v)"

lemma length_to_le [simp]: "length (to_le n v) = n"
  by (induction n arbitrary: v) auto

lemma length_u16_to_le [simp]: "length (u16_to_le v) = 2"
  by (simp add: u16_to_le_def)

lemma length_u32_to_le [simp]: "length (u32_to_le v) = 4"
  by (simp add: u32_to_le_def)

lemma from_le_bound: "from_le bs < 256 ^ length bs"
proof (induction bs)
  case Nil
  then show ?case by simp
next
  case (Cons b bs)
  have "unat b < 256" using unsigned_less [of b, where ?'a = nat] by simp
  with Cons show ?case by simp
qed

lemma from_le_to_le [le_simps]: "from_le (to_le n v) = v mod 256 ^ n"
proof (induction n arbitrary: v)
  case 0
  then show ?case by simp
next
  case (Suc n)
  have "unat (word_of_nat v :: u8) = v mod 256"
    by (simp add: unat_of_nat)
  moreover have "v mod 256 ^ Suc n = 256 * (v div 256 mod 256 ^ n) + v mod 256"
    using mod_mult2_eq [of v 256 "256 ^ n"] by simp
  ultimately show ?case
    using Suc by simp
qed

lemma to_le_from_le [le_simps]: "length bs = n \<Longrightarrow> to_le n (from_le bs) = bs"
proof (induction bs arbitrary: n)
  case Nil
  then show ?case by simp
next
  case (Cons b bs)
  obtain m where n: "n = Suc m" and m: "length bs = m"
    using Cons.prems by (cases n) auto
  have b: "unat b < 256" using unsigned_less [of b, where ?'a = nat] by simp
  have div: "(unat b + 256 * from_le bs) div 256 = from_le bs"
    using b by simp
  have word: "(word_of_nat (unat b + 256 * from_le bs) :: u8) = b"
    by (rule unsigned_word_eqI [where ?'a = nat]) (use b in \<open>simp add: unat_of_nat del: of_nat_add of_nat_mult\<close>)
  show ?case
    using Cons.IH [OF m] by (simp add: n div word del: of_nat_add)
qed

lemma u32_le_roundtrip [simp]: "u32_from_le (u32_to_le v) = v"
  using unsigned_less [of v, where ?'a = nat] by (simp add: u32_from_le_def u32_to_le_def le_simps)

lemma u16_le_roundtrip [simp]: "u16_from_le (u16_to_le v) = v"
  using unsigned_less [of v, where ?'a = nat] by (simp add: u16_from_le_def u16_to_le_def le_simps)

text \<open>The bytes of a literal, for evaluation by rewriting.\<close>

lemma u32_to_le_eval:
  "u32_to_le v = [word_of_nat (unat v), word_of_nat (unat v div 256),
     word_of_nat (unat v div 256 div 256), word_of_nat (unat v div 256 div 256 div 256)]"
proof -
  have four: "(4 :: nat) = Suc (Suc (Suc (Suc 0)))" by simp
  show ?thesis unfolding u32_to_le_def four by simp
qed

lemma u16_to_le_eval: "u16_to_le v = [word_of_nat (unat v), word_of_nat (unat v div 256)]"
proof -
  have two: "(2 :: nat) = Suc (Suc 0)" by simp
  show ?thesis unfolding u16_to_le_def two by simp
qed

lemma u32_to_le_inj: "u32_to_le v = u32_to_le w \<Longrightarrow> v = w"
  by (metis u32_le_roundtrip)

lemma unat_u32_from_le: "length bs = 4 \<Longrightarrow> unat (u32_from_le bs) = from_le bs"
  using from_le_bound [of bs] by (simp add: u32_from_le_def unat_of_nat)

subsection \<open>The low 28 bits of a FAT entry\<close>

lemma and_0FFFFFFF: "(v :: u32) AND 0x0FFFFFFF = take_bit 28 v"
  by (simp add: take_bit_eq_mask mask_numeral)

lemma and_0FFFFFFF_id: "unat v < 2 ^ 28 \<Longrightarrow> (v :: u32) AND 0x0FFFFFFF = v"
  unfolding and_0FFFFFFF
  by (rule unsigned_word_eqI [where ?'a = nat]) (simp add: unsigned_take_bit_eq take_bit_nat_eq_self)

lemma and_0FFFFFFF_bound: "unat ((v :: u32) AND 0x0FFFFFFF) < 2 ^ 28"
  unfolding and_0FFFFFFF by (simp only: unsigned_take_bit_eq take_bit_nat_less_exp)

subsection \<open>Slices\<close>

text \<open>\<open>window xs a n\<close> is \<^verbatim>\<open>xs[a..a+n]\<close> once the bounds are known.\<close>

definition window :: "'a list \<Rightarrow> nat \<Rightarrow> nat \<Rightarrow> 'a list" where
  "window xs a n = take n (drop a xs)"

text \<open>\<^verbatim>\<open>&xs[a..b]\<close>: out of range it panics.\<close>

definition get_slice :: "'a list \<Rightarrow> nat \<Rightarrow> nat \<Rightarrow> ('e, 'a list) res" where
  "get_slice xs a b = (if a \<le> b \<and> b \<le> length xs then Ok (window xs a (b - a)) else Panic)"

text \<open>\<open>patch xs a ys\<close> is \<open>xs\<close> after \<^verbatim>\<open>xs[a..a+ys.len()].copy_from_slice(ys)\<close>.\<close>

definition patch :: "'a list \<Rightarrow> nat \<Rightarrow> 'a list \<Rightarrow> 'a list" where
  "patch xs a ys = take a xs @ ys @ drop (a + length ys) xs"

definition copy_into :: "'a list \<Rightarrow> nat \<Rightarrow> 'a list \<Rightarrow> ('e, 'a list) res" where
  "copy_into xs a ys = (if a + length ys \<le> length xs then Ok (patch xs a ys) else Panic)"

lemma length_window [simp]: "length (window xs a n) = min n (length xs - a)"
  by (simp add: window_def)

lemma nth_window [simp]: "i < n \<Longrightarrow> a + n \<le> length xs \<Longrightarrow> window xs a n ! i = xs ! (a + i)"
  by (simp add: window_def)

lemma window_window: "b + k \<le> n \<Longrightarrow> window (window xs a n) b k = window xs (a + b) k"
  by (simp add: window_def drop_take min_def add.commute)

lemma get_slice_Ok: "a \<le> b \<Longrightarrow> b \<le> length xs \<Longrightarrow> get_slice xs a b = Ok (window xs a (b - a))"
  by (simp add: get_slice_def)

lemma get_slice_no_Err [simp]: "get_slice xs a b \<noteq> Err e"
  by (simp add: get_slice_def)

lemma copy_into_no_Err [simp]: "copy_into xs a ys \<noteq> Err e"
  by (simp add: copy_into_def)

lemma length_patch [simp]: "a + length ys \<le> length xs \<Longrightarrow> length (patch xs a ys) = length xs"
  by (simp add: patch_def)

lemma patch_Nil [simp]: "patch xs a [] = xs"
  by (simp add: patch_def)

lemma nth_patch:
  "a + length ys \<le> length xs \<Longrightarrow> i < length xs \<Longrightarrow>
     patch xs a ys ! i = (if a \<le> i \<and> i < a + length ys then ys ! (i - a) else xs ! i)"
  by (auto simp: patch_def nth_append min_def)

lemma window_patch_same:
  "a + length ys \<le> length xs \<Longrightarrow> window (patch xs a ys) a (length ys) = ys"
  by (simp add: window_def patch_def)

lemma window_patch_disjoint:
  assumes "a + length ys \<le> length xs" "b + n \<le> a \<or> a + length ys \<le> b"
  shows "window (patch xs a ys) b n = window xs b n"
proof (rule nth_equalityI)
  show "length (window (patch xs a ys) b n) = length (window xs b n)"
    using assms(1) by simp
next
  fix i assume "i < length (window (patch xs a ys) b n)"
  then have i: "i < n" "b + i < length xs" using assms(1) by auto
  have "patch xs a ys ! (b + i) = xs ! (b + i)"
    using assms i by (auto simp: nth_patch)
  then show "window (patch xs a ys) b n ! i = window xs b n ! i"
    using i assms(1) by (simp add: window_def)
qed

lemma window_patch_inside:
  assumes "a + length ys \<le> length xs" "a \<le> b" "b + n \<le> a + length ys"
  shows "window (patch xs a ys) b n = window ys (b - a) n"
proof -
  have "window (patch xs a ys) b n = window (window (patch xs a ys) a (length ys)) (b - a) n"
    using assms by (simp add: window_window)
  then show ?thesis using assms(1) by (simp add: window_patch_same)
qed

lemma window_patch_around:
  assumes "b \<le> a" "a + length ys \<le> b + n" "b + n \<le> length xs"
  shows "window (patch xs a ys) b n = patch (window xs b n) (a - b) ys"
proof (rule nth_equalityI)
  show "length (window (patch xs a ys) b n) = length (patch (window xs b n) (a - b) ys)"
    using assms by simp
next
  fix i assume "i < length (window (patch xs a ys) b n)"
  then have i: "i < n" "b + i < length xs" using assms by auto
  have "b + i - a = i - (a - b)" using assms(1) by simp
  then show "window (patch xs a ys) b n ! i = patch (window xs b n) (a - b) ys ! i"
    using assms i by (simp add: nth_patch) auto
qed

lemma window_split: "window xs a (n + k) = window xs a n @ window xs (a + n) k"
  unfolding window_def by (simp only: take_add drop_drop add.commute [of n a])

subsection \<open>Chunks\<close>

lemma upt_from: "[k..<k + Suc n] = k # [Suc k..<Suc k + n]"
  by (simp add: upt_conv_Cons del: upt_Suc)

text \<open>\<^verbatim>\<open>xs.chunks(n)\<close>: pieces of \<open>n\<close> elements, the last one possibly shorter.\<close>

function chunks :: "nat \<Rightarrow> 'a list \<Rightarrow> 'a list list" where
  "chunks n xs = (if n = 0 \<or> xs = [] then [] else take n xs # chunks n (drop n xs))"
  by pat_completeness auto
termination
  by (relation "measure (\<lambda>(n, xs). length xs)") auto

declare chunks.simps [simp del]

text \<open>The pieces of full length, and how they are read by index.\<close>

definition full_chunks :: "nat \<Rightarrow> 'a list \<Rightarrow> 'a list list" where
  "full_chunks n xs = map (\<lambda>i. window xs (n * i) n) [0..<length xs div n]"

lemma length_full_chunks [simp]: "length (full_chunks n xs) = length xs div n"
  by (simp add: full_chunks_def)

lemma nth_full_chunks: "i < length xs div n \<Longrightarrow> full_chunks n xs ! i = window xs (n * i) n"
  by (simp add: full_chunks_def)

lemma mult_chunk_bound: "i < len div n \<Longrightarrow> n * i + n \<le> (len :: nat)"
  by (metis Suc_leI div_times_less_eq_dividend le_trans mult.commute mult_Suc_right mult_le_mono2
      add.commute)

lemma length_of_full_chunk: "c \<in> set (full_chunks n xs) \<Longrightarrow> length c = n"
  using mult_chunk_bound [of _ "length xs" n] by (fastforce simp: full_chunks_def)

lemma full_chunks_Cons:
  assumes "0 < n" "n \<le> length xs"
  shows "full_chunks n xs = take n xs # full_chunks n (drop n xs)"
proof -
  have len: "length xs div n = Suc (length (drop n xs) div n)"
    using assms by (simp add: le_div_geq)
  have step: "window xs (n * Suc i) n = window (drop n xs) (n * i) n" for i
    by (simp add: window_def add.commute)
  have upt: "[0..<Suc (length (drop n xs) div n)] = 0 # map Suc [0..<length (drop n xs) div n]"
    by (simp only: upt_conv_Cons map_Suc_upt zero_less_Suc)
  have first: "window xs (n * 0) n = take n xs"
    by (simp add: window_def)
  show ?thesis
    unfolding full_chunks_def len upt list.map map_map o_def step first ..
qed

lemma chunks_full:
  assumes "0 < n"
  shows "\<exists>r. chunks n xs = full_chunks n xs @ r \<and> (\<forall>c\<in>set r. length c < n)"
  using assms
proof (induction n xs rule: chunks.induct)
  case (1 n xs)
  show ?case
  proof (cases "n \<le> length xs")
    case True
    then have ne: "xs \<noteq> []" using "1.prems" by auto
    with 1 obtain r where r: "chunks n (drop n xs) = full_chunks n (drop n xs) @ r"
      "\<forall>c\<in>set r. length c < n" by auto
    have "chunks n xs = take n xs # chunks n (drop n xs)"
      using ne "1.prems" by (subst chunks.simps) simp
    then show ?thesis
      using r full_chunks_Cons [OF "1.prems" True] by auto
  next
    case False
    then have "full_chunks n xs = []" by (simp add: full_chunks_def)
    moreover have "\<forall>c\<in>set (chunks n xs). length c < n"
      using False by (subst chunks.simps) (auto simp: chunks.simps [of n "[]"])
    ultimately show ?thesis by simp
  qed
qed

end
