(* ===== verification/Volume.thy ===== *)
theory Volume
  imports Prelude
begin

text \<open>
  The volume itself, from \<^verbatim>\<open>fat32/src/lib.rs\<close>: the error type, the BPB parameters and their
  parser, the read-only view \<open>fat32\<close> (\<^verbatim>\<open>Fat32\<close>), the read-write view \<open>fat32_mut\<close> (\<^verbatim>\<open>Fat32Mut\<close>), the
  offsets both compute from the parameters, and the facts on them: what a successful mount
  guarantees, and that no offset leaves a 64-bit \<^verbatim>\<open>usize\<close>, so that the model may compute with
  natural numbers.
\<close>

datatype fat_error =
    BufferTooSmall
  | NotFat32
  | OutOfBounds
  | InvalidCluster
  | NotAFile
  | NotADirectory
  | PathNotFound
  | InvalidName
  | NoSpaceLeft
  | Other

type_synonym 'a fres = "(fat_error, 'a) res"

definition FAT32_EOC :: u32 where
  "FAT32_EOC = 0x0FFFFFFF"

record bpb_params =
  p_bytes_per_sector :: u16
  p_sectors_per_cluster :: u8
  p_reserved_sectors :: u16
  p_num_fats :: u8
  p_sectors_per_fat :: u32
  p_root_cluster :: u32

record fat32 =
  disk :: "u8 list"
  bytes_per_sector :: u16
  sectors_per_cluster :: u8
  reserved_sectors :: u16
  num_fats :: u8
  sectors_per_fat :: u32
  root_cluster :: u32

record fat32_mut =
  m_disk :: "u8 list"
  m_bytes_per_sector :: u16
  m_sectors_per_cluster :: u8
  m_reserved_sectors :: u16
  m_num_fats :: u8
  m_sectors_per_fat :: u32
  m_root_cluster :: u32

subsection \<open>Mounting\<close>

definition parse_bpb :: "u8 list \<Rightarrow> bpb_params fres" where
  "parse_bpb dsk =
     (if length dsk < 512 then Err BufferTooSmall
      else
        let b = window dsk 0 512;
            bps = u16_from_le [b ! 11, b ! 12];
            spc = b ! 13;
            rsv = u16_from_le [b ! 14, b ! 15];
            nfs = b ! 16;
            spf = u32_from_le [b ! 36, b ! 37, b ! 38, b ! 39];
            root = u32_from_le [b ! 44, b ! 45, b ! 46, b ! 47]
        in if bps = 0 \<or> spc = 0 \<or> nfs = 0 then Err NotFat32
           else if spf = 0 then Err NotFat32
           else Ok \<lparr>p_bytes_per_sector = bps, p_sectors_per_cluster = spc,
                    p_reserved_sectors = rsv, p_num_fats = nfs,
                    p_sectors_per_fat = spf, p_root_cluster = root\<rparr>)"

definition fat32_new :: "u8 list \<Rightarrow> fat32 fres" where
  "fat32_new dsk = rbind (parse_bpb dsk) (\<lambda>p.
     Ok \<lparr>disk = dsk,
         bytes_per_sector = p_bytes_per_sector p,
         sectors_per_cluster = p_sectors_per_cluster p,
         reserved_sectors = p_reserved_sectors p,
         num_fats = p_num_fats p,
         sectors_per_fat = p_sectors_per_fat p,
         root_cluster = p_root_cluster p\<rparr>)"

definition fat32_mut_new :: "u8 list \<Rightarrow> fat32_mut fres" where
  "fat32_mut_new dsk = rbind (parse_bpb dsk) (\<lambda>p.
     Ok \<lparr>m_disk = dsk,
         m_bytes_per_sector = p_bytes_per_sector p,
         m_sectors_per_cluster = p_sectors_per_cluster p,
         m_reserved_sectors = p_reserved_sectors p,
         m_num_fats = p_num_fats p,
         m_sectors_per_fat = p_sectors_per_fat p,
         m_root_cluster = p_root_cluster p\<rparr>)"

definition as_read :: "fat32_mut \<Rightarrow> fat32" where
  "as_read m =
     \<lparr>disk = m_disk m,
      bytes_per_sector = m_bytes_per_sector m,
      sectors_per_cluster = m_sectors_per_cluster m,
      reserved_sectors = m_reserved_sectors m,
      num_fats = m_num_fats m,
      sectors_per_fat = m_sectors_per_fat m,
      root_cluster = m_root_cluster m\<rparr>"

subsection \<open>Offsets of the read-only view\<close>

definition bytes_per_sector_usize :: "fat32 \<Rightarrow> nat" where
  "bytes_per_sector_usize fs = unat (bytes_per_sector fs)"

definition cluster_size :: "fat32 \<Rightarrow> nat" where
  "cluster_size fs = bytes_per_sector_usize fs * unat (sectors_per_cluster fs)"

definition fat_start_byte :: "fat32 \<Rightarrow> nat" where
  "fat_start_byte fs = unat (reserved_sectors fs) * bytes_per_sector_usize fs"

definition data_start_byte :: "fat32 \<Rightarrow> nat" where
  "data_start_byte fs =
     fat_start_byte fs
     + (unat (num_fats fs) * unat (sectors_per_fat fs)) * bytes_per_sector_usize fs"

definition cluster_to_offset :: "fat32 \<Rightarrow> u32 \<Rightarrow> nat fres" where
  "cluster_to_offset fs cluster =
     (if cluster < 2 then Err InvalidCluster
      else
        let index = unat (cluster - 2);
            offset = data_start_byte fs + index * cluster_size fs
        in if length (disk fs) \<le> offset then Err OutOfBounds else Ok offset)"

subsection \<open>Offsets of the read-write view\<close>

definition m_bytes_per_sector_usize :: "fat32_mut \<Rightarrow> nat" where
  "m_bytes_per_sector_usize m = unat (m_bytes_per_sector m)"

definition m_cluster_size :: "fat32_mut \<Rightarrow> nat" where
  "m_cluster_size m = m_bytes_per_sector_usize m * unat (m_sectors_per_cluster m)"

definition m_fat_start_byte :: "fat32_mut \<Rightarrow> nat" where
  "m_fat_start_byte m = unat (m_reserved_sectors m) * m_bytes_per_sector_usize m"

definition fat_bytes_len :: "fat32_mut \<Rightarrow> nat" where
  "fat_bytes_len m = unat (m_sectors_per_fat m) * m_bytes_per_sector_usize m"

definition m_data_start_byte :: "fat32_mut \<Rightarrow> nat" where
  "m_data_start_byte m =
     m_fat_start_byte m
     + (unat (m_num_fats m) * unat (m_sectors_per_fat m)) * m_bytes_per_sector_usize m"

text \<open>
  \<^verbatim>\<open>max_cluster_number\<close> narrows two counts to \<^verbatim>\<open>u32\<close> (keeping the low 32 bits) and adds in \<^verbatim>\<open>u32\<close>:
  this is the one place of the driver where the arithmetic can overflow.
\<close>

definition max_cluster_number :: "profile \<Rightarrow> fat32_mut \<Rightarrow> u32 fres" where
  "max_cluster_number pf m =
     (let data_start = m_data_start_byte m in
      if length (m_disk m) \<le> data_start then Err OutOfBounds
      else
        let cs = m_cluster_size m in
        if cs = 0 then Err NotFat32
        else
          let data_len = length (m_disk m) - data_start;
              data_clusters = (word_of_nat (data_len div cs) :: u32)
          in if data_clusters = 0 then Err NotFat32
             else rbind (arith_add pf 2 data_clusters) (\<lambda>s.
               rbind (arith_sub pf s 1) (\<lambda>last_by_data.
                 let fat_entries = (word_of_nat (fat_bytes_len m div 4) :: u32) in
                 if fat_entries < 3 then Err NotFat32
                 else rbind (arith_sub pf fat_entries 1) (\<lambda>last_by_fat.
                   Ok (min last_by_data last_by_fat)))))"

definition m_cluster_to_offset :: "fat32_mut \<Rightarrow> u32 \<Rightarrow> nat fres" where
  "m_cluster_to_offset m cluster =
     (if cluster < 2 then Err InvalidCluster
      else
        let index = unat (cluster - 2);
            offset = m_data_start_byte m + index * m_cluster_size m
        in if length (m_disk m) \<le> offset then Err OutOfBounds else Ok offset)"

subsection \<open>The two views agree\<close>

lemma as_read_simps [simp]:
  "disk (as_read m) = m_disk m"
  "bytes_per_sector (as_read m) = m_bytes_per_sector m"
  "sectors_per_cluster (as_read m) = m_sectors_per_cluster m"
  "reserved_sectors (as_read m) = m_reserved_sectors m"
  "num_fats (as_read m) = m_num_fats m"
  "sectors_per_fat (as_read m) = m_sectors_per_fat m"
  "root_cluster (as_read m) = m_root_cluster m"
  by (simp_all add: as_read_def)

lemma as_read_bytes_per_sector [simp]:
  "bytes_per_sector_usize (as_read m) = m_bytes_per_sector_usize m"
  by (simp add: bytes_per_sector_usize_def m_bytes_per_sector_usize_def)

lemma as_read_cluster_size [simp]: "cluster_size (as_read m) = m_cluster_size m"
  by (simp add: cluster_size_def m_cluster_size_def)

lemma as_read_fat_start [simp]: "fat_start_byte (as_read m) = m_fat_start_byte m"
  by (simp add: fat_start_byte_def m_fat_start_byte_def)

lemma as_read_data_start [simp]: "data_start_byte (as_read m) = m_data_start_byte m"
  by (simp add: data_start_byte_def m_data_start_byte_def)

lemma as_read_cluster_to_offset [simp]: "cluster_to_offset (as_read m) c = m_cluster_to_offset m c"
  by (simp add: cluster_to_offset_def m_cluster_to_offset_def)

lemma fat32_mut_new_as_read:
  "fat32_new dsk = rbind (fat32_mut_new dsk) (\<lambda>m. Ok (as_read m))"
  by (cases "parse_bpb dsk") (auto simp: fat32_new_def fat32_mut_new_def as_read_def)

subsection \<open>Updating the disk leaves the parameters alone\<close>

lemma geometry_m_disk_update [simp]:
  "m_bytes_per_sector_usize (m\<lparr>m_disk := d\<rparr>) = m_bytes_per_sector_usize m"
  "m_cluster_size (m\<lparr>m_disk := d\<rparr>) = m_cluster_size m"
  "m_fat_start_byte (m\<lparr>m_disk := d\<rparr>) = m_fat_start_byte m"
  "fat_bytes_len (m\<lparr>m_disk := d\<rparr>) = fat_bytes_len m"
  "m_data_start_byte (m\<lparr>m_disk := d\<rparr>) = m_data_start_byte m"
  by (simp_all add: m_bytes_per_sector_usize_def m_cluster_size_def m_fat_start_byte_def
      fat_bytes_len_def m_data_start_byte_def)

text \<open>\<open>same_shape m m'\<close>: \<open>m'\<close> is \<open>m\<close> with other bytes on a disk of the same length.\<close>

definition same_shape :: "fat32_mut \<Rightarrow> fat32_mut \<Rightarrow> bool" where
  "same_shape m m' \<longleftrightarrow> length (m_disk m') = length (m_disk m) \<and> m' = m\<lparr>m_disk := m_disk m'\<rparr>"

lemma same_shape_refl [simp, intro]: "same_shape m m"
  by (simp add: same_shape_def)

lemma fat32_mut_disk_twice: "m\<lparr>m_disk := d\<rparr>\<lparr>m_disk := e\<rparr> = m\<lparr>m_disk := e\<rparr>"
  by simp

lemma same_shape_trans [trans]: "same_shape a b \<Longrightarrow> same_shape b c \<Longrightarrow> same_shape a c"
  unfolding same_shape_def by (metis fat32_mut_disk_twice)

lemma same_shape_update [intro]:
  "length d = length (m_disk m) \<Longrightarrow> same_shape m (m\<lparr>m_disk := d\<rparr>)"
  by (simp add: same_shape_def)

lemma same_shapeD:
  assumes "same_shape m m'"
  shows "length (m_disk m') = length (m_disk m)"
    and "m_cluster_size m' = m_cluster_size m"
    and "m_fat_start_byte m' = m_fat_start_byte m"
    and "fat_bytes_len m' = fat_bytes_len m"
    and "m_data_start_byte m' = m_data_start_byte m"
    and "m_num_fats m' = m_num_fats m"
    and "m_root_cluster m' = m_root_cluster m"
proof -
  from assms obtain d where "m' = m\<lparr>m_disk := d\<rparr>" "length d = length (m_disk m)"
    by (auto simp: same_shape_def)
  then show "length (m_disk m') = length (m_disk m)"
    "m_cluster_size m' = m_cluster_size m"
    "m_fat_start_byte m' = m_fat_start_byte m"
    "fat_bytes_len m' = fat_bytes_len m"
    "m_data_start_byte m' = m_data_start_byte m"
    "m_num_fats m' = m_num_fats m"
    "m_root_cluster m' = m_root_cluster m"
    by simp_all
qed

subsection \<open>What a mount guarantees\<close>

text \<open>The parameters \<^verbatim>\<open>new\<close> lets through: no zero where the driver divides or steps by it.\<close>

definition mounted :: "fat32_mut \<Rightarrow> bool" where
  "mounted m \<longleftrightarrow>
     512 \<le> length (m_disk m) \<and> m_bytes_per_sector m \<noteq> 0 \<and> m_sectors_per_cluster m \<noteq> 0
     \<and> m_num_fats m \<noteq> 0 \<and> m_sectors_per_fat m \<noteq> 0"

lemma parse_bpb_no_Panic [simp]: "parse_bpb dsk \<noteq> Panic"
  by (simp add: parse_bpb_def Let_def)

lemma fat32_mut_new_mounted: "fat32_mut_new dsk = Ok m \<Longrightarrow> mounted m \<and> m_disk m = dsk"
  by (auto simp: fat32_mut_new_def parse_bpb_def mounted_def Let_def res_simps
      split: if_splits)

lemma mounted_cluster_size: "mounted m \<Longrightarrow> 0 < m_cluster_size m"
  by (auto simp: mounted_def m_cluster_size_def m_bytes_per_sector_usize_def
      unat_eq_zero intro: gr0I)

lemma mounted_fat_bytes_len: "mounted m \<Longrightarrow> 0 < fat_bytes_len m"
  by (auto simp: mounted_def fat_bytes_len_def m_bytes_per_sector_usize_def
      unat_eq_zero intro: gr0I)

lemma mounted_num_fats: "mounted m \<Longrightarrow> 0 < unat (m_num_fats m)"
  by (auto simp: mounted_def unat_eq_zero intro: gr0I)

lemma mounted_same_shape: "same_shape m m' \<Longrightarrow> mounted m \<Longrightarrow> mounted m'"
proof -
  assume "same_shape m m'" and mnt: "mounted m"
  then obtain d where "m' = m\<lparr>m_disk := d\<rparr>" "length d = length (m_disk m)"
    by (auto simp: same_shape_def)
  with mnt show "mounted m'" by (simp add: mounted_def)
qed

lemma data_start_eq:
  "m_data_start_byte m = m_fat_start_byte m + unat (m_num_fats m) * fat_bytes_len m"
  by (simp add: m_data_start_byte_def fat_bytes_len_def)

subsection \<open>Properties\<close>

text \<open>C20: Mounting. A buffer of less than 512 bytes is \<open>BufferTooSmall\<close>; one with a zero sector size,
  cluster size, number of tables or table size is \<open>NotFat32\<close>; every other buffer mounts, on itself,
  with the parameters the driver divides and steps by all non-zero. It never panics.\<close>

theorem mount_spec:
  "case fat32_mut_new dsk of
     Ok m \<Rightarrow> mounted m \<and> m_disk m = dsk \<and> 0 < m_cluster_size m \<and> 0 < fat_bytes_len m
   | Err err \<Rightarrow> (if length dsk < 512 then err = BufferTooSmall
       else err = NotFat32 \<and> (u16_from_le [dsk ! 11, dsk ! 12] = 0 \<or> dsk ! 13 = 0 \<or> dsk ! 16 = 0
         \<or> u32_from_le [dsk ! 36, dsk ! 37, dsk ! 38, dsk ! 39] = 0))
   | Panic \<Rightarrow> False"
proof (cases "fat32_mut_new dsk")
  case (Ok m)
  then have "mounted m \<and> m_disk m = dsk" by (rule fat32_mut_new_mounted)
  with Ok show ?thesis by (simp add: mounted_cluster_size mounted_fat_bytes_len)
qed (auto simp: fat32_mut_new_def parse_bpb_def Let_def res_simps split: if_splits)

text \<open>No offset the driver computes reaches \<open>2 ^ 64\<close>, whatever the parameters and the cluster: the
  byte past a cluster and the byte past a table entry, in any copy, fit a 64-bit \<^verbatim>\<open>usize\<close>. So the
  model may compute offsets with natural numbers.\<close>

theorem offsets_fit_usize:
  fixes c :: u32
  shows "m_data_start_byte m + unat c * m_cluster_size m + m_cluster_size m < 2 ^ 64
    \<and> m_fat_start_byte m + unat (m_num_fats m) * fat_bytes_len m + unat c * 4 + 4 < 2 ^ 64"
proof
  have b: "unat (m_bytes_per_sector m) \<le> 2 ^ 16" "unat (m_reserved_sectors m) \<le> 2 ^ 16"
    "unat (m_num_fats m) \<le> 2 ^ 8" "unat (m_sectors_per_cluster m) \<le> 2 ^ 8"
    "unat (m_sectors_per_fat m) \<le> 2 ^ 32" "unat c \<le> 2 ^ 32"
    using unsigned_less [of "m_bytes_per_sector m", where ?'a = nat] unsigned_less [of "m_reserved_sectors m", where ?'a = nat]
      unsigned_less [of "m_num_fats m", where ?'a = nat] unsigned_less [of "m_sectors_per_cluster m", where ?'a = nat]
      unsigned_less [of "m_sectors_per_fat m", where ?'a = nat] unsigned_less [of c, where ?'a = nat] by simp_all
  have cs: "m_cluster_size m \<le> 2 ^ 16 * 2 ^ 8"
    unfolding m_cluster_size_def m_bytes_per_sector_usize_def using b by (intro mult_le_mono) auto
  have fs: "m_fat_start_byte m \<le> 2 ^ 16 * 2 ^ 16"
    unfolding m_fat_start_byte_def m_bytes_per_sector_usize_def using b by (intro mult_le_mono) auto
  have fl: "unat (m_num_fats m) * fat_bytes_len m \<le> 2 ^ 8 * (2 ^ 32 * 2 ^ 16)"
    unfolding fat_bytes_len_def m_bytes_per_sector_usize_def using b by (intro mult_le_mono) auto
  have idx: "unat c * m_cluster_size m \<le> 2 ^ 32 * (2 ^ 16 * 2 ^ 8)"
    using b cs by (intro mult_le_mono) auto
  show "m_data_start_byte m + unat c * m_cluster_size m + m_cluster_size m < 2 ^ 64"
    using cs fs fl idx by (simp add: data_start_eq)
  show "m_fat_start_byte m + unat (m_num_fats m) * fat_bytes_len m + unat c * 4 + 4 < 2 ^ 64"
    using fs fl b(6) by simp
qed

end
