(* ===== verification/Dir_Entry.thy ===== *)
theory Dir_Entry
  imports Prelude
begin

text \<open>
  Directory entries, from \<^verbatim>\<open>fat32/src/dir_entry.rs\<close>: the attribute byte, the 32-byte short entry and
  its parser. The lemmas read a parsed entry back from its raw bytes: which slots parse, what the
  name of a padded 8.3 name is, and how the first cluster is put together from its two halves.
\<close>

record attributes =
  read_only :: bool
  hidden :: bool
  system :: bool
  volume_id :: bool
  directory :: bool
  archive :: bool

definition from_byte :: "u8 \<Rightarrow> attributes" where
  "from_byte b =
     \<lparr>read_only = b AND 0x01 \<noteq> 0,
      hidden = b AND 0x02 \<noteq> 0,
      system = b AND 0x04 \<noteq> 0,
      volume_id = b AND 0x08 \<noteq> 0,
      directory = b AND 0x10 \<noteq> 0,
      archive = b AND 0x20 \<noteq> 0\<rparr>"

record dir_entry =
  e_name :: rstr
  e_attrs :: attributes
  e_first_cluster :: u32
  e_size :: u32

definition is_dir :: "dir_entry \<Rightarrow> bool" where
  "is_dir e \<longleftrightarrow> directory (e_attrs e)"

definition is_file :: "dir_entry \<Rightarrow> bool" where
  "is_file e \<longleftrightarrow> \<not> directory (e_attrs e)"

text \<open>\<open>trim_end bs n\<close> is the \<^verbatim>\<open>while end > 0 && bytes[end - 1] == b' '\<close> loop from \<open>end = n\<close>.\<close>

fun trim_end :: "u8 list \<Rightarrow> nat \<Rightarrow> nat" where
  "trim_end bs 0 = 0"
| "trim_end bs (Suc e) = (if bs ! e = 0x20 then trim_end bs e else Suc e)"

text \<open>The UTF-8 of the character \<^verbatim>\<open>b as char\<close>, which is U+0000 to U+00FF.\<close>

definition push_byte_char :: "u8 \<Rightarrow> rstr" where
  "push_byte_char b =
     (if b < 0x80 then [b] else [0xC0 OR drop_bit 6 b, 0x80 OR (b AND 0x3F)])"

definition decode_ascii_trim :: "u8 list \<Rightarrow> rstr" where
  "decode_ascii_trim bs = concat (map push_byte_char (take (trim_end bs (length bs)) bs))"

definition parse :: "u8 list \<Rightarrow> dir_entry option" where
  "parse entry =
     (if length entry < 32 then None
      else if entry ! 0 = 0x00 \<or> entry ! 0 = 0xE5 then None
      else
        let attrs = from_byte (entry ! 11) in
        if volume_id attrs then None
        else
          let name_raw = window entry 0 8;
              ext_raw = window entry 8 3;
              nm = decode_ascii_trim name_raw;
              ext = decode_ascii_trim ext_raw;
              full_name = (if ext \<noteq> [] then nm @ [0x2E] @ ext else nm);
              hi = (ucast (u16_from_le [entry ! 20, entry ! 21]) :: u32);
              lo = (ucast (u16_from_le [entry ! 26, entry ! 27]) :: u32);
              cluster = push_bit 16 hi OR lo;
              sz = u32_from_le [entry ! 28, entry ! 29, entry ! 30, entry ! 31]
          in Some \<lparr>e_name = full_name, e_attrs = attrs, e_first_cluster = cluster, e_size = sz\<rparr>)"

subsection \<open>Which slots parse\<close>

lemma is_file_not_dir: "is_file e \<longleftrightarrow> \<not> is_dir e"
  by (simp add: is_file_def is_dir_def)

lemma parse_eq_None_iff:
  "parse c = None \<longleftrightarrow> length c < 32 \<or> c ! 0 = 0 \<or> c ! 0 = 0xE5 \<or> c ! 11 AND 0x08 \<noteq> 0"
  by (simp add: parse_def Let_def from_byte_def)

text \<open>The name a slot shows, from its first eleven bytes.\<close>

definition short_name :: "u8 list \<Rightarrow> u8 list \<Rightarrow> rstr" where
  "short_name n e =
     (let nm = decode_ascii_trim n; ext = decode_ascii_trim e
      in if ext \<noteq> [] then nm @ [0x2E] @ ext else nm)"

lemma parse_name: "parse c = Some e \<Longrightarrow> e_name e = short_name (window c 0 8) (window c 8 3)"
  by (auto simp: parse_def short_name_def Let_def split: if_splits)

lemma parse_attrs: "parse c = Some e \<Longrightarrow> e_attrs e = from_byte (c ! 11)"
  by (auto simp: parse_def Let_def split: if_splits)

subsection \<open>Trimming\<close>

lemma trim_end_le: "trim_end bs n \<le> n"
  by (induction n) auto

lemma trim_end_spaces: "trim_end bs n \<le> i \<Longrightarrow> i < n \<Longrightarrow> bs ! i = 0x20"
  by (induction n) (auto simp: less_Suc_eq split: if_splits)

lemma trim_end_last: "0 < trim_end bs n \<Longrightarrow> bs ! (trim_end bs n - 1) \<noteq> 0x20"
  by (induction n) auto

lemma trim_end_unique:
  assumes "k \<le> n" "\<And>i. k \<le> i \<Longrightarrow> i < n \<Longrightarrow> bs ! i = 0x20" "0 < k \<Longrightarrow> bs ! (k - 1) \<noteq> 0x20"
  shows "trim_end bs n = k"
proof (rule linorder_cases [of "trim_end bs n" k])
  assume "trim_end bs n < k"
  then have "trim_end bs n \<le> k - 1" "k - 1 < n" "0 < k" using assms(1) by auto
  then show ?thesis using trim_end_spaces assms(3) by blast
next
  assume "k < trim_end bs n"
  then have "k \<le> trim_end bs n - 1" "trim_end bs n - 1 < n" "0 < trim_end bs n"
    using trim_end_le [of bs n] by auto
  then show ?thesis using trim_end_last assms(2) by blast
qed

definition pad_to :: "nat \<Rightarrow> u8 list \<Rightarrow> u8 list" where
  "pad_to n bs = bs @ replicate (n - length bs) 0x20"

lemma length_pad_to [simp]: "length bs \<le> n \<Longrightarrow> length (pad_to n bs) = n"
  by (simp add: pad_to_def)

lemma trim_end_pad:
  assumes "length bs \<le> n" "bs = [] \<or> last bs \<noteq> 0x20"
  shows "trim_end (pad_to n bs) n = length bs"
proof (rule trim_end_unique)
  show "pad_to n bs ! i = 0x20" if "length bs \<le> i" "i < n" for i
    using that by (simp add: pad_to_def nth_append)
  show "pad_to n bs ! (length bs - 1) \<noteq> 0x20" if "0 < length bs"
    using that assms(2) by (auto simp: pad_to_def nth_append last_conv_nth)
qed (fact assms(1))

text \<open>A name is ASCII when its bytes stand for themselves.\<close>

definition ascii :: "u8 list \<Rightarrow> bool" where
  "ascii bs \<longleftrightarrow> (\<forall>b\<in>set bs. b < 0x80)"

lemma concat_push_byte_char: "ascii bs \<Longrightarrow> concat (map push_byte_char bs) = bs"
  by (induction bs) (auto simp: ascii_def push_byte_char_def)

lemma decode_pad:
  assumes "length bs \<le> n" "bs = [] \<or> last bs \<noteq> 0x20" "ascii bs"
  shows "decode_ascii_trim (pad_to n bs) = bs"
  using trim_end_pad [OF assms(1,2)] concat_push_byte_char [OF assms(3)] assms(1)
  by (simp add: decode_ascii_trim_def) (simp add: pad_to_def)

text \<open>Conversely, an ASCII field is its decoded text, padded.\<close>

lemma decode_ascii:
  assumes "ascii bs"
  shows "decode_ascii_trim bs = take (trim_end bs (length bs)) bs"
proof -
  have "ascii (take (trim_end bs (length bs)) bs)"
    using assms by (auto simp: ascii_def dest: in_set_takeD)
  then show ?thesis by (simp add: decode_ascii_trim_def concat_push_byte_char)
qed

lemma pad_decode:
  assumes "ascii bs"
  shows "pad_to (length bs) (decode_ascii_trim bs) = bs"
proof (rule nth_equalityI)
  let ?k = "trim_end bs (length bs)"
  have k: "?k \<le> length bs" by (rule trim_end_le)
  then show "length (pad_to (length bs) (decode_ascii_trim bs)) = length bs"
    by (simp add: decode_ascii [OF assms])
  fix i assume "i < length (pad_to (length bs) (decode_ascii_trim bs))"
  then have i: "i < length bs" using k by (simp add: decode_ascii [OF assms])
  show "pad_to (length bs) (decode_ascii_trim bs) ! i = bs ! i"
    using k i trim_end_spaces [of bs "length bs" i]
    by (auto simp: pad_to_def decode_ascii [OF assms] nth_append min_def)
qed

subsection \<open>The two halves of the first cluster\<close>

lemma cluster_halves:
  "push_bit 16 (ucast (ucast (drop_bit 16 c) :: u16) :: u32) OR ucast (ucast (c AND 0xFFFF) :: u16)
     = (c :: u32)"
proof (rule bit_word_eqI)
  have mask: "(0xFFFF :: u32) = mask 16" by (simp add: mask_numeral)
  fix n assume "n < LENGTH(32)"
  then have n: "n < 32" by simp
  show "bit (push_bit 16 (ucast (ucast (drop_bit 16 c) :: u16) :: u32)
          OR ucast (ucast (c AND 0xFFFF) :: u16)) n = bit c n"
    unfolding mask using n by (cases "n < 16") (auto simp: bit_simps)
qed

end
