(* ===== verification/Names.thy ===== *)
theory Names
  imports Volume Dir_Entry
begin

text \<open>
  Paths and 8.3 names, from the helpers of \<^verbatim>\<open>fat32/src/lib.rs\<close>: \<^verbatim>\<open>normalize_name\<close>, \<^verbatim>\<open>split_parent\<close>,
  \<^verbatim>\<open>encode_short_name_8_3\<close> and \<^verbatim>\<open>div_ceil\<close>, with the parts of \<^verbatim>\<open>str\<close> they use. The lemmas show which
  names encode, that an encoded name decodes to the upper-cased name, and where a path splits.
\<close>

subsection \<open>The string operations of the standard library\<close>

definition ascii_upper :: "u8 \<Rightarrow> u8" where
  "ascii_upper b = (if 0x61 \<le> b \<and> b \<le> 0x7A then b - 0x20 else b)"

text \<open>\<^verbatim>\<open>str::rfind\<close> for a one-byte pattern.\<close>

fun rfind :: "u8 \<Rightarrow> rstr \<Rightarrow> nat option" where
  "rfind b [] = None"
| "rfind b (x # xs) =
     (case rfind b xs of
        Some i \<Rightarrow> Some (Suc i)
      | None \<Rightarrow> if x = b then Some 0 else None)"

text \<open>\<^verbatim>\<open>str::split\<close> for a one-byte pattern: always at least one piece, empty pieces kept.\<close>

fun split_on :: "u8 \<Rightarrow> rstr \<Rightarrow> rstr list" where
  "split_on b [] = [[]]"
| "split_on b (x # xs) =
     (if x = b then [] # split_on b xs
      else case split_on b xs of p # ps \<Rightarrow> (x # p) # ps | [] \<Rightarrow> [[x]])"

definition trim_end_matches :: "u8 \<Rightarrow> rstr \<Rightarrow> rstr" where
  "trim_end_matches b s = rev (dropWhile (\<lambda>x. x = b) (rev s))"

text \<open>\<^verbatim>\<open>join\<close> of a slice of strings.\<close>

fun join :: "rstr \<Rightarrow> rstr list \<Rightarrow> rstr" where
  "join sep [] = []"
| "join sep [p] = p"
| "join sep (p # ps) = p @ sep @ join sep ps"

definition starts_with :: "u8 \<Rightarrow> rstr \<Rightarrow> bool" where
  "starts_with b s \<longleftrightarrow> (case s of [] \<Rightarrow> False | x # _ \<Rightarrow> x = b)"

abbreviation slash :: u8 where "slash \<equiv> 0x2F"
abbreviation dot :: u8 where "dot \<equiv> 0x2E"
abbreviation space :: u8 where "space \<equiv> 0x20"

subsection \<open>The helpers\<close>

definition normalize_name :: "rstr \<Rightarrow> rstr" where
  "normalize_name s = map ascii_upper s"

definition split_parent :: "rstr \<Rightarrow> (rstr \<times> rstr) fres" where
  "split_parent path0 =
     (let path = trim_end_matches slash path0 in
      if path = [slash] then Err Other
      else rbind (ok_or (rfind slash path) Other) (\<lambda>idx.
        let parent = (if idx = 0 then [slash] else take idx path);
            nm = drop (idx + 1) path
        in if nm = [] then Err Other else Ok (parent, nm)))"

text \<open>The loop \<^verbatim>\<open>for (i, ch) in base.bytes().enumerate()\<close>, from index \<open>i\<close> on.\<close>

fun encode_bytes :: "nat \<Rightarrow> u8 list \<Rightarrow> u8 list \<Rightarrow> u8 list fres" where
  "encode_bytes i [] n = Ok n"
| "encode_bytes i (ch # chs) n =
     (if \<not> ch < 0x80 \<or> ch = slash then Err InvalidName
      else if i < length n then encode_bytes (Suc i) chs (n[i := ascii_upper ch])
      else Panic)"

definition encode_short_name_8_3 :: "rstr \<Rightarrow> (u8 list \<times> u8 list) fres" where
  "encode_short_name_8_3 nm =
     (let (base, ext) =
        (case rfind dot nm of
           Some d \<Rightarrow> (take d nm, drop (d + 1) nm)
         | None \<Rightarrow> (nm, []))
      in if base = [] \<or> 8 < length base \<or> 3 < length ext then Err InvalidName
         else if dot \<in> set base \<or> dot \<in> set ext then Err InvalidName
         else rbind (encode_bytes 0 base (replicate 8 space)) (\<lambda>n.
           rbind (encode_bytes 0 ext (replicate 3 space)) (\<lambda>e.
             Ok (n, e))))"

definition div_ceil :: "nat \<Rightarrow> nat \<Rightarrow> nat" where
  "div_ceil a b = (if b = 0 then 0 else if a mod b > 0 then a div b + 1 else a div b)"

subsection \<open>Rounding up\<close>

lemma div_ceil_covers:
  assumes "0 < b"
  shows "a \<le> div_ceil a b * b" and "div_ceil a b * b < a + b"
proof -
  have eq: "a div b * b + a mod b = a" by (rule div_mult_mod_eq)
  have lt: "a mod b < b" using assms by simp
  show "a \<le> div_ceil a b * b"
  proof (cases "0 < a mod b")
    case True
    then have "div_ceil a b * b = a div b * b + b" using assms by (simp add: div_ceil_def)
    with eq lt show ?thesis by linarith
  next
    case False
    then have "div_ceil a b * b = a div b * b" "a mod b = 0" by (simp_all add: div_ceil_def)
    with eq assms show ?thesis by linarith
  qed
  show "div_ceil a b * b < a + b"
  proof (cases "0 < a mod b")
    case True
    then have "div_ceil a b * b = a div b * b + b" using assms by (simp add: div_ceil_def)
    with eq True show ?thesis by linarith
  next
    case False
    then have "div_ceil a b * b = a div b * b" "a mod b = 0" by (simp_all add: div_ceil_def)
    with eq assms show ?thesis by linarith
  qed
qed

lemma div_ceil_pos: "0 < b \<Longrightarrow> 0 < a \<Longrightarrow> 0 < div_ceil a b"
  using div_ceil_covers(1) [of b a] by (cases "div_ceil a b") auto

subsection \<open>Upper case\<close>

lemma ascii_upper_idem [simp]: "ascii_upper (ascii_upper b) = ascii_upper b"
  by (auto simp: ascii_upper_def word_le_nat_alt unat_sub)

lemma ascii_upper_ascii: "b < 0x80 \<Longrightarrow> ascii_upper b < 0x80"
  by (auto simp: ascii_upper_def word_le_nat_alt word_less_nat_alt unat_sub)

lemma ascii_upper_eq_iff:
  "c < 0x61 \<Longrightarrow> (c < 0x41 \<or> 0x5A < c) \<Longrightarrow> ascii_upper b = c \<longleftrightarrow> b = c"
  by (auto simp: ascii_upper_def word_le_nat_alt word_less_nat_alt unat_sub word_unat_eq_iff)

lemma ascii_upper_special [simp]:
  "ascii_upper b = dot \<longleftrightarrow> b = dot"
  "ascii_upper b = slash \<longleftrightarrow> b = slash"
  "ascii_upper b = space \<longleftrightarrow> b = space"
  "ascii_upper b = 0 \<longleftrightarrow> b = 0"
  by (auto simp: ascii_upper_eq_iff)

lemma normalize_name_idem [simp]: "normalize_name (normalize_name s) = normalize_name s"
  by (simp add: normalize_name_def)

lemma normalize_append [simp]: "normalize_name (a @ b) = normalize_name a @ normalize_name b"
  by (simp add: normalize_name_def)

lemma normalize_special [simp]:
  "normalize_name [] = []" "normalize_name (dot # s) = dot # normalize_name s"
  "normalize_name (slash # s) = slash # normalize_name s"
  by (simp_all add: normalize_name_def ascii_upper_def)

lemma normalize_eq_Nil [simp]: "normalize_name s = [] \<longleftrightarrow> s = []"
  by (simp add: normalize_name_def)

lemma length_normalize [simp]: "length (normalize_name s) = length s"
  by (simp add: normalize_name_def)

lemma set_normalize_special [simp]:
  "dot \<in> set (normalize_name s) \<longleftrightarrow> dot \<in> set s"
  "slash \<in> set (normalize_name s) \<longleftrightarrow> slash \<in> set s"
  unfolding normalize_name_def by (force simp: image_iff)+

lemma ascii_normalize: "ascii s \<Longrightarrow> ascii (normalize_name s)"
  by (auto simp: ascii_def normalize_name_def ascii_upper_ascii)

subsection \<open>Finding and splitting\<close>

lemma rfind_None [simp]: "rfind b s = None \<longleftrightarrow> b \<notin> set s"
  by (induction s) (auto split: option.splits)

lemma rfind_append: "b \<notin> set t \<Longrightarrow> rfind b (s @ b # t) = Some (length s)"
  by (induction s) (auto split: option.splits)

lemma rfind_Some:
  "rfind b s = Some i \<Longrightarrow> i < length s \<and> s = take i s @ b # drop (Suc i) s \<and> b \<notin> set (drop (Suc i) s)"
proof (induction s arbitrary: i)
  case Nil
  then show ?case by simp
next
  case (Cons x xs)
  show ?case
  proof (cases "rfind b xs")
    case None
    with Cons.prems show ?thesis by (auto split: if_splits)
  next
    case (Some j)
    with Cons.prems Cons.IH [OF Some] show ?thesis by auto
  qed
qed

lemma split_on_not_Nil [simp]: "split_on b s \<noteq> []"
  by (induction s) (auto split: list.splits)

lemma split_on_no_sep: "b \<notin> set s \<Longrightarrow> split_on b s = [s]"
  by (induction s) auto

lemma split_on_append: "split_on b (s @ b # t) = split_on b s @ split_on b t"
  by (induction s) (auto split: list.splits)

lemma trim_end_matches_append: "x \<noteq> b \<Longrightarrow> trim_end_matches b (s @ [x]) = s @ [x]"
  by (simp add: trim_end_matches_def)

subsection \<open>Encoding an 8.3 name\<close>

lemma encode_bytes_good:
  "ascii chs \<Longrightarrow> slash \<notin> set chs \<Longrightarrow> i + length chs \<le> length n \<Longrightarrow>
     encode_bytes i chs n = Ok (patch n i (map ascii_upper chs))"
proof (induction chs arbitrary: i n)
  case Nil
  then show ?case by simp
next
  case (Cons c chs)
  have "patch (n[i := ascii_upper c]) (Suc i) (map ascii_upper chs)
      = patch n i (map ascii_upper (c # chs))"
    using Cons.prems(3) by (simp add: patch_def take_Suc_conv_app_nth)
  then show ?case using Cons by (auto simp: ascii_def)
qed

lemma encode_bytes_bad:
  "\<not> (ascii chs \<and> slash \<notin> set chs) \<Longrightarrow> i + length chs \<le> length n \<Longrightarrow>
     encode_bytes i chs n = Err InvalidName"
proof (induction chs arbitrary: i n)
  case Nil
  then show ?case by (simp add: ascii_def)
next
  case (Cons c chs)
  have "\<not> (ascii chs \<and> slash \<notin> set chs)" if "c < 0x80" "c \<noteq> slash"
    using that Cons.prems(1) by (auto simp: ascii_def)
  then show ?case using Cons.IH [of "Suc i"] Cons.prems(2) by simp
qed

lemma patch_replicate_pad:
  "length bs \<le> n \<Longrightarrow> patch (replicate n space) 0 bs = pad_to n bs"
  by (simp add: patch_def pad_to_def)

lemma encode_field:
  assumes "length bs \<le> n"
  shows "encode_bytes 0 bs (replicate n space)
    = (if ascii bs \<and> slash \<notin> set bs then Ok (pad_to n (normalize_name bs)) else Err InvalidName)"
  using assms patch_replicate_pad [of "map ascii_upper bs" n]
  by (auto simp: encode_bytes_good encode_bytes_bad normalize_name_def)

text \<open>What a name must be for the encoder to take it: base, and an extension after its one dot.\<close>

definition name_parts :: "rstr \<Rightarrow> rstr \<times> rstr" where
  "name_parts nm =
     (case rfind dot nm of Some d \<Rightarrow> (take d nm, drop (d + 1) nm) | None \<Rightarrow> (nm, []))"

definition valid_8_3 :: "rstr \<Rightarrow> bool" where
  "valid_8_3 nm \<longleftrightarrow>
     (case name_parts nm of (base, ext) \<Rightarrow>
        base \<noteq> [] \<and> length base \<le> 8 \<and> length ext \<le> 3 \<and> dot \<notin> set base \<and> dot \<notin> set ext
        \<and> ascii base \<and> ascii ext \<and> slash \<notin> set base \<and> slash \<notin> set ext)"

lemma encode_eq:
  "encode_short_name_8_3 nm =
     (if valid_8_3 nm
      then Ok (pad_to 8 (normalize_name (fst (name_parts nm))),
               pad_to 3 (normalize_name (snd (name_parts nm))))
      else Err InvalidName)"
  unfolding encode_short_name_8_3_def valid_8_3_def name_parts_def [symmetric]
  by (cases "name_parts nm") (auto simp: encode_field not_le)

lemma name_parts_cases:
  obtains (no_dot) "dot \<notin> set nm" "name_parts nm = (nm, [])"
  | (dotted) base ext where "nm = base @ dot # ext" "dot \<notin> set ext" "name_parts nm = (base, ext)"
proof (cases "rfind dot nm")
  case None
  then have "name_parts nm = (nm, [])" unfolding name_parts_def by (simp only: option.case)
  with None show ?thesis using no_dot by simp
next
  case (Some d)
  with rfind_Some [OF Some] dotted [of "take d nm" "drop (Suc d) nm"] show ?thesis
    by (simp add: name_parts_def)
qed

lemma encode_lengths:
  "encode_short_name_8_3 nm = Ok (n, e) \<Longrightarrow> length n = 8 \<and> length e = 3"
  by (auto simp: encode_eq valid_8_3_def split: if_splits prod.splits)

text \<open>
  Names the encoder takes but a listing shows otherwise: a trailing dot, or spaces before the dot
  or at the end, are lost in the padding, and an entry whose name begins with NUL reads as the end
  of the directory.
\<close>

definition plain_name :: "rstr \<Rightarrow> bool" where
  "plain_name nm \<longleftrightarrow>
     (case name_parts nm of (base, ext) \<Rightarrow>
        last base \<noteq> space \<and> (ext = [] \<longrightarrow> dot \<notin> set nm) \<and> (ext \<noteq> [] \<longrightarrow> last ext \<noteq> space))
     \<and> hd nm \<noteq> 0"

lemma last_normalize: "s \<noteq> [] \<Longrightarrow> last (normalize_name s) = ascii_upper (last s)"
  by (simp add: normalize_name_def last_map)

lemma encode_short_name:
  assumes enc: "encode_short_name_8_3 nm = Ok (n, e)" and plain: "plain_name nm"
  shows "short_name n e = normalize_name nm"
proof -
  obtain base ext where parts: "name_parts nm = (base, ext)" by fastforce
  have v: "valid_8_3 nm" and n: "n = pad_to 8 (normalize_name base)"
    and e: "e = pad_to 3 (normalize_name ext)"
    using enc parts by (auto simp: encode_eq split: if_splits)
  have base: "base \<noteq> []" "length base \<le> 8" "ascii base" and ext: "length ext \<le> 3" "ascii ext"
    using v parts by (auto simp: valid_8_3_def)
  have last: "last base \<noteq> space" "ext \<noteq> [] \<Longrightarrow> last ext \<noteq> space"
    using plain parts by (auto simp: plain_name_def)
  have dn: "decode_ascii_trim n = normalize_name base"
    unfolding n using base last by (intro decode_pad) (auto simp: last_normalize ascii_normalize)
  have de: "decode_ascii_trim e = normalize_name ext"
    unfolding e using ext last by (intro decode_pad) (auto simp: last_normalize ascii_normalize)
  show ?thesis
    using parts plain dn de
    by (cases rule: name_parts_cases [of nm]) (auto simp: short_name_def plain_name_def)
qed

text \<open>Two raw names without a dot in them that show the same name are the same bytes.\<close>

lemma dotless_append_inj:
  "dot \<notin> set a \<Longrightarrow> dot \<notin> set c \<Longrightarrow> a @ dot # b = c @ dot # d \<Longrightarrow> a = c \<and> b = d"
proof (induction a arbitrary: c)
  case Nil
  then show ?case by (cases c) auto
next
  case (Cons x a)
  then show ?case by (cases c) auto
qed

lemma dot_decode: "ascii bs \<Longrightarrow> dot \<notin> set bs \<Longrightarrow> dot \<notin> set (decode_ascii_trim bs)"
  by (auto simp: decode_ascii dest: in_set_takeD)

lemma short_name_inj:
  assumes "ascii n" "ascii e" "ascii n'" "ascii e'"
    and "dot \<notin> set n" "dot \<notin> set e" "dot \<notin> set n'" "dot \<notin> set e'"
    and "length n' = length n" "length e' = length e"
    and eq: "short_name n e = short_name n' e'"
  shows "n = n' \<and> e = e'"
proof -
  let ?a = "decode_ascii_trim n" and ?b = "decode_ascii_trim e"
  let ?a' = "decode_ascii_trim n'" and ?b' = "decode_ascii_trim e'"
  have dots: "dot \<notin> set ?a" "dot \<notin> set ?a'"
    using assms(1,3,5,7) dot_decode by blast+
  have "?a = ?a' \<and> ?b = ?b'"
  proof (cases "?b = []"; cases "?b' = []")
    assume "?b \<noteq> []" "?b' \<noteq> []"
    with eq have "?a @ dot # ?b = ?a' @ dot # ?b'" by (simp add: short_name_def)
    with dots show ?thesis by (rule dotless_append_inj)
  next
    assume b: "?b = []" "?b' \<noteq> []"
    with eq have "?a = ?a' @ dot # ?b'" by (simp add: short_name_def)
    with dots show ?thesis by simp
  next
    assume b: "?b \<noteq> []" "?b' = []"
    with eq have "?a' = ?a @ dot # ?b" by (simp add: short_name_def)
    with dots show ?thesis by simp
  next
    assume "?b = []" "?b' = []"
    with eq show ?thesis by (simp add: short_name_def)
  qed
  then show ?thesis
    using pad_decode [OF assms(1)] pad_decode [OF assms(2)] pad_decode [OF assms(3)]
      pad_decode [OF assms(4)] assms(9,10) by simp
qed

subsection \<open>Components of a path\<close>

text \<open>The non-empty pieces between the slashes, as \<^verbatim>\<open>open_path\<close> walks them.\<close>

definition components :: "rstr \<Rightarrow> rstr list" where
  "components p = filter (\<lambda>s. s \<noteq> []) (split_on slash p)"

lemma components_append: "components (a @ slash # b) = components a @ components b"
  by (simp add: components_def split_on_append)

lemma components_Nil [simp]: "components [] = []"
  by (simp add: components_def)

lemma components_single: "nm \<noteq> [] \<Longrightarrow> slash \<notin> set nm \<Longrightarrow> components nm = [nm]"
  by (simp add: components_def split_on_no_sep)

lemma components_slashes: "components (p @ replicate k slash) = components p"
proof (induction k arbitrary: p)
  case (Suc k)
  have "components (p @ replicate (Suc k) slash) = components ((p @ [slash]) @ replicate k slash)"
    by simp
  also have "\<dots> = components p" unfolding Suc using components_append [of p "[]"] by simp
  finally show ?case .
qed simp

lemma trim_end_matches_snoc: "trim_end_matches b (s @ [b]) = trim_end_matches b s"
  by (simp add: trim_end_matches_def)

lemma trim_end_matches_split: "\<exists>k. s = trim_end_matches b s @ replicate k b"
proof (induction s rule: rev_induct)
  case Nil
  show ?case by (simp add: trim_end_matches_def)
next
  case (snoc x s)
  show ?case
  proof (cases "x = b")
    case True
    from snoc obtain k where "s = trim_end_matches b s @ replicate k b" by blast
    then have "s @ [b] = trim_end_matches b s @ (replicate k b @ [b])" by simp
    then have "s @ [x] = trim_end_matches b (s @ [x]) @ replicate (Suc k) b"
      unfolding True trim_end_matches_snoc replicate_Suc by (simp only: replicate_append_same)
    then show ?thesis by blast
  qed (simp add: trim_end_matches_append exI [of _ 0])
qed

lemma components_trim: "components (trim_end_matches slash p) = components p"
  using trim_end_matches_split [of p slash] components_slashes by metis

lemma split_parent_cases:
  assumes "split_parent p = Ok (parent, nm)"
  obtains pre where "trim_end_matches slash p = pre @ slash # nm" "slash \<notin> set nm" "nm \<noteq> []"
    "parent = (if pre = [] then [slash] else pre)"
proof -
  let ?t = "trim_end_matches slash p"
  obtain i where i: "rfind slash ?t = Some i" "nm = drop (Suc i) ?t" "nm \<noteq> []"
    "parent = (if i = 0 then [slash] else take i ?t)"
    using assms by (auto simp: split_parent_def Let_def res_simps split: if_splits)
  have s: "i < length ?t \<and> ?t = take i ?t @ slash # drop (Suc i) ?t \<and> slash \<notin> set (drop (Suc i) ?t)"
    by (rule rfind_Some [OF i(1)])
  show thesis
  proof (rule that [of "take i ?t"])
    show "?t = take i ?t @ slash # nm" "slash \<notin> set nm" using s i(2) by blast+
    show "parent = (if take i ?t = [] then [slash] else take i ?t)" using s i(4) by auto
  qed (fact i(3))
qed

lemma split_parent_components:
  assumes "split_parent p = Ok (parent, nm)"
  shows "components p = components parent @ [nm]"
proof -
  obtain pre where s: "trim_end_matches slash p = pre @ slash # nm" "slash \<notin> set nm" "nm \<noteq> []"
    "parent = (if pre = [] then [slash] else pre)"
    using split_parent_cases [OF assms] .
  have "components p = components pre @ [nm]"
    using components_append [of pre nm] components_single [OF s(3,2)] components_trim [of p] s(1) by simp
  moreover have "components [slash] = []" using components_append [of "[]" "[]"] by simp
  ultimately show ?thesis using s(4) by simp
qed

lemma split_parent_absolute:
  assumes "starts_with slash p" "split_parent p = Ok (parent, nm)"
  shows "starts_with slash parent"
proof -
  obtain pre where s: "trim_end_matches slash p = pre @ slash # nm"
    "parent = (if pre = [] then [slash] else pre)"
    using split_parent_cases [OF assms(2)] .
  obtain k where "p = (pre @ slash # nm) @ replicate k slash"
    using trim_end_matches_split [of p slash] s(1) by auto
  then show ?thesis using assms(1) s(2) by (cases pre) (simp_all add: starts_with_def)
qed

subsection \<open>Properties\<close>

text \<open>\<^verbatim>\<open>split_parent\<close> on a path that starts with a slash: the name is the last non-empty component
  and holds no slash, and the components of the parent are those before it. It fails with \<open>Other\<close>
  exactly on the paths without a component.\<close>

theorem split_parent_spec:
  assumes "starts_with slash p"
  shows "case split_parent p of
      Ok (parent, nm) \<Rightarrow> components p = components parent @ [nm] \<and> nm \<noteq> [] \<and> slash \<notin> set nm
        \<and> starts_with slash parent
    | Err err \<Rightarrow> err = Other \<and> components p = []
    | Panic \<Rightarrow> False"
proof (cases "split_parent p")
  case (Ok r)
  obtain parent nm where r: "r = (parent, nm)" by fastforce
  with Ok have eq: "split_parent p = Ok (parent, nm)" by simp
  obtain pre where s: "trim_end_matches slash p = pre @ slash # nm" "slash \<notin> set nm" "nm \<noteq> []"
    "parent = (if pre = [] then [slash] else pre)"
    using split_parent_cases [OF eq] .
  with Ok r split_parent_components [OF eq] split_parent_absolute [OF assms eq] show ?thesis by simp
next
  case (Err err)
  let ?t = "trim_end_matches slash p"
  have err: "err = Other"
    using Err by (auto simp: split_parent_def Let_def res_simps split: if_splits)
  obtain k where k: "p = ?t @ replicate k slash" using trim_end_matches_split [of p slash] by blast
  have "?t = []"
  proof (rule ccontr)
    assume ne: "?t \<noteq> []"
    then have "last ?t \<noteq> slash"
      unfolding trim_end_matches_def using hd_dropWhile [of "\<lambda>x. x = slash" "rev p"] by (simp add: last_rev)
    moreover have "hd ?t = slash"
      using ne k assms by (cases ?t) (auto simp: starts_with_def)
    ultimately have "slash \<in> set ?t" "?t \<noteq> [slash]" using ne hd_in_set [of ?t] by auto
    then obtain i where i: "rfind slash ?t = Some i" by (cases "rfind slash ?t") auto
    have s: "i < length ?t \<and> ?t = take i ?t @ slash # drop (Suc i) ?t" using rfind_Some [OF i] by blast
    have "drop (Suc i) ?t = []"
      using Err i \<open>?t \<noteq> [slash]\<close> by (auto simp: split_parent_def Let_def split: if_splits)
    with s have "last ?t = slash" by (metis last_snoc)
    with \<open>last ?t \<noteq> slash\<close> show False by simp
  qed
  then have "components p = []" using components_trim [of p] by simp
  with Err err show ?thesis by simp
next
  case Panic
  then show ?thesis by (auto simp: split_parent_def Let_def res_simps split: if_splits)
qed

theorem split_parent_spec_witness:
  "split_parent (bytes ''/A/B/C.TXT'') = Ok (bytes ''/A/B'', bytes ''C.TXT'')
    \<and> components (bytes ''/A/B/C.TXT'') = components (bytes ''/A/B'') @ [bytes ''C.TXT'']"
proof -
  have start: "starts_with slash (bytes ''/A/B/C.TXT'')" by code_simp
  have run: "split_parent (bytes ''/A/B/C.TXT'') = Ok (bytes ''/A/B'', bytes ''C.TXT'')" by code_simp
  show ?thesis using split_parent_spec [OF start] run by simp
qed

text \<open>\<^verbatim>\<open>encode_short_name_8_3\<close> accepts exactly the ASCII names with a base of 1 to 8 bytes and at most
  one dot before an extension of at most 3 bytes, neither with a slash; the result is the upper-cased
  base and extension, each padded with spaces. Every other name is \<open>InvalidName\<close>.\<close>

theorem encode_short_name_spec:
  "encode_short_name_8_3 nm =
     (if valid_8_3 nm
      then Ok (pad_to 8 (normalize_name (fst (name_parts nm))),
               pad_to 3 (normalize_name (snd (name_parts nm))))
      else Err InvalidName)"
  by (rule encode_eq)

text \<open>C15: A name that encodes is shown, by the decoder of directory entries, as its upper-case form,
  unless it is one the padding cannot keep (a trailing dot, or a space at the end of a part).\<close>

theorem encode_decode_name:
  assumes "encode_short_name_8_3 nm = Ok (n, e)" "plain_name nm"
  shows "short_name n e = normalize_name nm \<and> length n = 8 \<and> length e = 3"
  using encode_short_name [OF assms] encode_lengths [OF assms(1)] by simp

theorem encode_decode_name_witness:
  "\<exists>n e. encode_short_name_8_3 (bytes ''hello.txt'') = Ok (n, e) \<and> short_name n e = bytes ''HELLO.TXT''"
proof -
  have run: "encode_short_name_8_3 (bytes ''hello.txt'') = Ok (bytes ''HELLO   '', bytes ''TXT'')"
    and plain: "plain_name (bytes ''hello.txt'')"
    and up: "normalize_name (bytes ''hello.txt'') = bytes ''HELLO.TXT''"
    by code_simp+
  show ?thesis using encode_decode_name [OF run plain] run up by simp
qed

text \<open>\<^verbatim>\<open>div_ceil\<close> is the least number of blocks of \<open>b\<close> bytes that hold \<open>a\<close> bytes.\<close>

theorem div_ceil_least:
  assumes "0 < b"
  shows "a \<le> div_ceil a b * b \<and> (\<forall>k. a \<le> k * b \<longrightarrow> div_ceil a b \<le> k)"
proof (intro conjI allI impI)
  show "a \<le> div_ceil a b * b" by (rule div_ceil_covers(1) [OF assms])
  fix k assume "a \<le> k * b"
  then have "div_ceil a b * b < (k + 1) * b" using div_ceil_covers(2) [OF assms, of a] by simp
  then have "div_ceil a b < k + 1" by (rule mult_less_cancel2 [THEN iffD1, THEN conjunct2])
  then show "div_ceil a b \<le> k" by simp
qed

theorem div_ceil_least_witness: "div_ceil 513 512 = 2 \<and> div_ceil 513 512 \<le> 3"
  using div_ceil_least [of 512 513] by (simp add: div_ceil_def)

end
