(* ===== verification/Fat_Chain.thy ===== *)
theory Fat_Chain
  imports Volume
begin

text \<open>
  Chains in a table of cluster links, away from any disk: what a chain is, and the contract between
  the FAT (reading and writing one entry) and the loops of the driver that build, release and walk
  chains. The locale \<open>fat_cells\<close> is what the loops rely on; \<open>fat_links\<close> adds the loops themselves by
  their equations. \<open>Fat_Table\<close> interprets both on the entries of the disk.
\<close>

subsection \<open>Chains\<close>

text \<open>\<open>fat_path f cs\<close>: the entries of \<open>f\<close> lead from the first cluster of \<open>cs\<close> through all of them, and
  the last one is an end-of-chain mark.\<close>

fun fat_path :: "(u32 \<Rightarrow> u32) \<Rightarrow> u32 list \<Rightarrow> bool" where
  "fat_path f [] \<longleftrightarrow> False"
| "fat_path f [c] \<longleftrightarrow> 0x0FFFFFF8 \<le> f c"
| "fat_path f (c # d # cs) \<longleftrightarrow> f c = d \<and> 2 \<le> d \<and> d < 0x0FFFFFF8 \<and> fat_path f (d # cs)"

lemma fat_path_not_Nil: "fat_path f cs \<Longrightarrow> cs \<noteq> []"
  by auto

lemma fat_path_cong: "(\<And>c. c \<in> set cs \<Longrightarrow> g c = f c) \<Longrightarrow> fat_path g cs = fat_path f cs"
  by (induction f cs rule: fat_path.induct) auto

text \<open>Every cluster of a chain has a non-zero entry, so the allocator never takes it.\<close>

lemma fat_path_nonzero: "fat_path f cs \<Longrightarrow> c \<in> set cs \<Longrightarrow> f c \<noteq> 0"
proof (induction f cs rule: fat_path.induct)
  case (2 f c)
  then show ?case by auto
next
  case (3 f c d cs)
  then show ?case by (auto simp: word_le_nat_alt)
qed auto

text \<open>The value the driver stores for the cluster before \<open>rest\<close>.\<close>

definition next_link :: "u32 list \<Rightarrow> u32" where
  "next_link rest = (case rest of [] \<Rightarrow> FAT32_EOC | d # _ \<Rightarrow> d)"

text \<open>\<open>linked f cs\<close>: the entries of \<open>cs\<close> are what linking \<open>cs\<close> stores.\<close>

fun linked :: "(u32 \<Rightarrow> u32) \<Rightarrow> u32 list \<Rightarrow> bool" where
  "linked f [] \<longleftrightarrow> True"
| "linked f (c # cs) \<longleftrightarrow> f c = next_link cs AND 0x0FFFFFFF \<and> linked f cs"

lemma linked_cong: "(\<And>c. c \<in> set cs \<Longrightarrow> g c = f c) \<Longrightarrow> linked g cs = linked f cs"
  by (induction cs) auto

text \<open>Linked clusters are a chain, when their numbers fit a FAT32 entry.\<close>

definition plain_cluster :: "u32 \<Rightarrow> bool" where
  "plain_cluster c \<longleftrightarrow> 2 \<le> c \<and> c < 0x0FFFFFF8"

lemma plain_cluster_mask: "plain_cluster c \<Longrightarrow> c AND 0x0FFFFFFF = c"
  by (rule and_0FFFFFFF_id) (simp add: plain_cluster_def word_less_nat_alt)

lemma linked_fat_path:
  "linked f cs \<Longrightarrow> cs \<noteq> [] \<Longrightarrow> list_all plain_cluster cs \<Longrightarrow> fat_path f cs"
proof (induction f cs rule: fat_path.induct)
  case (2 f c)
  then show ?case by (simp add: next_link_def FAT32_EOC_def)
next
  case (3 f c d cs)
  then show ?case by (auto simp: next_link_def plain_cluster_mask) (auto simp: plain_cluster_def)
qed auto

subsection \<open>The contract of the table\<close>

locale fat_cells =
  fixes entry :: "'s \<Rightarrow> u32 \<Rightarrow> u32"
    and has :: "'s \<Rightarrow> u32 \<Rightarrow> bool"
    and frame :: "'s \<Rightarrow> 's \<Rightarrow> bool"
    and read :: "'s \<Rightarrow> u32 \<Rightarrow> u32 fres"
    and store :: "u32 \<Rightarrow> u32 \<Rightarrow> ('s, fat_error, unit) prog"
  assumes read_entry: "has s c \<Longrightarrow> read s c = Ok (entry s c)"
    and store_entry: "has s c \<Longrightarrow>
      \<exists>s'. store c v s = (Ok (), s') \<and> frame s s' \<and> entry s' c = v AND 0x0FFFFFFF
        \<and> (\<forall>c'. has s c' \<longrightarrow> c' \<noteq> c \<longrightarrow> entry s' c' = entry s c')"
    and frame_refl: "frame s s"
    and frame_trans: "frame s s' \<Longrightarrow> frame s' s'' \<Longrightarrow> frame s s''"
    and frame_has: "frame s s' \<Longrightarrow> has s' c = has s c"

text \<open>The loops over a list of clusters: link them in order, or clear each of them.\<close>

locale fat_links = fat_cells +
  fixes link :: "u32 list \<Rightarrow> ('s, fat_error, unit) prog"
    and clear :: "u32 list \<Rightarrow> ('s, fat_error, unit) prog"
  assumes link_Nil: "link [] = sret ()"
    and link_Cons: "link (c # cs) = sbind (store c (next_link cs)) (\<lambda>_. link cs)"
    and clear_Nil: "clear [] = sret ()"
    and clear_Cons: "clear (c # cs) = sbind (store c 0) (\<lambda>_. clear cs)"
begin

lemma link_all:
  "distinct cs \<Longrightarrow> (\<And>c. c \<in> set cs \<Longrightarrow> has s c) \<Longrightarrow>
     \<exists>s'. link cs s = (Ok (), s') \<and> frame s s' \<and> linked (entry s') cs
       \<and> (\<forall>c. has s c \<longrightarrow> c \<notin> set cs \<longrightarrow> entry s' c = entry s c)"
proof (induction cs arbitrary: s)
  case Nil
  then show ?case by (simp add: link_Nil frame_refl)
next
  case (Cons c cs)
  have c: "has s c" using Cons.prems by simp
  then obtain s1 where s1: "store c (next_link cs) s = (Ok (), s1)" "frame s s1"
    "entry s1 c = next_link cs AND 0x0FFFFFFF"
    "\<And>c'. has s c' \<Longrightarrow> c' \<noteq> c \<Longrightarrow> entry s1 c' = entry s c'"
    using store_entry by meson
  have has1: "has s1 c' = has s c'" for c' using s1(2) by (rule frame_has)
  obtain s2 where s2: "link cs s1 = (Ok (), s2)" "frame s1 s2" "linked (entry s2) cs"
    "\<And>c'. has s1 c' \<Longrightarrow> c' \<notin> set cs \<Longrightarrow> entry s2 c' = entry s1 c'"
    using Cons.IH [of s1] Cons.prems has1 by (auto simp del: split_paired_Ex)
  have "link (c # cs) s = (Ok (), s2)" using s1(1) s2(1) by (simp add: link_Cons)
  moreover have "frame s s2" using s1(2) s2(2) by (rule frame_trans)
  moreover have "entry s2 c = next_link cs AND 0x0FFFFFFF"
    using s2(4) [of c] s1(3) c has1 Cons.prems(1) by simp
  moreover have "entry s2 c' = entry s c'" if "has s c'" "c' \<notin> set (c # cs)" for c'
    using s2(4) [of c'] s1(4) [of c'] has1 that by simp
  ultimately show ?case using s2(3) by auto
qed

lemma clear_all:
  "(\<And>c. c \<in> set cs \<Longrightarrow> has s c) \<Longrightarrow>
     \<exists>s'. clear cs s = (Ok (), s') \<and> frame s s'
       \<and> (\<forall>c. has s c \<longrightarrow> entry s' c = (if c \<in> set cs then 0 else entry s c))"
proof (induction cs arbitrary: s)
  case Nil
  then show ?case by (simp add: clear_Nil frame_refl)
next
  case (Cons c cs)
  have c: "has s c" using Cons.prems by simp
  then obtain s1 where s1: "store c 0 s = (Ok (), s1)" "frame s s1" "entry s1 c = 0"
    "\<And>c'. has s c' \<Longrightarrow> c' \<noteq> c \<Longrightarrow> entry s1 c' = entry s c'"
    using store_entry [of s c 0] by auto
  have has1: "has s1 c' = has s c'" for c' using s1(2) by (rule frame_has)
  obtain s2 where s2: "clear cs s1 = (Ok (), s2)" "frame s1 s2"
    "\<And>c'. has s1 c' \<Longrightarrow> entry s2 c' = (if c' \<in> set cs then 0 else entry s1 c')"
    using Cons.IH [of s1] Cons.prems has1 by (auto simp del: split_paired_Ex)
  have "clear (c # cs) s = (Ok (), s2)" using s1(1) s2(1) by (simp add: clear_Cons)
  moreover have "frame s s2" using s1(2) s2(2) by (rule frame_trans)
  moreover have "entry s2 c' = (if c' \<in> set (c # cs) then 0 else entry s c')" if "has s c'" for c'
    using s2(3) [of c'] s1(3) s1(4) [of c'] has1 that by auto
  ultimately show ?case by blast
qed

text \<open>Linking fresh clusters builds a chain and leaves every other chain of the table as it was.\<close>

lemma link_builds_path:
  assumes "distinct cs" "\<And>c. c \<in> set cs \<Longrightarrow> has s c" "cs \<noteq> []" "list_all plain_cluster cs"
    and "link cs s = (r, s')"
  shows "r = Ok ()" "frame s s'" "fat_path (entry s') cs"
    and "\<And>c. has s c \<Longrightarrow> c \<notin> set cs \<Longrightarrow> entry s' c = entry s c"
  using link_all [OF assms(1,2)] assms(3-5) by (auto intro: linked_fat_path)

end

end
