(* ===== verification/Fat_Table.thy ===== *)
theory Fat_Table
  imports Fat_Chain
begin

text \<open>
  The file allocation table on the disk, from \<^verbatim>\<open>fat32/src/lib.rs\<close>: reading an entry (both views),
  writing it to every copy of the table, following, releasing and allocating chains. The lemmas give
  each operation as an update of the abstract table \<open>fat_val\<close>, together with what stays on the disk.
\<close>

subsection \<open>Reading\<close>

definition read_fat_entry :: "fat32 \<Rightarrow> u32 \<Rightarrow> u32 fres" where
  "read_fat_entry fs cluster =
     (let fat_start = fat_start_byte fs;
          entry_offset = fat_start + unat cluster * 4
      in if length (disk fs) < entry_offset + 4 then Err OutOfBounds
         else rbind (get_slice (disk fs) entry_offset (entry_offset + 4)) (\<lambda>bs.
           let val = u32_from_le [bs ! 0, bs ! 1, bs ! 2, bs ! 3]
           in Ok (val AND 0x0FFFFFFF)))"

text \<open>The loop \<^verbatim>\<open>for _ in 0..max_clusters\<close>, with \<open>n\<close> rounds left.\<close>

fun follow_loop :: "fat32 \<Rightarrow> nat \<Rightarrow> u32 \<Rightarrow> u32 list \<Rightarrow> u32 list fres" where
  "follow_loop fs 0 current chain = Ok chain"
| "follow_loop fs (Suc n) current chain =
     (let chain = chain @ [current] in
      rbind (read_fat_entry fs current) (\<lambda>nxt.
        if 0x0FFFFFF8 \<le> nxt then Ok chain
        else if nxt < 2 then Err InvalidCluster
        else follow_loop fs n nxt chain))"

definition follow_chain :: "fat32 \<Rightarrow> u32 \<Rightarrow> nat \<Rightarrow> u32 list fres" where
  "follow_chain fs start_cluster max_clusters =
     (if start_cluster < 2 then Err InvalidCluster
      else follow_loop fs max_clusters start_cluster [])"

definition m_read_fat_entry :: "fat32_mut \<Rightarrow> u32 \<Rightarrow> u32 fres" where
  "m_read_fat_entry m cluster =
     (let fat_start = m_fat_start_byte m;
          entry_offset = fat_start + unat cluster * 4
      in if length (m_disk m) < entry_offset + 4 then Err OutOfBounds
         else rbind (get_slice (m_disk m) entry_offset (entry_offset + 4)) (\<lambda>bs.
           let val = u32_from_le [bs ! 0, bs ! 1, bs ! 2, bs ! 3]
           in Ok (val AND 0x0FFFFFFF)))"

fun m_follow_loop :: "fat32_mut \<Rightarrow> nat \<Rightarrow> u32 \<Rightarrow> u32 list \<Rightarrow> u32 list fres" where
  "m_follow_loop m 0 current result = Ok result"
| "m_follow_loop m (Suc n) current result =
     (let result = result @ [current] in
      rbind (m_read_fat_entry m current) (\<lambda>nxt.
        if 0x0FFFFFF8 \<le> nxt then Ok result
        else if nxt < 2 then Err InvalidCluster
        else m_follow_loop m n nxt result))"

definition m_follow_chain :: "fat32_mut \<Rightarrow> u32 \<Rightarrow> nat \<Rightarrow> u32 list fres" where
  "m_follow_chain m start_cluster max_clusters =
     (if start_cluster < 2 then Err InvalidCluster
      else m_follow_loop m max_clusters start_cluster [])"

subsection \<open>Writing\<close>

text \<open>\<^verbatim>\<open>self.disk[off..off + ys.len()].copy_from_slice(ys)\<close>.\<close>

definition put_bytes :: "nat \<Rightarrow> u8 list \<Rightarrow> (fat32_mut, fat_error, unit) prog" where
  "put_bytes off ys = (\<lambda>m. case copy_into (m_disk m) off ys of
      Ok d \<Rightarrow> (Ok (), m\<lparr>m_disk := d\<rparr>)
    | Err e \<Rightarrow> (Err e, m)
    | Panic \<Rightarrow> (Panic, m))"

text \<open>The loop over the copies of the table, for the copies \<open>is\<close> still to write.\<close>

fun write_copies ::
  "nat list \<Rightarrow> nat \<Rightarrow> nat \<Rightarrow> u32 \<Rightarrow> u8 list \<Rightarrow> (fat32_mut, fat_error, unit) prog" where
  "write_copies [] fat0 fat_len cluster bs = sret ()"
| "write_copies (i # is) fat0 fat_len cluster bs = (\<lambda>m.
     let base = fat0 + i * fat_len;
         off = base + unat cluster * 4
     in if length (m_disk m) < off + 4 then (Err OutOfBounds, m)
        else sbind (put_bytes off bs) (\<lambda>_. write_copies is fat0 fat_len cluster bs) m)"

definition write_fat_entry_all :: "u32 \<Rightarrow> u32 \<Rightarrow> (fat32_mut, fat_error, unit) prog" where
  "write_fat_entry_all cluster value = (\<lambda>m.
     let val = value AND 0x0FFFFFFF;
         bs = u32_to_le val;
         fat0 = m_fat_start_byte m;
         fat_len = fat_bytes_len m
     in write_copies [0..<unat (m_num_fats m)] fat0 fat_len cluster bs m)"

fun free_loop :: "u32 list \<Rightarrow> (fat32_mut, fat_error, unit) prog" where
  "free_loop [] = sret ()"
| "free_loop (cl # cls) = sbind (write_fat_entry_all cl 0) (\<lambda>_. free_loop cls)"

definition free_chain :: "u32 \<Rightarrow> (fat32_mut, fat_error, unit) prog" where
  "free_chain start_cluster =
     (if start_cluster < 2 then sret ()
      else sbind (sget (\<lambda>m. m_follow_chain m start_cluster 4096)) (\<lambda>chain. free_loop chain))"

text \<open>The scan \<^verbatim>\<open>for cl in 2..=max_cl\<close> over the clusters still to look at.\<close>

fun alloc_scan :: "fat32_mut \<Rightarrow> nat \<Rightarrow> u32 list \<Rightarrow> u32 list \<Rightarrow> u32 list fres" where
  "alloc_scan m needed [] found = Ok found"
| "alloc_scan m needed (cl # cls) found =
     rbind (m_read_fat_entry m cl) (\<lambda>v.
       if v = 0 then
         (let found = found @ [cl]
          in if length found = needed then Ok found else alloc_scan m needed cls found)
       else alloc_scan m needed cls found)"

text \<open>\<^verbatim>\<open>for i in 0..found.len()\<close>: each cluster gets its successor, the last one the end mark.\<close>

fun link_loop :: "u32 list \<Rightarrow> (fat32_mut, fat_error, unit) prog" where
  "link_loop [] = sret ()"
| "link_loop (cl # cls) =
     sbind (write_fat_entry_all cl (case cls of [] \<Rightarrow> FAT32_EOC | d # _ \<Rightarrow> d))
       (\<lambda>_. link_loop cls)"

definition clusters_upto :: "u32 \<Rightarrow> u32 list" where
  "clusters_upto max_cl = map word_of_nat [2..<Suc (unat max_cl)]"

definition alloc_chain :: "profile \<Rightarrow> nat \<Rightarrow> (fat32_mut, fat_error, u32 list) prog" where
  "alloc_chain pf needed =
     (if needed = 0 then sret []
      else sbind (sget (max_cluster_number pf)) (\<lambda>max_cl.
        sbind (sget (\<lambda>m. alloc_scan m needed (clusters_upto max_cl) [])) (\<lambda>found.
          if length found \<noteq> needed then sfail NoSpaceLeft
          else sbind (link_loop found) (\<lambda>_. sret found))))"

subsection \<open>The two views agree\<close>

lemma as_read_read_fat_entry [simp]: "read_fat_entry (as_read m) c = m_read_fat_entry m c"
  by (simp add: read_fat_entry_def m_read_fat_entry_def Let_def)

lemma as_read_follow_loop [simp]: "follow_loop (as_read m) n c acc = m_follow_loop m n c acc"
  by (induction n arbitrary: c acc) (simp_all add: Let_def cong: if_cong)

lemma as_read_follow_chain [simp]: "follow_chain (as_read m) c n = m_follow_chain m c n"
  by (simp add: follow_chain_def m_follow_chain_def)

subsection \<open>No panic\<close>

lemma read_fat_entry_no_Panic [simp]: "read_fat_entry fs c \<noteq> Panic"
  by (simp add: read_fat_entry_def get_slice_def Let_def res_simps)

lemma m_read_fat_entry_no_Panic [simp]: "m_read_fat_entry m c \<noteq> Panic"
  by (simp add: m_read_fat_entry_def get_slice_def Let_def res_simps)

lemma follow_loop_no_Panic [simp]: "follow_loop fs n c acc \<noteq> Panic"
  by (induction n arbitrary: c acc) (auto simp: Let_def res_simps)

lemma follow_chain_no_Panic [simp]: "follow_chain fs c n \<noteq> Panic"
  by (simp add: follow_chain_def)

lemma m_follow_chain_no_Panic [simp]: "m_follow_chain m c n \<noteq> Panic"
  using follow_chain_no_Panic [of "as_read m"] by simp

lemma alloc_scan_no_Panic [simp]: "alloc_scan m needed cls found \<noteq> Panic"
  by (induction cls arbitrary: found) (auto simp: Let_def res_simps)

subsection \<open>Writes keep the shape of the volume\<close>

lemmas shape_Pair [simp] = keeps_Pair [of same_shape, OF same_shape_refl]
lemmas shape_sret [simp] = keeps_sret [of same_shape, OF same_shape_refl]
lemmas shape_sfail [simp] = keeps_sfail [of same_shape, OF same_shape_refl]
lemmas shape_sget [simp] = keeps_sget [of same_shape, OF same_shape_refl]
lemmas shape_guard = keeps_guard [of same_shape, OF _ same_shape_refl]
lemmas shape_sbind [intro] = keeps_sbind [of same_shape, OF _ _ same_shape_trans]

lemma put_bytes_Ok:
  "off + length ys \<le> length (m_disk m) \<Longrightarrow>
     put_bytes off ys m = (Ok (), m\<lparr>m_disk := patch (m_disk m) off ys\<rparr>)"
  by (simp add: put_bytes_def copy_into_def)

lemma put_bytes_shape [simp]: "keeps same_shape (put_bytes off ys)"
  by (auto simp: keeps_def put_bytes_def copy_into_def)

lemma write_copies_shape [simp]: "keeps same_shape (write_copies is fat0 fat_len c bs)"
proof (induction "is")
  case (Cons i "is")
  show ?case
    unfolding write_copies.simps Let_def using Cons by (intro shape_guard shape_sbind) auto
qed simp

lemma write_fat_entry_all_shape [simp]: "keeps same_shape (write_fat_entry_all c v)"
  using write_copies_shape by (auto simp: keeps_def write_fat_entry_all_def Let_def)

lemma free_loop_shape [simp]: "keeps same_shape (free_loop cls)"
  by (induction cls) auto

lemma free_chain_shape [simp]: "keeps same_shape (free_chain c)"
  by (auto simp: free_chain_def)

lemma link_loop_shape [simp]: "keeps same_shape (link_loop cls)"
  by (induction cls) auto

lemma alloc_chain_shape [simp]: "keeps same_shape (alloc_chain pf needed)"
  unfolding alloc_chain_def by (auto intro!: shape_sbind)

subsection \<open>Writes do not panic\<close>

lemma put_bytes_safe:
  "off + length ys \<le> length (m_disk m) \<Longrightarrow> safe_at (put_bytes off ys) m"
  by (simp add: safe_at_def put_bytes_Ok)

lemma write_copies_safe:
  "length bs = 4 \<Longrightarrow> safe_at (write_copies is fat0 fat_len c bs) m"
  by (induction "is" arbitrary: m) (simp_all add: Let_def put_bytes_Ok safe_at_def)

lemma write_fat_entry_all_safe [simp]: "safe_at (write_fat_entry_all c v) m"
  using write_copies_safe by (simp add: safe_at_def write_fat_entry_all_def Let_def)

lemma free_loop_safe [simp]: "safe_at (free_loop cls) m"
  by (induction cls arbitrary: m) auto

lemma free_chain_safe [simp]: "safe_at (free_chain c) m"
  by (auto simp: free_chain_def)

lemma link_loop_safe [simp]: "safe_at (link_loop cls) m"
  by (induction cls arbitrary: m) auto

subsection \<open>The entries as cells of the disk\<close>

definition cell :: "fat32_mut \<Rightarrow> nat \<Rightarrow> u32 \<Rightarrow> nat" where
  "cell m i c = m_fat_start_byte m + i * fat_bytes_len m + 4 * unat c"

definition has_entry :: "fat32_mut \<Rightarrow> u32 \<Rightarrow> bool" where
  "has_entry m c \<longleftrightarrow>
     4 * unat c + 4 \<le> fat_bytes_len m \<and> m_data_start_byte m \<le> length (m_disk m)
     \<and> 0 < unat (m_num_fats m)"

text \<open>The entry of \<open>c\<close> in copy \<open>i\<close>; the driver reads copy 0.\<close>

definition copy_val :: "fat32_mut \<Rightarrow> nat \<Rightarrow> u32 \<Rightarrow> u32" where
  "copy_val m i c = u32_from_le (window (m_disk m) (cell m i c) 4) AND 0x0FFFFFFF"

definition fat_val :: "fat32_mut \<Rightarrow> u32 \<Rightarrow> u32" where
  "fat_val m = copy_val m 0"

text \<open>\<open>outside_fat m m'\<close>: the same volume, and the same bytes before and after the tables.\<close>

definition outside_fat :: "fat32_mut \<Rightarrow> fat32_mut \<Rightarrow> bool" where
  "outside_fat m m' \<longleftrightarrow> same_shape m m' \<and>
     (\<forall>a n. a + n \<le> m_fat_start_byte m \<or> m_data_start_byte m \<le> a \<longrightarrow>
        window (m_disk m') a n = window (m_disk m) a n)"

lemma outside_fat_refl [simp]: "outside_fat m m"
  by (simp add: outside_fat_def)

lemma outside_fat_trans: "outside_fat a b \<Longrightarrow> outside_fat b c \<Longrightarrow> outside_fat a c"
  unfolding outside_fat_def
  by (auto simp: same_shapeD(3,5) intro: same_shape_trans [of a b c])

lemma outside_fat_shape: "outside_fat m m' \<Longrightarrow> same_shape m m'"
  by (simp add: outside_fat_def)

lemma cell_same_shape: "same_shape m m' \<Longrightarrow> cell m' i c = cell m i c"
  by (simp add: cell_def same_shapeD)

lemma has_entry_same_shape: "same_shape m m' \<Longrightarrow> has_entry m' c = has_entry m c"
  by (simp add: has_entry_def same_shapeD)

lemma cell_in_fat:
  assumes "has_entry m c" "i < unat (m_num_fats m)"
  shows "m_fat_start_byte m \<le> cell m i c" and "cell m i c + 4 \<le> m_data_start_byte m"
    and "cell m i c + 4 \<le> length (m_disk m)"
proof -
  have "(i + 1) * fat_bytes_len m \<le> unat (m_num_fats m) * fat_bytes_len m"
    using assms(2) by (intro mult_le_mono1) simp
  then show "m_fat_start_byte m \<le> cell m i c" and "cell m i c + 4 \<le> m_data_start_byte m"
    and "cell m i c + 4 \<le> length (m_disk m)"
    using assms(1) by (auto simp: cell_def has_entry_def data_start_eq)
qed

lemma cells_disjoint:
  assumes "has_entry m c" "has_entry m c'" "i \<noteq> j \<or> c \<noteq> c'"
  shows "cell m i c + 4 \<le> cell m j c' \<or> cell m j c' + 4 \<le> cell m i c"
proof (cases i j rule: linorder_cases)
  case less
  then have "(i + 1) * fat_bytes_len m \<le> j * fat_bytes_len m" by (intro mult_le_mono1) simp
  then show ?thesis using assms(1) by (auto simp: cell_def has_entry_def)
next
  case greater
  then have "(j + 1) * fat_bytes_len m \<le> i * fat_bytes_len m" by (intro mult_le_mono1) simp
  then show ?thesis using assms(2) by (auto simp: cell_def has_entry_def)
next
  case equal
  then have "unat c \<noteq> unat c'" using assms(3) by (simp add: word_unat_eq_iff)
  then show ?thesis using equal by (auto simp: cell_def)
qed

lemma four_bytes: "length bs = 4 \<Longrightarrow> [bs ! 0, bs ! 1, bs ! 2, bs ! 3] = bs"
  by (auto simp: numeral_eq_Suc length_Suc_conv)

lemma read_fat_entry_val: "has_entry m c \<Longrightarrow> m_read_fat_entry m c = Ok (fat_val m c)"
proof -
  assume c: "has_entry m c"
  have "0 < unat (m_num_fats m)" using c by (simp add: has_entry_def)
  with c have "cell m 0 c + 4 \<le> length (m_disk m)" by (rule cell_in_fat)
  then show ?thesis
    using four_bytes [of "window (m_disk m) (cell m 0 c) 4"]
    by (simp add: m_read_fat_entry_def fat_val_def copy_val_def cell_def get_slice_def Let_def
        mult.commute)
qed

text \<open>One round of the copy loop, then all of them.\<close>

lemma write_copies_cells:
  assumes "has_entry m c" "\<And>i. i \<in> set is \<Longrightarrow> i < unat (m_num_fats m)" "length bs = 4"
  shows "\<exists>m'. write_copies is (m_fat_start_byte m) (fat_bytes_len m) c bs m = (Ok (), m')
    \<and> outside_fat m m'
    \<and> (\<forall>j c'. j < unat (m_num_fats m) \<longrightarrow> has_entry m c' \<longrightarrow>
         window (m_disk m') (cell m j c') 4
           = (if j \<in> set is \<and> c' = c then bs else window (m_disk m) (cell m j c') 4))"
  using assms
proof (induction "is" arbitrary: m)
  case Nil
  then show ?case by simp
next
  case (Cons i "is")
  let ?m1 = "m\<lparr>m_disk := patch (m_disk m) (cell m i c) bs\<rparr>"
  have i: "i < unat (m_num_fats m)" using Cons.prems by simp
  note inside = cell_in_fat [OF Cons.prems(1) i]
  have shape: "same_shape m ?m1" using inside(3) Cons.prems(3) by auto
  have len4: "cell m i c + length bs \<le> length (m_disk m)" using inside(3) Cons.prems(3) by simp
  have m1: "window (m_disk ?m1) (cell m j c') 4
      = (if j = i \<and> c' = c then bs else window (m_disk m) (cell m j c') 4)"
    if "j < unat (m_num_fats m)" "has_entry m c'" for j c'
    using cells_disjoint [OF that(2) Cons.prems(1), of j i] len4 Cons.prems(3)
      window_patch_same [OF len4] window_patch_disjoint [OF len4, of "cell m j c'" 4]
    by auto
  have out: "outside_fat m ?m1"
    unfolding outside_fat_def using shape inside len4 Cons.prems(3)
    by (auto intro!: window_patch_disjoint)
  have step: "write_copies (i # is) (m_fat_start_byte m) (fat_bytes_len m) c bs m
      = write_copies is (m_fat_start_byte ?m1) (fat_bytes_len ?m1) c bs ?m1"
    using inside(3) Cons.prems(3) by (simp add: Let_def put_bytes_Ok cell_def mult.commute)
  obtain m' where m': "write_copies is (m_fat_start_byte ?m1) (fat_bytes_len ?m1) c bs ?m1 = (Ok (), m')"
      "outside_fat ?m1 m'"
      "\<And>j c'. j < unat (m_num_fats m) \<Longrightarrow> has_entry m c' \<Longrightarrow>
         window (m_disk m') (cell m j c') 4
           = (if j \<in> set is \<and> c' = c then bs else window (m_disk ?m1) (cell m j c') 4)"
    using Cons.IH [of ?m1] Cons.prems has_entry_same_shape [OF shape] cell_same_shape [OF shape]
    by (auto simp del: split_paired_Ex)
  show ?case
    unfolding step using m' outside_fat_trans [OF out m'(2)] m1 by auto
qed

text \<open>Writing an entry: every copy holds the new value, every other entry is untouched.\<close>

lemma write_fat_entry_all_copies:
  assumes "has_entry m c"
  shows "\<exists>m'. write_fat_entry_all c v m = (Ok (), m') \<and> outside_fat m m'
    \<and> (\<forall>j c'. j < unat (m_num_fats m) \<longrightarrow> has_entry m c' \<longrightarrow>
         copy_val m' j c' = (if c' = c then v AND 0x0FFFFFFF else copy_val m j c'))"
proof -
  obtain m' where m': "write_fat_entry_all c v m = (Ok (), m')" "outside_fat m m'"
    "\<And>j c'. j < unat (m_num_fats m) \<Longrightarrow> has_entry m c' \<Longrightarrow>
      window (m_disk m') (cell m j c') 4
        = (if c' = c then u32_to_le (v AND 0x0FFFFFFF) else window (m_disk m) (cell m j c') 4)"
    using write_copies_cells [OF assms, of "[0..<unat (m_num_fats m)]" "u32_to_le (v AND 0x0FFFFFFF)"]
    by (auto simp: write_fat_entry_all_def Let_def)
  have "copy_val m' j c' = (if c' = c then v AND 0x0FFFFFFF else copy_val m j c')"
    if "j < unat (m_num_fats m)" "has_entry m c'" for j c'
    using m'(3) [OF that] cell_same_shape [OF outside_fat_shape [OF m'(2)]]
    by (simp add: copy_val_def)
  with m'(1,2) show ?thesis by blast
qed

text \<open>
  \<open>mirrored\<close>: every copy of the table agrees with the first one. It is kept by every write, and
  part of the frame the loops carry along.
\<close>

definition mirrored :: "fat32_mut \<Rightarrow> bool" where
  "mirrored m \<longleftrightarrow>
     (\<forall>c i. has_entry m c \<longrightarrow> i < unat (m_num_fats m) \<longrightarrow> copy_val m i c = fat_val m c)"

definition fat_frame :: "fat32_mut \<Rightarrow> fat32_mut \<Rightarrow> bool" where
  "fat_frame m m' \<longleftrightarrow> outside_fat m m' \<and> (mirrored m \<longrightarrow> mirrored m')"

lemma fat_frame_outside: "fat_frame m m' \<Longrightarrow> outside_fat m m'"
  by (simp add: fat_frame_def)

lemma fat_frame_shape: "fat_frame m m' \<Longrightarrow> same_shape m m'"
  by (simp add: fat_frame_def outside_fat_def)

lemma write_fat_entry_all_frame:
  assumes c: "has_entry m c"
  shows "\<exists>m'. write_fat_entry_all c v m = (Ok (), m') \<and> fat_frame m m'
    \<and> fat_val m' c = v AND 0x0FFFFFFF
    \<and> (\<forall>c'. has_entry m c' \<longrightarrow> c' \<noteq> c \<longrightarrow> fat_val m' c' = fat_val m c')"
proof -
  obtain m' where m': "write_fat_entry_all c v m = (Ok (), m')" "outside_fat m m'"
    and copies: "\<And>j c'. j < unat (m_num_fats m) \<Longrightarrow> has_entry m c' \<Longrightarrow>
      copy_val m' j c' = (if c' = c then v AND 0x0FFFFFFF else copy_val m j c')"
    using write_fat_entry_all_copies [OF c, of v] by blast
  have first: "0 < unat (m_num_fats m)" using c by (simp add: has_entry_def)
  note shape = outside_fat_shape [OF m'(2)]
  have val: "fat_val m' c' = (if c' = c then v AND 0x0FFFFFFF else fat_val m c')"
    if "has_entry m c'" for c'
    using copies [OF first that] by (simp add: fat_val_def)
  have "mirrored m'" if "mirrored m"
    using that copies val by (simp add: mirrored_def has_entry_same_shape [OF shape] same_shapeD(6) [OF shape])
  with m' c val show ?thesis by (auto simp: fat_frame_def)
qed

interpretation fat_cell: fat_cells fat_val has_entry fat_frame m_read_fat_entry write_fat_entry_all
proof unfold_locales
  show "\<And>m c. has_entry m c \<Longrightarrow> m_read_fat_entry m c = Ok (fat_val m c)"
    by (rule read_fat_entry_val)
  show "\<And>m c v. has_entry m c \<Longrightarrow> \<exists>m'. write_fat_entry_all c v m = (Ok (), m') \<and> fat_frame m m'
      \<and> fat_val m' c = v AND 0x0FFFFFFF
      \<and> (\<forall>c'. has_entry m c' \<longrightarrow> c' \<noteq> c \<longrightarrow> fat_val m' c' = fat_val m c')"
    by (rule write_fat_entry_all_frame)
  show "\<And>m. fat_frame m m" by (simp add: fat_frame_def)
  show "\<And>a b c. fat_frame a b \<Longrightarrow> fat_frame b c \<Longrightarrow> fat_frame a c"
    by (auto simp: fat_frame_def intro: outside_fat_trans)
  show "\<And>m m' c. fat_frame m m' \<Longrightarrow> has_entry m' c = has_entry m c"
    by (simp add: fat_frame_shape has_entry_same_shape)
qed

interpretation fat: fat_links fat_val has_entry fat_frame m_read_fat_entry write_fat_entry_all
    link_loop free_loop
  by unfold_locales (simp_all add: next_link_def)

end
