(* ===== verification/Test_Image.thy ===== *)
theory Test_Image
  imports Volume
begin

text \<open>
  The ten-sector volume the kernel boots with, \<^verbatim>\<open>build_test_image\<close> of \<^verbatim>\<open>kernel/src/main.rs\<close> (the unit
  tests of \<^verbatim>\<open>fat32/src/lib.rs\<close> build the same one but for the end-of-chain value): a root directory in cluster 2 with \<^verbatim>\<open>HELLO.TXT\<close>
  (cluster 3) and \<^verbatim>\<open>DIR\<close> (cluster 4), and five free clusters. It is the input the witnesses of the
  development evaluate.
\<close>

text \<open>A sequence of assignments to the buffer, in order.\<close>

fun patch_all :: "(nat \<times> u8 list) list \<Rightarrow> u8 list \<Rightarrow> u8 list" where
  "patch_all [] d = d"
| "patch_all ((a, ys) # ps) d = patch_all ps (patch d a ys)"

definition hello_entry :: "u8 list" where
  "hello_entry = patch_all
     [(0, bytes ''HELLO   ''), (8, bytes ''TXT''), (11, [0x20]), (26, [0x03]), (27, [0x00]),
      (28, [5])] (replicate 32 0)"

definition subdir_entry :: "u8 list" where
  "subdir_entry = patch_all
     [(0, bytes ''DIR     ''), (8, bytes ''   ''), (11, [0x10]), (26, [0x04]), (27, [0x00])]
     (replicate 32 0)"

definition build_test_image :: "u8 list" where
  "build_test_image = patch_all
     [(11, [0x00]), (12, [0x02]), (13, [0x01]), (14, [0x01]), (15, [0x00]), (16, [0x01]),
      (36, [0x01]), (37, [0x00]), (38, [0x00]), (39, [0x00]),
      (44, [0x02]), (45, [0x00]), (46, [0x00]), (47, [0x00]),
      (512 + 2 * 4, u32_to_le 0x0FFFFFF8),
      (512 + 3 * 4, u32_to_le 0x0FFFFFF8),
      (512 + 4 * 4, u32_to_le 0x0FFFFFF8),
      (2 * 512, hello_entry),
      (2 * 512 + 32, subdir_entry),
      (2 * 512 + 64, [0x00]),
      (3 * 512, bytes ''HELLO''),
      (4 * 512, [0x00])]
     (replicate (512 * 10) 0)"

subsection \<open>Reading the image\<close>

text \<open>
  A window of a buffer built by assignments is built by the assignments that fall into it. The
  premises are decided by evaluation, so a closed window of the image is one rewrite away.
\<close>

lemma length_patch_all:
  "list_all (\<lambda>p. fst p + length (snd p) \<le> length d) ps \<Longrightarrow> length (patch_all ps d) = length d"
  by (induction ps d rule: patch_all.induct) auto

definition clear_of :: "nat \<Rightarrow> nat \<Rightarrow> nat \<times> u8 list \<Rightarrow> bool" where
  "clear_of b n p \<longleftrightarrow> b + n \<le> fst p \<or> fst p + length (snd p) \<le> b"

definition within :: "nat \<Rightarrow> nat \<Rightarrow> nat \<times> u8 list \<Rightarrow> bool" where
  "within b n p \<longleftrightarrow> b \<le> fst p \<and> fst p + length (snd p) \<le> b + n"

definition in_window :: "nat \<Rightarrow> nat \<Rightarrow> (nat \<times> u8 list) list \<Rightarrow> (nat \<times> u8 list) list" where
  "in_window b n ps = map (\<lambda>(a, ys). (a - b, ys)) (filter (\<lambda>p. \<not> clear_of b n p) ps)"

lemma window_patch_all:
  "list_all (\<lambda>p. fst p + length (snd p) \<le> length d) ps \<Longrightarrow>
     list_all (\<lambda>p. clear_of b n p \<or> within b n p) ps \<Longrightarrow> b + n \<le> length d \<Longrightarrow>
     window (patch_all ps d) b n = patch_all (in_window b n ps) (window d b n)"
proof (induction ps d rule: patch_all.induct)
  case (1 d)
  then show ?case by (simp add: in_window_def)
next
  case (2 a ys ps d)
  have a: "a + length ys \<le> length d" using "2.prems"(1) by simp
  have IH: "window (patch_all ps (patch d a ys)) b n
      = patch_all (in_window b n ps) (window (patch d a ys) b n)"
    using "2.IH" "2.prems" a by simp
  show ?case
  proof (cases "clear_of b n (a, ys)")
    case True
    then have "window (patch d a ys) b n = window d b n"
      using a by (intro window_patch_disjoint) (auto simp: clear_of_def)
    with IH True show ?thesis by (simp add: in_window_def)
  next
    case False
    then have "window (patch d a ys) b n = patch (window d b n) (a - b) ys"
      using a "2.prems"(2,3) by (intro window_patch_around) (auto simp: within_def)
    with IH False show ?thesis by (simp add: in_window_def)
  qed
qed

definition image_writes :: "(nat \<times> u8 list) list" where
  "image_writes =
     [(11, [0x00]), (12, [0x02]), (13, [0x01]), (14, [0x01]), (15, [0x00]), (16, [0x01]),
      (36, [0x01]), (37, [0x00]), (38, [0x00]), (39, [0x00]),
      (44, [0x02]), (45, [0x00]), (46, [0x00]), (47, [0x00]),
      (520, [0xF8, 0xFF, 0xFF, 0x0F]), (524, [0xF8, 0xFF, 0xFF, 0x0F]), (528, [0xF8, 0xFF, 0xFF, 0x0F]),
      (1024, [0x48, 0x45, 0x4C, 0x4C, 0x4F, 0x20, 0x20, 0x20, 0x54, 0x58, 0x54, 0x20, 0, 0, 0, 0,
              0, 0, 0, 0, 0, 0, 0, 0, 0, 0, 3, 0, 5, 0, 0, 0]),
      (1056, [0x44, 0x49, 0x52, 0x20, 0x20, 0x20, 0x20, 0x20, 0x20, 0x20, 0x20, 0x10, 0, 0, 0, 0,
              0, 0, 0, 0, 0, 0, 0, 0, 0, 0, 4, 0, 0, 0, 0, 0]),
      (1088, [0]), (1536, [0x48, 0x45, 0x4C, 0x4C, 0x4F]), (2048, [0])]"

lemma hello_entry_eq:
  "hello_entry = [0x48, 0x45, 0x4C, 0x4C, 0x4F, 0x20, 0x20, 0x20, 0x54, 0x58, 0x54, 0x20, 0, 0, 0, 0,
     0, 0, 0, 0, 0, 0, 0, 0, 0, 0, 3, 0, 5, 0, 0, 0]"
  by code_simp

lemma subdir_entry_eq:
  "subdir_entry = [0x44, 0x49, 0x52, 0x20, 0x20, 0x20, 0x20, 0x20, 0x20, 0x20, 0x20, 0x10, 0, 0, 0, 0,
     0, 0, 0, 0, 0, 0, 0, 0, 0, 0, 4, 0, 0, 0, 0, 0]"
  by code_simp

lemma image_bytes:
  "u32_to_le 0x0FFFFFF8 = [0xF8, 0xFF, 0xFF, 0x0F]" "bytes ''HELLO'' = [0x48, 0x45, 0x4C, 0x4C, 0x4F]"
  by (simp add: u32_to_le_eval) code_simp

lemma build_test_image_eq: "build_test_image = patch_all image_writes (replicate 5120 0)"
  by (simp add: build_test_image_def image_writes_def hello_entry_eq subdir_entry_eq image_bytes
      del: patch_all.simps)

lemma image_in_bounds: "list_all (\<lambda>p. fst p + length (snd p) \<le> 5120) image_writes"
  by (simp add: image_writes_def)

lemma length_build_test_image [simp]: "length build_test_image = 5120"
  using length_patch_all [of "replicate 5120 0" image_writes] image_in_bounds
  by (simp add: build_test_image_eq)

lemma window_replicate: "a + n \<le> N \<Longrightarrow> window (replicate N x) a n = replicate n x"
  by (simp add: window_def)

lemma window_image:
  "list_all (\<lambda>p. clear_of b n p \<or> within b n p) image_writes \<Longrightarrow> b + n \<le> 5120 \<Longrightarrow>
     window build_test_image b n = patch_all (in_window b n image_writes) (replicate n 0)"
  using window_patch_all [of "replicate 5120 0" image_writes b n] image_in_bounds
  by (simp add: build_test_image_eq window_replicate)

lemmas image_eval = clear_of_def within_def in_window_def image_writes_def

lemma nth_image:
  "i < 5120 \<Longrightarrow> list_all (\<lambda>p. clear_of i 1 p \<or> within i 1 p) image_writes \<Longrightarrow>
     build_test_image ! i = patch_all (in_window i 1 image_writes) [0] ! 0"
  using window_image [of i 1] nth_window [of 0 1 i build_test_image] by simp

text \<open>The mounted volume.\<close>

definition test_volume :: fat32_mut where
  "test_volume =
     \<lparr>m_disk = build_test_image, m_bytes_per_sector = 512, m_sectors_per_cluster = 1,
      m_reserved_sectors = 1, m_num_fats = 1, m_sectors_per_fat = 1, m_root_cluster = 2\<rparr>"

lemma image_bpb:
  "build_test_image ! 11 = 0x00" "build_test_image ! 12 = 0x02" "build_test_image ! 13 = 0x01"
  "build_test_image ! 14 = 0x01" "build_test_image ! 15 = 0x00" "build_test_image ! 16 = 0x01"
  "build_test_image ! 36 = 0x01" "build_test_image ! 37 = 0x00" "build_test_image ! 38 = 0x00"
  "build_test_image ! 39 = 0x00"
  "build_test_image ! 44 = 0x02" "build_test_image ! 45 = 0x00" "build_test_image ! 46 = 0x00"
  "build_test_image ! 47 = 0x00"
  by (simp_all add: nth_image image_eval patch_def)

lemma mount_test_image: "fat32_mut_new build_test_image = Ok test_volume"
  by (simp add: fat32_mut_new_def parse_bpb_def test_volume_def Let_def image_bpb u16_from_le_def
      u32_from_le_def)

lemma mounted_test_volume [simp]: "mounted test_volume"
  using fat32_mut_new_mounted [OF mount_test_image] by simp

lemma test_volume_geometry [simp]:
  "m_disk test_volume = build_test_image" "m_num_fats test_volume = 1"
  "m_root_cluster test_volume = 2" "m_cluster_size test_volume = 512"
  "m_fat_start_byte test_volume = 512" "fat_bytes_len test_volume = 512"
  "m_data_start_byte test_volume = 1024"
  by (simp_all add: test_volume_def m_cluster_size_def m_fat_start_byte_def fat_bytes_len_def
      m_data_start_byte_def m_bytes_per_sector_usize_def)

lemma test_volume_max_cluster [simp]: "max_cluster_number pf test_volume = Ok 9"
proof -
  have "arith_add pf 2 (8 :: u32) = (Ok 10 :: u32 fres)" "arith_sub pf 10 (1 :: u32) = (Ok 9 :: u32 fres)"
    "arith_sub pf 128 (1 :: u32) = (Ok 127 :: u32 fres)"
    by (simp_all add: arith_add_def arith_sub_def)
  then show ?thesis by (simp add: max_cluster_number_def Let_def)
qed

end
