(* ===== verification/Fat_Alloc.thy ===== *)
theory Fat_Alloc
  imports Fat_Table Test_Image
begin

text \<open>
  What the operations on chains do to the table: following a chain, the last cluster the volume can
  use, releasing a chain and allocating one. The lemmas rest on the contract of \<open>Fat_Chain\<close>; the
  properties at the end are the specification of \<^verbatim>\<open>follow_chain\<close>, \<^verbatim>\<open>free_chain\<close> and \<^verbatim>\<open>alloc_chain\<close>.
\<close>

subsection \<open>Following a chain\<close>

lemma follow_loop_path:
  "fat_path f (c # cs) \<Longrightarrow> (\<And>d. d \<in> set (c # cs) \<Longrightarrow> read_fat_entry fs d = Ok (f d)) \<Longrightarrow>
     follow_loop fs n c acc = Ok (acc @ take n (c # cs))"
proof (induction cs arbitrary: c n acc)
  case Nil
  then show ?case by (cases n) (simp_all add: Let_def)
next
  case (Cons d cs)
  show ?case
  proof (cases n)
    case (Suc k)
    have step: "f c = d" "2 \<le> d" "d < 0x0FFFFFF8" "fat_path f (d # cs)"
      using Cons.prems(1) by auto
    moreover have "read_fat_entry fs c = Ok d" using Cons.prems(2) step by simp
    ultimately show ?thesis
      using Suc Cons.IH [of d k "acc @ [c]"] Cons.prems(2) by (simp add: Let_def not_le not_less)
  qed simp
qed

lemma follow_chain_path:
  "fat_path f (c # cs) \<Longrightarrow> 2 \<le> c \<Longrightarrow>
     (\<And>d. d \<in> set (c # cs) \<Longrightarrow> read_fat_entry fs d = Ok (f d)) \<Longrightarrow>
     follow_chain fs c n = Ok (take n (c # cs))"
  using follow_loop_path [of f c cs fs n "[]"] by (simp add: follow_chain_def not_less)

lemma follow_loop_sound:
  "follow_loop fs n c acc = Ok ch \<Longrightarrow> 2 \<le> c \<Longrightarrow>
     \<exists>cs. ch = acc @ cs \<and> length cs \<le> n \<and> (0 < n \<longrightarrow> cs \<noteq> [] \<and> hd cs = c)
       \<and> (\<forall>d\<in>set cs. 2 \<le> d)
       \<and> (\<forall>i. Suc i < length cs \<longrightarrow> read_fat_entry fs (cs ! i) = Ok (cs ! Suc i))
       \<and> (length cs < n \<longrightarrow> (\<exists>v. read_fat_entry fs (last cs) = Ok v \<and> 0x0FFFFFF8 \<le> v))"
proof (induction n arbitrary: c acc)
  case 0
  then show ?case by simp
next
  case (Suc n)
  obtain v where v: "read_fat_entry fs c = Ok v"
    using Suc.prems(1) by (auto simp: Let_def res_simps)
  show ?case
  proof (cases "0x0FFFFFF8 \<le> v")
    case True
    with v Suc.prems show ?thesis by (intro exI [of _ "[c]"]) (simp add: Let_def)
  next
    case False
    with v Suc.prems(1) have "\<not> v < 2" and rest: "follow_loop fs n v (acc @ [c]) = Ok ch"
      by (auto simp: Let_def split: if_splits)
    then have "2 \<le> v" by simp
    with Suc.IH [OF rest] obtain cs where cs: "ch = acc @ c # cs" "length cs \<le> n"
      "0 < n \<longrightarrow> cs \<noteq> [] \<and> hd cs = v" "\<forall>d\<in>set cs. 2 \<le> d"
      "\<forall>i. Suc i < length cs \<longrightarrow> read_fat_entry fs (cs ! i) = Ok (cs ! Suc i)"
      "length cs < n \<longrightarrow> (\<exists>v. read_fat_entry fs (last cs) = Ok v \<and> 0x0FFFFFF8 \<le> v)"
      by auto
    have "read_fat_entry fs ((c # cs) ! i) = Ok ((c # cs) ! Suc i)" if "Suc i < length (c # cs)" for i
      using that v cs(2,3,5) by (cases i) (auto simp: hd_conv_nth)
    with cs Suc.prems(2) show ?thesis
      by (intro exI [of _ "c # cs"]) auto
  qed
qed

subsection \<open>The last cluster of the volume\<close>

lemma set_clusters_upto: "set (clusters_upto mx) = {c. 2 \<le> c \<and> c \<le> mx}"
proof (rule set_eqI)
  fix c :: u32
  have "c \<in> set (clusters_upto mx) \<longleftrightarrow> (\<exists>n. c = word_of_nat n \<and> 2 \<le> n \<and> n \<le> unat mx)"
    by (auto simp: clusters_upto_def)
  also have "\<dots> \<longleftrightarrow> 2 \<le> unat c \<and> unat c \<le> unat mx"
  proof
    assume "\<exists>n. c = word_of_nat n \<and> 2 \<le> n \<and> n \<le> unat mx"
    then obtain n where n: "c = word_of_nat n" "2 \<le> n" "n \<le> unat mx" by blast
    have "n < 2 ^ 32" using n(3) unsigned_less [of mx, where ?'a = nat] by simp
    then have "unat c = n" using n(1) by (simp add: unat_of_nat)
    with n show "2 \<le> unat c \<and> unat c \<le> unat mx" by simp
  next
    assume "2 \<le> unat c \<and> unat c \<le> unat mx"
    then show "\<exists>n. c = word_of_nat n \<and> 2 \<le> n \<and> n \<le> unat mx"
      by (intro exI [of _ "unat c"]) simp
  qed
  finally show "c \<in> set (clusters_upto mx) \<longleftrightarrow> c \<in> {c. 2 \<le> c \<and> c \<le> mx}"
    by (simp add: word_le_nat_alt)
qed

lemma distinct_clusters_upto: "distinct (clusters_upto mx)"
proof -
  have mx: "unat mx < 2 ^ 32"
    using unsigned_less [of mx, where ?'a = nat] by simp
  have val: "unat (word_of_nat x :: u32) = x" if "x \<le> unat mx" for x
    using that mx by (simp only: unat_of_nat) simp
  have "inj_on (word_of_nat :: nat \<Rightarrow> u32) {2..<Suc (unat mx)}"
    by (rule inj_on_inverseI [where g = unat]) (use val in simp)
  then show ?thesis by (simp add: clusters_upto_def distinct_map del: upt_Suc)
qed

text \<open>Every cluster up to the reported last one has a table entry and its data on the disk.\<close>

lemma max_cluster_number_bounds:
  assumes "max_cluster_number pf m = Ok mx" "2 \<le> c" "c \<le> mx"
  shows "4 * unat c + 4 \<le> fat_bytes_len m"
    and "m_data_start_byte m + unat (c - 2) * m_cluster_size m + m_cluster_size m \<le> length (m_disk m)"
    and "m_data_start_byte m < length (m_disk m)"
proof -
  define dc where "dc = (word_of_nat ((length (m_disk m) - m_data_start_byte m) div m_cluster_size m) :: u32)"
  define fe where "fe = (word_of_nat (fat_bytes_len m div 4) :: u32)"
  have start: "m_data_start_byte m < length (m_disk m)" and cs: "m_cluster_size m \<noteq> 0"
    and fe3: "\<not> fe < 3" and mx: "mx = min (2 + dc - 1) (fe - 1)"
    using assms(1) unfolding max_cluster_number_def Let_def dc_def [symmetric] fe_def [symmetric]
    by (auto simp: res_simps not_le dest!: arith_add_OkD arith_sub_OkD split: if_splits)
  show "m_data_start_byte m < length (m_disk m)" by (fact start)
  have c: "2 \<le> unat c" "unat c \<le> unat mx" using assms(2,3) by (simp_all add: word_le_nat_alt)
  have "unat fe \<le> fat_bytes_len m div 4" by (simp add: fe_def unat_of_nat)
  moreover have "3 \<le> unat fe" using fe3 by (simp add: word_less_nat_alt not_less)
  moreover have "unat mx \<le> unat (fe - 1)" using mx by (simp add: word_le_nat_alt [symmetric])
  moreover have "unat (fe - 1) = unat fe - 1"
    using unat_sub [of 1 fe] fe3 by (simp add: word_le_nat_alt word_less_nat_alt)
  ultimately show "4 * unat c + 4 \<le> fat_bytes_len m" using c by linarith
  have "2 + dc - 1 = dc + 1" by simp
  then have "mx \<le> dc + 1" using mx by (metis min.cobounded1)
  then have "unat mx \<le> unat (dc + 1)" by (simp add: word_le_nat_alt)
  also have "\<dots> \<le> unat dc + 1"
    using unat_word_ariths(1) [of dc 1] by simp
  also have "unat dc \<le> (length (m_disk m) - m_data_start_byte m) div m_cluster_size m"
    by (simp add: dc_def unat_of_nat)
  finally have "unat c - 1 \<le> (length (m_disk m) - m_data_start_byte m) div m_cluster_size m"
    using c by linarith
  then have "(unat c - 1) * m_cluster_size m
      \<le> (length (m_disk m) - m_data_start_byte m) div m_cluster_size m * m_cluster_size m"
    by (rule mult_le_mono1)
  also have "\<dots> \<le> length (m_disk m) - m_data_start_byte m" by simp
  finally have le: "(unat c - 1) * m_cluster_size m \<le> length (m_disk m) - m_data_start_byte m" .
  have "unat (c - 2) = unat c - 2" using assms(2) by (simp add: unat_sub)
  then have "(unat c - 1) * m_cluster_size m = unat (c - 2) * m_cluster_size m + m_cluster_size m"
    using c by (metis Suc_1 Suc_diff_Suc Suc_le_lessD add.commute diff_Suc_1 mult_Suc
        numeral_2_eq_2 One_nat_def)
  with le start show
    "m_data_start_byte m + unat (c - 2) * m_cluster_size m + m_cluster_size m \<le> length (m_disk m)"
    by linarith
qed

lemma max_cluster_has_entry:
  assumes "max_cluster_number pf m = Ok mx" "mounted m" "c \<in> set (clusters_upto mx)"
  shows "has_entry m c"
  using max_cluster_number_bounds [OF assms(1), of c] assms(2,3) mounted_num_fats [OF assms(2)]
  by (auto simp: set_clusters_upto has_entry_def)

subsection \<open>Allocating\<close>

lemma alloc_scan_spec:
  "(\<And>c. c \<in> set cls \<Longrightarrow> has_entry m c) \<Longrightarrow> length found < needed \<Longrightarrow>
     alloc_scan m needed cls found
       = Ok (found @ take (needed - length found) (filter (\<lambda>c. fat_val m c = 0) cls))"
proof (induction cls arbitrary: found)
  case (Cons c cls)
  have c: "m_read_fat_entry m c = Ok (fat_val m c)"
    using Cons.prems by (simp add: read_fat_entry_val)
  show ?case
  proof (cases "fat_val m c = 0 \<and> Suc (length found) < needed")
    case True
    then have "length found < needed" by simp
    then have "needed - length found = Suc (needed - Suc (length found))"
      by (rule Suc_diff_Suc [symmetric])
    with True c Cons.IH [of "found @ [c]"] Cons.prems show ?thesis by (simp add: Let_def)
  next
    case False
    with c Cons.IH [of found] Cons.prems show ?thesis
      by (cases "needed - length found") (auto simp: Let_def not_less)
  qed
qed simp

text \<open>The free clusters of a volume whose last cluster is \<open>mx\<close>, in the order of the scan.\<close>

definition free_clusters :: "fat32_mut \<Rightarrow> u32 \<Rightarrow> u32 list" where
  "free_clusters m mx = filter (\<lambda>c. fat_val m c = 0) (clusters_upto mx)"

lemma distinct_free_clusters [simp]: "distinct (free_clusters m mx)"
  by (simp add: free_clusters_def distinct_clusters_upto)

lemma free_clustersD:
  assumes "max_cluster_number pf m = Ok mx" "mounted m" "c \<in> set (free_clusters m mx)"
  shows "has_entry m c" "fat_val m c = 0" "2 \<le> c" "c \<le> mx"
  using assms max_cluster_has_entry [OF assms(1,2), of c]
  by (auto simp: free_clusters_def set_clusters_upto)

lemma alloc_chain_Ok:
  assumes mx: "max_cluster_number pf m = Ok mx" and m: "mounted m" and k: "0 < k"
    and room: "k \<le> length (free_clusters m mx)"
  shows "\<exists>m'. alloc_chain pf k m = (Ok (take k (free_clusters m mx)), m') \<and> fat_frame m m'
    \<and> linked (fat_val m') (take k (free_clusters m mx))
    \<and> (\<forall>c. has_entry m c \<longrightarrow> c \<notin> set (take k (free_clusters m mx)) \<longrightarrow> fat_val m' c = fat_val m c)"
proof -
  let ?cs = "take k (free_clusters m mx)"
  have scan: "alloc_scan m k (clusters_upto mx) [] = Ok ?cs"
    using alloc_scan_spec [of "clusters_upto mx" m "[]" k] max_cluster_has_entry [OF mx m] k
    by (simp add: free_clusters_def)
  have has: "has_entry m c" if "c \<in> set ?cs" for c
    using that free_clustersD(1) [OF mx m] by (auto dest: in_set_takeD)
  have "distinct ?cs" by simp
  with has obtain m' where m': "link_loop ?cs m = (Ok (), m')" "fat_frame m m'"
      "linked (fat_val m') ?cs"
      "\<forall>c. has_entry m c \<longrightarrow> c \<notin> set ?cs \<longrightarrow> fat_val m' c = fat_val m c"
    using fat.link_all [of ?cs m] by auto
  have "alloc_chain pf k m = (Ok ?cs, m')"
    using k mx scan room m'(1) by (simp add: alloc_chain_def)
  with m'(2-4) show ?thesis by blast
qed

lemma alloc_chain_full:
  assumes mx: "max_cluster_number pf m = Ok mx" and m: "mounted m"
    and room: "length (free_clusters m mx) < k"
  shows "alloc_chain pf k m = (Err NoSpaceLeft, m)"
proof -
  have "alloc_scan m k (clusters_upto mx) [] = Ok (take k (free_clusters m mx))"
    using alloc_scan_spec [of "clusters_upto mx" m "[]" k] max_cluster_has_entry [OF mx m] room
    by (simp add: free_clusters_def)
  with mx room show ?thesis by (simp add: alloc_chain_def)
qed

subsection \<open>Releasing\<close>

lemma m_follow_chain_path:
  assumes "fat_path (fat_val m) (c # cs)" "2 \<le> c" "\<And>d. d \<in> set (c # cs) \<Longrightarrow> has_entry m d"
  shows "m_follow_chain m c n = Ok (take n (c # cs))"
  using follow_chain_path [OF assms(1,2), of "as_read m" n] assms(3)
  by (simp add: read_fat_entry_val)

lemma free_chain_path:
  assumes "fat_path (fat_val m) (c # cs)" "2 \<le> c" "\<And>d. d \<in> set (c # cs) \<Longrightarrow> has_entry m d"
  shows "\<exists>m'. free_chain c m = (Ok (), m') \<and> fat_frame m m'
    \<and> (\<forall>d. has_entry m d \<longrightarrow>
         fat_val m' d = (if d \<in> set (take 4096 (c # cs)) then 0 else fat_val m d))"
proof -
  define ks where "ks = take 4096 (c # cs)"
  have follow: "m_follow_chain m c 4096 = Ok ks"
    by (simp only: ks_def m_follow_chain_path [OF assms])
  have "has_entry m d" if "d \<in> set ks" for d
    using that assms(3) unfolding ks_def by (blast dest: in_set_takeD)
  then obtain m' where m': "free_loop ks m = (Ok (), m')" "fat_frame m m'"
    "\<forall>d. has_entry m d \<longrightarrow> fat_val m' d = (if d \<in> set ks then 0 else fat_val m d)"
    using fat.clear_all [of ks m] by blast
  have "free_chain c m = (Ok (), m')"
    using follow m'(1) assms(2) by (simp add: free_chain_def not_less)
  with m'(2,3) show ?thesis unfolding ks_def by blast
qed

subsection \<open>The table of the test volume\<close>

lemma test_volume_entries:
  "fat_val test_volume 2 = 0x0FFFFFF8" "fat_val test_volume 3 = 0x0FFFFFF8"
  "fat_val test_volume 4 = 0x0FFFFFF8" "fat_val test_volume 5 = 0" "fat_val test_volume 6 = 0"
  "fat_val test_volume 7 = 0" "fat_val test_volume 8 = 0" "fat_val test_volume 9 = 0"
proof -
  have four: "replicate 4 (0 :: u8) = [0, 0, 0, 0]" by (simp add: numeral_eq_Suc)
  show "fat_val test_volume 2 = 0x0FFFFFF8" "fat_val test_volume 3 = 0x0FFFFFF8"
    "fat_val test_volume 4 = 0x0FFFFFF8" "fat_val test_volume 5 = 0" "fat_val test_volume 6 = 0"
    "fat_val test_volume 7 = 0" "fat_val test_volume 8 = 0" "fat_val test_volume 9 = 0"
    by (simp_all add: fat_val_def copy_val_def cell_def window_image image_eval patch_def four
        u32_from_le_def)
qed

lemma has_entry_test_volume: "has_entry test_volume c \<longleftrightarrow> unat c < 128"
  by (auto simp: has_entry_def)

lemma clusters_upto_9: "clusters_upto 9 = [2, 3, 4, 5, 6, 7, 8, 9]"
  by (simp add: clusters_upto_def upt_conv_Cons del: upt_Suc)

lemma free_clusters_test_volume: "free_clusters test_volume 9 = [5, 6, 7, 8, 9]"
  by (simp add: free_clusters_def clusters_upto_9 test_volume_entries)

lemma frame_has: "fat_frame m m' \<Longrightarrow> has_entry m' c = has_entry m c"
  by (rule fat_cell.frame_has)

lemma plain_below: "mx < 0x0FFFFFF8 \<Longrightarrow> 2 \<le> c \<Longrightarrow> c \<le> mx \<Longrightarrow> plain_cluster c"
  by (simp add: plain_cluster_def word_le_nat_alt word_less_nat_alt)

text \<open>An allocated chain is a chain of the new table, when the volume is no larger than FAT32 allows.\<close>

lemma alloc_chain_path:
  assumes "max_cluster_number pf m = Ok mx" "mounted m" "0 < k"
    and "k \<le> length (free_clusters m mx)" "mx < 0x0FFFFFF8"
  shows "\<exists>m'. alloc_chain pf k m = (Ok (take k (free_clusters m mx)), m') \<and> fat_frame m m'
    \<and> fat_path (fat_val m') (take k (free_clusters m mx))
    \<and> (\<forall>c. has_entry m c \<longrightarrow> c \<notin> set (take k (free_clusters m mx)) \<longrightarrow> fat_val m' c = fat_val m c)"
proof -
  let ?cs = "take k (free_clusters m mx)"
  obtain m' where m': "alloc_chain pf k m = (Ok ?cs, m')" "fat_frame m m'" "linked (fat_val m') ?cs"
    "\<forall>c. has_entry m c \<longrightarrow> c \<notin> set ?cs \<longrightarrow> fat_val m' c = fat_val m c"
    using alloc_chain_Ok [OF assms(1-4)] by blast
  have "list_all plain_cluster ?cs"
    using free_clustersD [OF assms(1,2)] assms(5)
    by (auto simp: list_all_iff intro!: plain_below dest!: in_set_takeD)
  moreover have "?cs \<noteq> []" using assms(3,4) by auto
  ultimately have "fat_path (fat_val m') ?cs" using m'(3) by (intro linked_fat_path)
  with m' show ?thesis by blast
qed

lemma alloc_chain_frame:
  assumes "mounted m" "alloc_chain pf k m = (r, m')"
  shows "fat_frame m m'"
proof (cases "max_cluster_number pf m")
  case (Ok mx)
  show ?thesis
  proof (cases "0 < k \<and> k \<le> length (free_clusters m mx)")
    case True
    then show ?thesis using alloc_chain_Ok [OF Ok assms(1), of k] assms(2) by auto
  next
    case False
    then have "m' = m"
      using alloc_chain_full [OF Ok assms(1), of k] assms(2)
      by (cases "k = 0") (auto simp: alloc_chain_def)
    then show ?thesis by (simp add: fat_cell.frame_refl)
  qed
qed (use assms in \<open>auto simp: alloc_chain_def fat_cell.frame_refl split: if_splits\<close>)

subsection \<open>Properties\<close>

text \<open>\<^verbatim>\<open>follow_chain\<close> returns a walk of the table: it starts at the given cluster, every step is
  the entry read for the cluster before, no cluster is below 2, at most \<open>n\<close> clusters are visited,
  and a walk shorter than the limit ended at an end-of-chain mark.\<close>

theorem follow_chain_walk:
  assumes "follow_chain fs c n = Ok cs"
  shows "length cs \<le> n \<and> (0 < n \<longrightarrow> cs \<noteq> [] \<and> hd cs = c) \<and> (\<forall>d\<in>set cs. 2 \<le> d)
    \<and> (\<forall>i. Suc i < length cs \<longrightarrow> read_fat_entry fs (cs ! i) = Ok (cs ! Suc i))
    \<and> (length cs < n \<longrightarrow> (\<exists>v. read_fat_entry fs (last cs) = Ok v \<and> 0x0FFFFFF8 \<le> v))"
  using follow_loop_sound [of fs n c "[]" cs] assms
  by (auto simp: follow_chain_def not_less split: if_splits)

lemma follow_test_root: "follow_chain (as_read test_volume) 2 4096 = Ok [2]"
proof -
  have "fat_path (fat_val test_volume) [2]" by (simp add: test_volume_entries)
  then show ?thesis
    using m_follow_chain_path [of test_volume 2 "[]" 4096] by (simp add: has_entry_test_volume)
qed

theorem follow_chain_walk_witness:
  "follow_chain (as_read test_volume) 2 4096 = Ok [2]
    \<and> (\<exists>v. read_fat_entry (as_read test_volume) (last [2]) = Ok v \<and> 0x0FFFFFF8 \<le> v)"
  using follow_chain_walk [OF follow_test_root] follow_test_root by simp

text \<open>\<^verbatim>\<open>follow_chain\<close> on a chain of the table returns its first \<open>n\<close> clusters: all of it when it is
  no longer than the limit, and otherwise a prefix, with no error.\<close>

theorem follow_chain_prefix:
  assumes "fat_path (fat_val m) (c # cs)" "2 \<le> c" "\<forall>d\<in>set (c # cs). has_entry m d"
  shows "follow_chain (as_read m) c n = Ok (take n (c # cs))"
  using m_follow_chain_path [of m c cs n] assms by simp

theorem follow_chain_prefix_witness:
  "fat_path (fat_val test_volume) [3] \<and> follow_chain (as_read test_volume) 3 4096 = Ok [3]"
  using follow_chain_prefix [of test_volume 3 "[]" 4096]
  by (simp add: test_volume_entries has_entry_test_volume)

text \<open>C8: \<^verbatim>\<open>alloc_chain\<close> takes the first \<open>k\<close> free clusters in ascending order and links them into a
  chain; every other entry of the table and every byte outside the tables is unchanged. With
  fewer than \<open>k\<close> free clusters it fails with \<open>NoSpaceLeft\<close> and leaves the disk untouched.\<close>

theorem alloc_chain_spec:
  assumes "max_cluster_number pf m = Ok mx" "mounted m" "0 < k" "mx < 0x0FFFFFF8"
  shows "if k \<le> length (free_clusters m mx)
    then \<exists>m'. alloc_chain pf k m = (Ok (take k (free_clusters m mx)), m') \<and> outside_fat m m'
      \<and> fat_path (fat_val m') (take k (free_clusters m mx))
      \<and> (\<forall>c. has_entry m c \<and> c \<notin> set (take k (free_clusters m mx)) \<longrightarrow> fat_val m' c = fat_val m c)
    else alloc_chain pf k m = (Err NoSpaceLeft, m)"
  using alloc_chain_path [OF assms(1,2,3) _ assms(4)] alloc_chain_full [OF assms(1,2), of k]
  by (auto dest: fat_frame_outside)

theorem alloc_chain_spec_witness:
  "\<exists>m'. alloc_chain Debug 2 test_volume = (Ok [5, 6], m') \<and> fat_path (fat_val m') [5, 6]"
  using alloc_chain_spec [of Debug test_volume 9 2]
  by (auto simp: free_clusters_test_volume)



text \<open>Releasing a chain right after allocating it (of at most 4096 clusters) restores the table.\<close>

theorem alloc_free_roundtrip:
  assumes "max_cluster_number pf m = Ok mx" "mounted m" "0 < k" "k \<le> 4096" "mx < 0x0FFFFFF8"
    and "alloc_chain pf k m = (Ok (c # cs), m1)"
  shows "\<exists>m2. free_chain c m1 = (Ok (), m2) \<and> (\<forall>d. has_entry m d \<longrightarrow> fat_val m2 d = fat_val m d)"
proof -
  let ?ks = "take k (free_clusters m mx)"
  have room: "k \<le> length (free_clusters m mx)"
    using alloc_chain_full [OF assms(1,2), of k] assms(6) by (cases "k \<le> length (free_clusters m mx)") auto
  obtain m' where m': "alloc_chain pf k m = (Ok ?ks, m')" "fat_frame m m'" "fat_path (fat_val m') ?ks"
    "\<forall>c. has_entry m c \<longrightarrow> c \<notin> set ?ks \<longrightarrow> fat_val m' c = fat_val m c"
    using alloc_chain_path [OF assms(1,2,3) room assms(5)] by blast
  have ks: "?ks = c # cs" and m1: "m1 = m'" using m'(1) assms(6) by auto
  have free: "has_entry m d \<and> fat_val m d = 0 \<and> 2 \<le> d" if "d \<in> set (c # cs)" for d
    using that free_clustersD [OF assms(1,2), of d] unfolding ks [symmetric] by (auto dest: in_set_takeD)
  have "length (c # cs) \<le> 4096"
    using assms(4) unfolding ks [symmetric] by simp
  then have all: "take 4096 (c # cs) = c # cs" by (rule take_all)
  have "\<exists>m2. free_chain c m1 = (Ok (), m2) \<and> fat_frame m1 m2 \<and>
      (\<forall>d. has_entry m1 d \<longrightarrow> fat_val m2 d = (if d \<in> set (c # cs) then 0 else fat_val m1 d))"
    using free_chain_path [of m1 c cs] m'(3) free frame_has [OF m'(2)] unfolding ks m1 all by simp
  then show ?thesis
    using m'(4) free frame_has [OF m'(2)] unfolding ks m1 by auto
qed

theorem alloc_free_roundtrip_witness:
  "\<exists>m1 m2. alloc_chain Debug 2 test_volume = (Ok [5, 6], m1) \<and> free_chain 5 m1 = (Ok (), m2)
    \<and> fat_val m2 5 = 0 \<and> fat_val m2 6 = 0"
proof -
  obtain m1 where m1: "alloc_chain Debug 2 test_volume = (Ok [5, 6], m1)"
    using alloc_chain_path [of Debug test_volume 9 2] by (auto simp: free_clusters_test_volume)
  have "\<exists>m2. free_chain 5 m1 = (Ok (), m2)
      \<and> (\<forall>d. has_entry test_volume d \<longrightarrow> fat_val m2 d = fat_val test_volume d)"
    using alloc_free_roundtrip [OF _ _ _ _ _ m1, of 9] by simp
  with m1 show ?thesis by (auto simp: has_entry_test_volume test_volume_entries)
qed

text \<open>The copies of the table stay equal: whatever \<^verbatim>\<open>alloc_chain\<close> returns, if every copy agreed with
  the first before, every copy does after, and no byte outside the tables has changed.\<close>

theorem alloc_chain_mirrors:
  assumes "mounted m" "mirrored m" "alloc_chain pf k m = (r, m')"
  shows "mirrored m' \<and> outside_fat m m'"
  using alloc_chain_frame [OF assms(1,3)] assms(2) by (simp add: fat_frame_def)

theorem alloc_chain_mirrors_witness:
  "mirrored test_volume \<and> mirrored (snd (alloc_chain Release 3 test_volume))"
proof -
  have "mirrored test_volume" by (simp add: mirrored_def fat_val_def)
  then show ?thesis
    using alloc_chain_mirrors [of test_volume Release 3] by (cases "alloc_chain Release 3 test_volume") auto
qed

text \<open>C16: Every cluster from 2 to the number \<^verbatim>\<open>max_cluster_number\<close> returns has an entry inside the first
  table and its whole data on the disk, in both build profiles.\<close>

theorem max_cluster_number_sound:
  assumes "max_cluster_number pf m = Ok mx" "2 \<le> c" "c \<le> mx"
  shows "m_fat_start_byte m + 4 * unat c + 4 \<le> m_fat_start_byte m + fat_bytes_len m
    \<and> (\<exists>off. m_cluster_to_offset m c = Ok off \<and> m_data_start_byte m \<le> off
         \<and> off + m_cluster_size m \<le> length (m_disk m))"
proof -
  note b = max_cluster_number_bounds [OF assms]
  have "m_cluster_size m \<noteq> 0"
    using assms(1) by (auto simp: max_cluster_number_def Let_def split: if_splits)
  with b assms(2) show ?thesis by (simp add: m_cluster_to_offset_def Let_def not_less not_le)
qed

theorem max_cluster_number_sound_witness:
  "max_cluster_number Debug test_volume = Ok 9 \<and> m_cluster_to_offset test_volume 9 = Ok 4608
    \<and> 4608 + m_cluster_size test_volume \<le> length (m_disk test_volume)"
  using max_cluster_number_sound [of Debug test_volume 9 9]
  by (simp add: m_cluster_to_offset_def)

text \<open>The read-write view's own copies of the table readers agree with those of the read-only view
  it hands out.\<close>

theorem views_agree:
  "read_fat_entry (as_read m) c = m_read_fat_entry m c
    \<and> follow_chain (as_read m) c n = m_follow_chain m c n
    \<and> cluster_to_offset (as_read m) c = m_cluster_to_offset m c
    \<and> data_start_byte (as_read m) = m_data_start_byte m
    \<and> cluster_size (as_read m) = m_cluster_size m"
  by simp

end
