(* ===== verification/Reader.thy ===== *)
theory Reader
  imports Names Fat_Alloc
begin

text \<open>
  The read side of the driver, \<^verbatim>\<open>impl Fat32\<close> of \<^verbatim>\<open>fat32/src/lib.rs\<close>: reading a cluster, listing a
  directory, resolving a path and reading a file. The lemmas describe a listing by the 32-byte slots
  of the directory and a file's content by the bytes of its clusters.
\<close>

subsection \<open>The operations\<close>

definition read_cluster :: "fat32 \<Rightarrow> u32 \<Rightarrow> u8 list fres" where
  "read_cluster fs cluster =
     rbind (cluster_to_offset fs cluster) (\<lambda>offset.
       let sz = cluster_size fs in
       if length (disk fs) < offset + sz then Err OutOfBounds
       else get_slice (disk fs) offset (offset + sz))"

text \<open>The inner loop of \<^verbatim>\<open>list_dir_cluster\<close>: the entries so far, and whether the end was seen.\<close>

fun scan_chunks :: "u8 list list \<Rightarrow> dir_entry list \<Rightarrow> dir_entry list \<times> bool" where
  "scan_chunks [] entries = (entries, False)"
| "scan_chunks (chunk # rest) entries =
     (if length chunk < 32 then (entries, False)
      else if chunk ! 0 = 0x00 then (entries, True)
      else scan_chunks rest
        (case parse chunk of Some e \<Rightarrow> entries @ [e] | None \<Rightarrow> entries))"

fun list_loop :: "fat32 \<Rightarrow> u32 list \<Rightarrow> dir_entry list \<Rightarrow> bool \<Rightarrow> dir_entry list fres" where
  "list_loop fs [] entries end_seen = Ok entries"
| "list_loop fs (cl # cls) entries end_seen =
     (if end_seen then Ok entries
      else rbind (read_cluster fs cl) (\<lambda>data.
        let (entries, end_seen) = scan_chunks (chunks 32 data) entries
        in list_loop fs cls entries end_seen))"

definition list_dir_cluster :: "fat32 \<Rightarrow> u32 \<Rightarrow> dir_entry list fres" where
  "list_dir_cluster fs start_cluster =
     rbind (follow_chain fs start_cluster 4096) (\<lambda>chain. list_loop fs chain [] False)"

definition list_root :: "fat32 \<Rightarrow> dir_entry list fres" where
  "list_root fs = list_dir_cluster fs (root_cluster fs)"

text \<open>The loop over the components of a path that are left, from \<open>current_cluster\<close>.\<close>

fun open_loop :: "fat32 \<Rightarrow> rstr list \<Rightarrow> u32 \<Rightarrow> dir_entry option \<Rightarrow> dir_entry option fres" where
  "open_loop fs [] current_cluster last_entry = Ok last_entry"
| "open_loop fs (part # parts) current_cluster last_entry =
     (let target = normalize_name part in
      rbind (list_dir_cluster fs current_cluster) (\<lambda>entries.
        case find (\<lambda>e. normalize_name (e_name e) = target) entries of
          Some e \<Rightarrow> open_loop fs parts (e_first_cluster e) (Some e)
        | None \<Rightarrow> Ok None))"

definition open_path :: "fat32 \<Rightarrow> rstr \<Rightarrow> dir_entry option fres" where
  "open_path fs path =
     (if \<not> starts_with slash path then Err Other
      else if path = [slash] then Ok None
      else open_loop fs (filter (\<lambda>s. s \<noteq> []) (split_on slash path)) (root_cluster fs) None)"

definition list_dir_path :: "fat32 \<Rightarrow> rstr \<Rightarrow> dir_entry list fres" where
  "list_dir_path fs path =
     (if path = [slash] then list_root fs
      else rbind (rbind (open_path fs path) (\<lambda>found. ok_or found PathNotFound)) (\<lambda>entry.
        if \<not> is_dir entry then Err NotADirectory
        else list_dir_cluster fs (e_first_cluster entry)))"

text \<open>The loop over the clusters of a file, with \<open>remaining\<close> bytes still to copy.\<close>

fun read_loop :: "fat32 \<Rightarrow> u32 list \<Rightarrow> nat \<Rightarrow> nat \<Rightarrow> u8 list \<Rightarrow> u8 list fres" where
  "read_loop fs [] cs remaining out = Ok out"
| "read_loop fs (cl # cls) cs remaining out =
     rbind (read_cluster fs cl) (\<lambda>cluster.
       let tk = min remaining cs in
       rbind (get_slice cluster 0 tk) (\<lambda>piece.
         let out = out @ piece; remaining = remaining - tk
         in if remaining = 0 then Ok out else read_loop fs cls cs remaining out))"

definition read_file :: "fat32 \<Rightarrow> dir_entry \<Rightarrow> u8 list fres" where
  "read_file fs entry =
     (if \<not> is_file entry then Err NotAFile
      else
        let remaining = unat (e_size entry) in
        if remaining = 0 then Ok []
        else if e_first_cluster entry < 2 then Err InvalidCluster
        else rbind (follow_chain fs (e_first_cluster entry) 4096) (\<lambda>chain.
          read_loop fs chain (cluster_size fs) remaining []))"

definition read_file_by_path :: "fat32 \<Rightarrow> rstr \<Rightarrow> u8 list option fres" where
  "read_file_by_path fs path =
     rbind (open_path fs path) (\<lambda>found.
       case found of
         None \<Rightarrow> Ok None
       | Some entry \<Rightarrow>
           if \<not> is_file entry then Err NotAFile
           else rbind (read_file fs entry) (\<lambda>bs. Ok (Some bs)))"

subsection \<open>Clusters as windows of the disk\<close>

definition cluster_bytes :: "fat32 \<Rightarrow> u32 \<Rightarrow> u8 list" where
  "cluster_bytes fs c =
     window (disk fs) (data_start_byte fs + unat (c - 2) * cluster_size fs) (cluster_size fs)"

definition in_data :: "fat32 \<Rightarrow> u32 \<Rightarrow> bool" where
  "in_data fs c \<longleftrightarrow> 2 \<le> c \<and> 0 < cluster_size fs \<and>
     data_start_byte fs + unat (c - 2) * cluster_size fs + cluster_size fs \<le> length (disk fs)"

lemma length_cluster_bytes: "in_data fs c \<Longrightarrow> length (cluster_bytes fs c) = cluster_size fs"
  unfolding in_data_def cluster_bytes_def length_window by linarith

lemma read_cluster_in_data: "in_data fs c \<Longrightarrow> read_cluster fs c = Ok (cluster_bytes fs c)"
  by (simp add: in_data_def read_cluster_def cluster_to_offset_def cluster_bytes_def get_slice_def
      Let_def not_le not_less)

lemma read_cluster_length: "read_cluster fs c = Ok d \<Longrightarrow> length d = cluster_size fs"
  by (auto simp: read_cluster_def get_slice_def Let_def res_simps split: if_splits)

lemma cluster_to_offset_no_Panic [simp]: "cluster_to_offset fs c \<noteq> Panic"
  by (simp add: cluster_to_offset_def Let_def)

lemma read_cluster_no_Panic [simp]: "read_cluster fs c \<noteq> Panic"
  by (auto simp: read_cluster_def get_slice_def Let_def res_simps)

subsection \<open>No read operation panics\<close>

lemma list_loop_no_Panic [simp]: "list_loop fs cls es b \<noteq> Panic"
  by (induction cls arbitrary: es b) (auto simp: res_simps split: prod.splits)

lemma list_dir_cluster_no_Panic [simp]: "list_dir_cluster fs c \<noteq> Panic"
  by (simp add: list_dir_cluster_def res_simps)

lemma open_loop_no_Panic [simp]: "open_loop fs parts c e \<noteq> Panic"
  by (induction parts arbitrary: c e) (auto simp: Let_def res_simps split: option.splits)

lemma open_path_no_Panic [simp]: "open_path fs p \<noteq> Panic"
  by (simp add: open_path_def)

lemma read_loop_no_Panic:
  "cs = cluster_size fs \<Longrightarrow> read_loop fs cls cs r out \<noteq> Panic"
proof (induction cls arbitrary: r out)
  case (Cons cl cls)
  show ?case
  proof (cases "read_cluster fs cl")
    case (Ok d)
    then have "length d = cs" using Cons.prems by (simp add: read_cluster_length)
    then have "get_slice d 0 (min r cs) = (Ok (window d 0 (min r cs)) :: u8 list fres)"
      by (simp add: get_slice_def)
    with Ok Cons show ?thesis by (simp add: Let_def)
  qed auto
qed simp

lemma read_file_no_Panic [simp]: "read_file fs e \<noteq> Panic"
  by (auto simp: read_file_def Let_def res_simps read_loop_no_Panic)

subsection \<open>Listings\<close>

definition live :: "u8 list \<Rightarrow> bool" where
  "live c \<longleftrightarrow> c ! 0 \<noteq> 0"

text \<open>The slots of a directory whose clusters are \<open>cls\<close>, and the entries a listing of them shows.\<close>

definition dir_slots :: "fat32 \<Rightarrow> u32 list \<Rightarrow> u8 list list" where
  "dir_slots fs cls = concat (map (\<lambda>c. full_chunks 32 (cluster_bytes fs c)) cls)"

definition listing :: "u8 list list \<Rightarrow> dir_entry list" where
  "listing slots = List.map_filter parse (takeWhile live slots)"

lemma map_filter_append [simp]:
  "List.map_filter f (xs @ ys) = List.map_filter f xs @ List.map_filter f ys"
  by (simp add: List.map_filter_def)

lemma scan_chunks_spec:
  "(\<And>c. c \<in> set full \<Longrightarrow> length c = 32) \<Longrightarrow> (\<And>c. c \<in> set rest \<Longrightarrow> length c < 32) \<Longrightarrow>
     scan_chunks (full @ rest) entries = (entries @ listing full, \<exists>c\<in>set full. \<not> live c)"
proof (induction full arbitrary: entries)
  case Nil
  then show ?case by (cases rest) (simp_all add: listing_def List.map_filter_def)
next
  case (Cons c full)
  show ?case
    using Cons.prems Cons.IH
    by (auto simp: listing_def live_def List.map_filter_simps split: option.splits)
qed

lemma scan_cluster:
  "scan_chunks (chunks 32 d) entries
     = (entries @ listing (full_chunks 32 d), \<exists>c\<in>set (full_chunks 32 d). \<not> live c)"
proof -
  obtain r where "chunks 32 d = full_chunks 32 d @ r" "\<forall>c\<in>set r. length c < 32"
    using chunks_full [of 32 d] by auto
  moreover have "\<And>c. c \<in> set (full_chunks 32 d) \<Longrightarrow> length c = 32"
    by (rule length_of_full_chunk)
  ultimately show ?thesis by (simp add: scan_chunks_spec)
qed

lemma listing_append:
  "listing (xs @ ys) = (if \<exists>c\<in>set xs. \<not> live c then listing xs else listing xs @ listing ys)"
proof (cases "\<exists>c\<in>set xs. \<not> live c")
  case False
  then have "takeWhile live xs = xs" by (simp add: takeWhile_eq_all_conv)
  then have "listing xs = List.map_filter parse xs" by (simp only: listing_def)
  with False show ?thesis by (simp add: listing_def takeWhile_append)
qed (auto simp: listing_def takeWhile_append1)

lemma list_loop_end [simp]: "list_loop fs cls entries True = Ok entries"
  by (cases cls) auto

lemma list_loop_spec:
  "(\<And>c. c \<in> set cls \<Longrightarrow> in_data fs c) \<Longrightarrow>
     list_loop fs cls entries False = Ok (entries @ listing (dir_slots fs cls))"
proof (induction cls arbitrary: entries)
  case Nil
  then show ?case by (simp add: dir_slots_def listing_def List.map_filter_def)
next
  case (Cons c cls)
  have "read_cluster fs c = Ok (cluster_bytes fs c)"
    using Cons.prems by (simp add: read_cluster_in_data)
  then show ?case
    using Cons by (auto simp: scan_cluster dir_slots_def listing_append)
qed

lemma list_dir_cluster_spec:
  "follow_chain fs c 4096 = Ok cls \<Longrightarrow> (\<And>c. c \<in> set cls \<Longrightarrow> in_data fs c) \<Longrightarrow>
     list_dir_cluster fs c = Ok (listing (dir_slots fs cls))"
  by (simp add: list_dir_cluster_def list_loop_spec)

subsection \<open>File contents\<close>

definition chain_bytes :: "fat32 \<Rightarrow> u32 list \<Rightarrow> u8 list" where
  "chain_bytes fs cls = concat (map (cluster_bytes fs) cls)"

lemma length_chain_bytes:
  "(\<And>c. c \<in> set cls \<Longrightarrow> in_data fs c) \<Longrightarrow>
     length (chain_bytes fs cls) = length cls * cluster_size fs"
  by (induction cls) (simp_all add: chain_bytes_def length_cluster_bytes)

lemma read_loop_spec:
  "(\<And>c. c \<in> set cls \<Longrightarrow> in_data fs c) \<Longrightarrow> 0 < r \<Longrightarrow>
     read_loop fs cls (cluster_size fs) r out = Ok (out @ take r (chain_bytes fs cls))"
proof (induction cls arbitrary: r out)
  case Nil
  then show ?case by (simp add: chain_bytes_def)
next
  case (Cons c cls)
  let ?cs = "cluster_size fs" and ?d = "cluster_bytes fs c"
  have c: "in_data fs c" using Cons.prems by simp
  note len = length_cluster_bytes [OF c]
  have slice: "get_slice ?d 0 (min r ?cs) = (Ok (take (min r ?cs) ?d) :: u8 list fres)"
    using len by (simp add: get_slice_def window_def)
  show ?case
  proof (cases "r \<le> ?cs")
    case True
    then show ?thesis
      using slice len by (simp add: read_cluster_in_data [OF c] Let_def chain_bytes_def min_def)
  next
    case False
    then show ?thesis
      using slice len Cons.IH [of "r - ?cs" "out @ ?d"] Cons.prems
      by (simp add: read_cluster_in_data [OF c] Let_def chain_bytes_def min_def)
  qed
qed

lemma read_file_spec:
  assumes "is_file e" "0 < unat (e_size e)" "2 \<le> e_first_cluster e"
    and "follow_chain fs (e_first_cluster e) 4096 = Ok cls"
    and "\<And>c. c \<in> set cls \<Longrightarrow> in_data fs c"
  shows "read_file fs e = Ok (take (unat (e_size e)) (chain_bytes fs cls))"
  using assms read_loop_spec [of cls fs "unat (e_size e)" "[]"]
  by (simp add: read_file_def Let_def not_less)

subsection \<open>Paths\<close>

text \<open>\<^verbatim>\<open>open_path\<close> sees a path only through its components, up to case.\<close>

lemma open_path_loop:
  assumes "starts_with slash p"
  shows "open_path fs p = open_loop fs (components p) (root_cluster fs) None"
proof (cases "p = [slash]")
  case True
  have "components [slash] = []" using components_append [of "[]" "[]"] by simp
  with True assms show ?thesis by (simp add: open_path_def)
next
  case False
  with assms show ?thesis by (simp add: open_path_def components_def)
qed

lemma open_loop_normalize:
  "map normalize_name ps = map normalize_name qs \<Longrightarrow> open_loop fs ps c found = open_loop fs qs c found"
proof (induction ps arbitrary: qs c found)
  case (Cons p ps)
  then obtain q qs' where "qs = q # qs'" "normalize_name q = normalize_name p"
    "map normalize_name ps = map normalize_name qs'"
    by (cases qs) auto
  with Cons.IH show ?case by (auto simp: Let_def cong: option.case_cong)
qed simp

text \<open>The directories a walk over \<open>parts\<close> lists, from cluster \<open>c\<close> on.\<close>

fun walk :: "fat32 \<Rightarrow> rstr list \<Rightarrow> u32 \<Rightarrow> u32 list" where
  "walk fs [] c = []"
| "walk fs (part # parts) c =
     c # (case list_dir_cluster fs c of
            Ok entries \<Rightarrow>
              (case find (\<lambda>e. normalize_name (e_name e) = normalize_name part) entries of
                 Some e \<Rightarrow> walk fs parts (e_first_cluster e)
               | None \<Rightarrow> [])
          | _ \<Rightarrow> [])"

lemma open_loop_same:
  "(\<And>d. d \<in> set (walk fs parts c) \<Longrightarrow> list_dir_cluster fs' d = list_dir_cluster fs d) \<Longrightarrow>
     open_loop fs' parts c found = open_loop fs parts c found"
proof (induction parts arbitrary: c found)
  case (Cons p parts)
  have "list_dir_cluster fs' c = list_dir_cluster fs c" using Cons.prems by simp
  with Cons show ?case
    by (cases "list_dir_cluster fs c") (auto simp: Let_def split: option.splits)
qed simp

lemma open_loop_snoc:
  "open_loop fs parts c found = Ok (Some en) \<Longrightarrow> parts \<noteq> [] \<Longrightarrow>
     open_loop fs (parts @ [nm]) c found = open_loop fs [nm] (e_first_cluster en) (Some en)"
proof (induction parts arbitrary: c found)
  case (Cons p parts)
  show ?case
  proof (cases "parts = []")
    case True
    with Cons.prems show ?thesis by (auto simp: Let_def res_simps split: option.splits)
  next
    case False
    with Cons show ?thesis by (auto simp: Let_def res_simps split: option.splits)
  qed
qed simp

lemma read_by_path_no_Panic [simp]: "read_file_by_path fs p \<noteq> Panic"
  by (auto simp: read_file_by_path_def res_simps split: option.splits)

lemma list_dir_path_no_Panic [simp]: "list_dir_path fs p \<noteq> Panic"
  by (auto simp: list_dir_path_def list_root_def res_simps)

subsection \<open>Properties\<close>

text \<open>C18: No operation of the read-only view panics, on any buffer, consistent or not: mounting it,
  listing, resolving a path and reading a file each return a value or an error.\<close>

theorem reads_never_panic:
  "fat32_new dsk \<noteq> Panic \<and> list_root fs \<noteq> Panic \<and> list_dir_path fs p \<noteq> Panic
    \<and> open_path fs p \<noteq> Panic \<and> read_file fs en \<noteq> Panic \<and> read_file_by_path fs p \<noteq> Panic"
  by (simp add: list_root_def fat32_new_def res_simps)

text \<open>Resolving a path depends only on its non-empty components, and on those only up to the case
  of ASCII letters: repeated or trailing slashes and lower case make no difference.\<close>

theorem open_path_components:
  assumes "starts_with slash p" "starts_with slash q"
    and "map normalize_name (components p) = map normalize_name (components q)"
  shows "open_path fs p = open_path fs q"
  using open_loop_normalize [OF assms(3)] by (simp add: open_path_loop assms(1,2))

theorem open_path_components_witness:
  "open_path (as_read test_volume) (bytes ''//dir/note.txt/'')
    = open_path (as_read test_volume) (bytes ''/DIR/NOTE.TXT'')"
  by (rule open_path_components) code_simp+

end
