(* ===== verification/Writer.thy ===== *)
theory Writer
  imports Reader
begin

text \<open>
  The write side of the driver, \<^verbatim>\<open>impl Fat32Mut\<close> of \<^verbatim>\<open>fat32/src/lib.rs\<close>: writing the data of a chain,
  searching a directory, writing an entry, and \<^verbatim>\<open>write_file_by_path\<close> composed of them. This theory
  has the definitions and what holds of them on every input: they keep the shape of the volume and,
  on a mounted volume, panic in no build but for one overflow.
\<close>

subsection \<open>Data clusters\<close>

text \<open>\<^verbatim>\<open>for b in &mut self.disk[a..b] { *b = 0; }\<close>.\<close>

definition zero_fill :: "nat \<Rightarrow> nat \<Rightarrow> (fat32_mut, fat_error, unit) prog" where
  "zero_fill a b = (\<lambda>m.
     if a \<le> b \<and> b \<le> length (m_disk m) then put_bytes a (replicate (b - a) 0) m else (Panic, m))"

fun data_loop :: "u32 list \<Rightarrow> u8 list \<Rightarrow> nat \<Rightarrow> nat \<Rightarrow> (fat32_mut, fat_error, unit) prog" where
  "data_loop [] content cs pos = sret ()"
| "data_loop (cl # cls) content cs pos =
     sbind (sget (\<lambda>m. m_cluster_to_offset m cl)) (\<lambda>off.
     sbind (sget (\<lambda>m. if length (m_disk m) < off + cs then Err OutOfBounds else Ok ())) (\<lambda>_.
       let ende = min (pos + cs) (length content) in
       sbind (sget (\<lambda>_. get_slice content pos ende)) (\<lambda>chunk.
       sbind (put_bytes off chunk) (\<lambda>_.
       sbind (zero_fill (off + length chunk) (off + cs)) (\<lambda>_.
         if length content \<le> ende then sret () else data_loop cls content cs ende)))))"

definition write_chain_data :: "u32 list \<Rightarrow> u8 list \<Rightarrow> (fat32_mut, fat_error, unit) prog" where
  "write_chain_data chain content = (\<lambda>m. data_loop chain content (m_cluster_size m) 0 m)"

subsection \<open>Searching a directory\<close>

text \<open>
  One cluster of the search, from chunk \<open>i\<close> on: \<open>None\<close> when the loop falls through to the next
  cluster, \<open>Some r\<close> when the function returns \<open>r\<close>.
\<close>

fun find_chunks ::
  "nat \<Rightarrow> nat \<Rightarrow> u8 list list \<Rightarrow> u8 list \<Rightarrow> u8 list \<Rightarrow> (nat option \<times> dir_entry option) option" where
  "find_chunks off i [] name_raw ext_raw = None"
| "find_chunks off i (chunk # rest) name_raw ext_raw =
     (if length chunk < 32 then None
      else if chunk ! 0 = 0x00 then Some (None, None)
      else if chunk ! 0 = 0xE5 then find_chunks off (Suc i) rest name_raw ext_raw
      else if window chunk 0 8 = name_raw \<and> window chunk 8 3 = ext_raw
        then Some (Some (off + i * 32), parse chunk)
      else find_chunks off (Suc i) rest name_raw ext_raw)"

fun find_entry_loop ::
  "fat32_mut \<Rightarrow> u32 list \<Rightarrow> u8 list \<Rightarrow> u8 list \<Rightarrow> (nat option \<times> dir_entry option) fres" where
  "find_entry_loop m [] name_raw ext_raw = Ok (None, None)"
| "find_entry_loop m (cl # cls) name_raw ext_raw =
     rbind (m_cluster_to_offset m cl) (\<lambda>off.
       let cs = m_cluster_size m in
       if length (m_disk m) < off + cs then Err OutOfBounds
       else rbind (get_slice (m_disk m) off (off + cs)) (\<lambda>data.
         case find_chunks off 0 (chunks 32 data) name_raw ext_raw of
           Some r \<Rightarrow> Ok r
         | None \<Rightarrow> find_entry_loop m cls name_raw ext_raw))"

definition find_dir_entry_offset_by_short_name ::
  "fat32_mut \<Rightarrow> u32 \<Rightarrow> u8 list \<Rightarrow> u8 list \<Rightarrow> (nat option \<times> dir_entry option) fres" where
  "find_dir_entry_offset_by_short_name m dir_cluster name_raw ext_raw =
     rbind (m_follow_chain m dir_cluster 4096) (\<lambda>chain. find_entry_loop m chain name_raw ext_raw)"

fun free_slot_chunks :: "nat \<Rightarrow> nat \<Rightarrow> nat \<Rightarrow> u8 list list \<Rightarrow> (nat \<times> bool \<times> nat) option" where
  "free_slot_chunks off cluster_end i [] = None"
| "free_slot_chunks off cluster_end i (chunk # rest) =
     (if length chunk < 32 then None
      else if chunk ! 0 = 0x00 then Some (off + i * 32, True, cluster_end)
      else if chunk ! 0 = 0xE5 then Some (off + i * 32, False, cluster_end)
      else free_slot_chunks off cluster_end (Suc i) rest)"

fun free_slot_loop :: "fat32_mut \<Rightarrow> u32 list \<Rightarrow> (nat \<times> bool \<times> nat) fres" where
  "free_slot_loop m [] = Err NoSpaceLeft"
| "free_slot_loop m (cl # cls) =
     rbind (m_cluster_to_offset m cl) (\<lambda>off.
       let cs = m_cluster_size m; cluster_end = off + cs in
       if length (m_disk m) < cluster_end then Err OutOfBounds
       else rbind (get_slice (m_disk m) off cluster_end) (\<lambda>data.
         case free_slot_chunks off cluster_end 0 (chunks 32 data) of
           Some r \<Rightarrow> Ok r
         | None \<Rightarrow> free_slot_loop m cls))"

definition find_free_dir_entry_slot :: "fat32_mut \<Rightarrow> u32 \<Rightarrow> (nat \<times> bool \<times> nat) fres" where
  "find_free_dir_entry_slot m dir_cluster =
     rbind (m_follow_chain m dir_cluster 4096) (\<lambda>chain. free_slot_loop m chain)"

subsection \<open>Writing an entry\<close>

text \<open>The 32 bytes of the entry, assigned field by field over what the slot held.\<close>

definition fill_entry :: "u8 list \<Rightarrow> u8 list \<Rightarrow> u8 list \<Rightarrow> u32 \<Rightarrow> u32 \<Rightarrow> u8 list" where
  "fill_entry e0 name_raw ext_raw cluster sz =
     (let hi = u16_to_le (ucast (drop_bit 16 cluster));
          lo = u16_to_le (ucast (cluster AND 0xFFFF));
          size_bytes = u32_to_le sz;
          e1 = patch e0 0 name_raw;
          e2 = patch e1 8 ext_raw;
          e3 = e2[11 := 0x20];
          e4 = patch e3 12 (replicate 8 0);
          e5 = e4[20 := hi ! 0];
          e6 = e5[21 := hi ! 1];
          e7 = patch e6 22 (replicate 4 0);
          e8 = e7[26 := lo ! 0];
          e9 = e8[27 := lo ! 1]
      in patch e9 28 size_bytes)"

definition write_dir_entry_at_offset ::
  "nat \<Rightarrow> u8 list \<Rightarrow> u8 list \<Rightarrow> u32 \<Rightarrow> u32 \<Rightarrow> (fat32_mut, fat_error, unit) prog" where
  "write_dir_entry_at_offset offset name_raw ext_raw cluster sz = (\<lambda>m.
     if length (m_disk m) < offset + 32 then (Err OutOfBounds, m)
     else put_bytes offset (fill_entry (window (m_disk m) offset 32) name_raw ext_raw cluster sz) m)"

subsection \<open>Writing a file\<close>

text \<open>The cluster of the directory the file goes into.\<close>

definition parent_cluster :: "rstr \<Rightarrow> fat32_mut \<Rightarrow> u32 fres" where
  "parent_cluster parent_path m =
     (if parent_path = [slash] then Ok (m_root_cluster m)
      else rbind (rbind (open_path (as_read m) parent_path) (\<lambda>found. ok_or found PathNotFound))
        (\<lambda>entry. if \<not> is_dir entry then Err NotADirectory else Ok (e_first_cluster entry)))"

text \<open>Overwriting: the old chain is released first.\<close>

definition release_existing :: "dir_entry option \<Rightarrow> (fat32_mut, fat_error, unit) prog" where
  "release_existing existing_entry =
     (case existing_entry of
        None \<Rightarrow> sret ()
      | Some e \<Rightarrow>
          if is_dir e then sfail NotAFile
          else if 2 \<le> e_first_cluster e then free_chain (e_first_cluster e)
          else sret ())"

text \<open>The clusters of the new content; the result is the first of them, 0 for an empty file.\<close>

definition store_content :: "profile \<Rightarrow> u8 list \<Rightarrow> (fat32_mut, fat_error, u32) prog" where
  "store_content pf content =
     (if content = [] then sret 0
      else (\<lambda>m.
        let needed = div_ceil (length content) (m_cluster_size m) in
        sbind (alloc_chain pf needed) (\<lambda>chain.
        sbind (write_chain_data chain content) (\<lambda>_.
        sget (\<lambda>_. case chain of [] \<Rightarrow> Panic | c # _ \<Rightarrow> Ok c))) m))"

text \<open>The entry itself, over the old one or in a free slot of the directory.\<close>

definition update_entry ::
  "u32 \<Rightarrow> nat option \<Rightarrow> u8 list \<Rightarrow> u8 list \<Rightarrow> u32 \<Rightarrow> u32 \<Rightarrow> (fat32_mut, fat_error, unit) prog" where
  "update_entry dir existing_off name_raw ext_raw cluster sz =
     (case existing_off of
        Some off \<Rightarrow> write_dir_entry_at_offset off name_raw ext_raw cluster sz
      | None \<Rightarrow>
          sbind (sget (\<lambda>m. find_free_dir_entry_slot m dir)) (\<lambda>(free_off, was_end_marker, entry_end).
          sbind (write_dir_entry_at_offset free_off name_raw ext_raw cluster sz) (\<lambda>_.
            if was_end_marker then
              (let nxt = free_off + 32
               in if nxt < entry_end then put_bytes nxt [0x00] else sret ())
            else sret ())))"

definition write_file_by_path ::
  "profile \<Rightarrow> rstr \<Rightarrow> u8 list \<Rightarrow> (fat32_mut, fat_error, unit) prog" where
  "write_file_by_path pf path content =
     (if \<not> starts_with slash path \<or> path = [slash] then sfail Other
      else
        sbind (sget (\<lambda>_. split_parent path)) (\<lambda>(parent_path, file_name).
        sbind (sget (\<lambda>_. encode_short_name_8_3 file_name)) (\<lambda>(name_raw, ext_raw).
        sbind (sget (parent_cluster parent_path)) (\<lambda>dir.
        sbind (sget (\<lambda>m. find_dir_entry_offset_by_short_name m dir name_raw ext_raw))
          (\<lambda>(existing_off, existing_entry).
        sbind (release_existing existing_entry) (\<lambda>_.
        sbind (store_content pf content) (\<lambda>first_cluster.
          let sz = word_of_nat (length content) in
          update_entry dir existing_off name_raw ext_raw first_cluster sz)))))))"

subsection \<open>Every step keeps the shape of the volume\<close>

lemma zero_fill_shape [simp]: "keeps same_shape (zero_fill a b)"
  using put_bytes_shape [of a "replicate (b - a) 0"] by (auto simp: keeps_def zero_fill_def)

lemma data_loop_shape [simp]: "keeps same_shape (data_loop cls content cs pos)"
  by (induction cls arbitrary: pos) (auto simp: Let_def intro!: shape_sbind)

lemma write_chain_data_shape [simp]: "keeps same_shape (write_chain_data cls content)"
  using data_loop_shape by (auto simp: keeps_def write_chain_data_def)

lemma write_dir_entry_shape [simp]:
  "keeps same_shape (write_dir_entry_at_offset off n e c sz)"
  using put_bytes_shape by (auto simp: keeps_def write_dir_entry_at_offset_def)

lemma release_existing_shape [simp]: "keeps same_shape (release_existing x)"
  by (auto simp: release_existing_def split: option.splits)

lemma store_content_shape [simp]: "keeps same_shape (store_content pf content)"
proof -
  have "keeps same_shape (sbind (alloc_chain pf k) (\<lambda>chain. sbind (write_chain_data chain content)
      (\<lambda>_. sget (\<lambda>_. case chain of [] \<Rightarrow> Panic | c # _ \<Rightarrow> Ok c))))" for k
    by (intro shape_sbind) simp_all
  then show ?thesis by (auto simp: store_content_def keeps_def Let_def)
qed

lemma update_entry_shape [simp]: "keeps same_shape (update_entry d x n e c sz)"
  by (auto simp: update_entry_def Let_def intro!: shape_sbind split: option.splits)

lemma write_file_shape: "keeps same_shape (write_file_by_path pf path content)"
  by (auto simp: write_file_by_path_def Let_def intro!: shape_sbind)

end
