(* ===== verification/Write_Safety.thy ===== *)
theory Write_Safety
  imports Writer
begin

text \<open>
  What \<^verbatim>\<open>write_file_by_path\<close> promises on any mounted volume, however inconsistent: it does not panic
  (but for the one \<^verbatim>\<open>u32\<close> addition of \<^verbatim>\<open>max_cluster_number\<close> in a debug build), and a request it rejects
  leaves the disk as it was.
\<close>

subsection \<open>The helpers do not panic\<close>

lemma split_parent_no_Panic [simp]: "split_parent p \<noteq> Panic"
  by (auto simp: split_parent_def Let_def res_simps)

lemma encode_no_Panic [simp]: "encode_short_name_8_3 nm \<noteq> Panic"
  by (simp add: encode_eq)

lemma parent_cluster_no_Panic [simp]: "parent_cluster p m \<noteq> Panic"
  by (auto simp: parent_cluster_def res_simps)

lemma m_cluster_to_offset_no_Panic [simp]: "m_cluster_to_offset m c \<noteq> Panic"
  by (simp add: m_cluster_to_offset_def Let_def)

lemma find_entry_loop_no_Panic [simp]: "find_entry_loop m cls n e \<noteq> Panic"
  by (induction cls) (auto simp: Let_def res_simps get_slice_def split: option.splits)

lemma find_dir_entry_no_Panic [simp]: "find_dir_entry_offset_by_short_name m d n e \<noteq> Panic"
  by (auto simp: find_dir_entry_offset_by_short_name_def res_simps)

lemma free_slot_loop_no_Panic [simp]: "free_slot_loop m cls \<noteq> Panic"
  by (induction cls) (auto simp: Let_def res_simps get_slice_def split: option.splits)

lemma find_free_no_Panic [simp]: "find_free_dir_entry_slot m d \<noteq> Panic"
  by (auto simp: find_free_dir_entry_slot_def res_simps)

lemma length_fill_entry:
  "length e0 = 32 \<Longrightarrow> length n = 8 \<Longrightarrow> length e = 3 \<Longrightarrow> length (fill_entry e0 n e c sz) = 32"
  by (simp add: fill_entry_def Let_def)

lemma write_dir_entry_safe:
  "length n = 8 \<Longrightarrow> length e = 3 \<Longrightarrow> safe_at (write_dir_entry_at_offset off n e c sz) m"
  by (simp add: safe_at_def write_dir_entry_at_offset_def put_bytes_Ok length_fill_entry)

lemma put_bytes_zero_fill:
  assumes "off + cs \<le> length (m_disk m)" "length ys \<le> cs"
  shows "sbind (put_bytes off ys) (\<lambda>_. zero_fill (off + length ys) (off + cs)) m
    = (Ok (), m\<lparr>m_disk := patch (m_disk m) off (ys @ replicate (cs - length ys) 0)\<rparr>)"
proof -
  have "patch (patch (m_disk m) off ys) (off + length ys) (replicate (cs - length ys) 0)
      = patch (m_disk m) off (ys @ replicate (cs - length ys) 0)"
    using assms by (intro nth_equalityI) (auto simp: nth_patch nth_append)
  then show ?thesis
    using assms by (simp add: put_bytes_Ok zero_fill_def sbind_def)
qed

lemma sbind_assoc: "sbind (sbind f g) h = sbind f (\<lambda>x. sbind (g x) h)"
  by (rule ext) (auto simp: sbind_def split: prod.splits res.splits)

text \<open>One round of the data loop on a cluster that lies on the disk.\<close>

lemma data_loop_step:
  assumes "m_cluster_to_offset m cl = Ok off" "off + cs \<le> length (m_disk m)"
    and "pos \<le> length content"
  defines "ende \<equiv> min (pos + cs) (length content)"
  defines "piece \<equiv> window content pos (ende - pos)"
  shows "data_loop (cl # cls) content cs pos m
    = (if length content \<le> ende then sret () else data_loop cls content cs ende)
        (m\<lparr>m_disk := patch (m_disk m) off (piece @ replicate (cs - length piece) 0)\<rparr>)"
proof -
  have piece: "get_slice content pos ende = (Ok piece :: u8 list fres)" "length piece \<le> cs"
    using assms(3) by (auto simp: get_slice_def piece_def ende_def)
  note fill = put_bytes_zero_fill [OF assms(2) piece(2)]
  have "data_loop (cl # cls) content cs pos m
      = sbind (sbind (put_bytes off piece) (\<lambda>_. zero_fill (off + length piece) (off + cs)))
          (\<lambda>_. if length content \<le> ende then sret () else data_loop cls content cs ende) m"
    using assms(1,2) piece(1) by (simp add: Let_def ende_def [symmetric] sbind_assoc)
  then show ?thesis using fill by simp
qed

lemma data_loop_safe:
  "pos \<le> length content \<Longrightarrow> safe_at (data_loop cls content cs pos) m"
proof (induction cls arbitrary: pos m)
  case (Cons cl cls pos m)
  show ?case
  proof (cases "m_cluster_to_offset m cl")
    case (Ok off)
    show ?thesis
    proof (cases "off + cs \<le> length (m_disk m)")
      case True
      note step = data_loop_step [OF Ok True Cons.prems]
      show ?thesis
        unfolding safe_at_def step using Cons.IH by (simp add: safe_at_def del: data_loop.simps)
    next
      case False
      with Ok show ?thesis by (simp add: safe_at_def)
    qed
  qed (auto simp: safe_at_def)
qed simp

lemma write_chain_data_safe: "safe_at (write_chain_data cls content) m"
  using data_loop_safe [of 0] by (simp add: write_chain_data_def safe_at_def)

subsection \<open>The one overflow\<close>

text \<open>The volume has fewer data clusters than \<^verbatim>\<open>2 + data_clusters\<close> can overflow on.\<close>

definition countable_clusters :: "fat32_mut \<Rightarrow> bool" where
  "countable_clusters m \<longleftrightarrow>
     (length (m_disk m) - m_data_start_byte m) div m_cluster_size m < 2 ^ 32 - 2"

lemma countable_same_shape: "same_shape m m' \<Longrightarrow> countable_clusters m' = countable_clusters m"
  by (simp add: countable_clusters_def same_shapeD)

lemma max_cluster_number_no_Panic:
  assumes "pf = Release \<or> countable_clusters m"
  shows "max_cluster_number pf m \<noteq> Panic"
proof -
  define dc where "dc = (word_of_nat ((length (m_disk m) - m_data_start_byte m) div m_cluster_size m) :: u32)"
  define fe where "fe = (word_of_nat (fat_bytes_len m div 4) :: u32)"
  have add: "arith_add pf 2 dc = (Ok (2 + dc) :: u32 fres)"
  proof (cases pf)
    case Debug
    with assms have "(length (m_disk m) - m_data_start_byte m) div m_cluster_size m < 2 ^ 32 - 2"
      by (simp add: countable_clusters_def)
    then have "unat dc < 2 ^ 32 - 2" by (simp add: dc_def unat_of_nat)
    then show ?thesis by (simp add: arith_add_def)
  qed simp
  have sub: "arith_sub pf (2 + dc) 1 = (Ok (2 + dc - 1) :: u32 fres)" if "dc \<noteq> 0"
  proof (cases pf)
    case Debug
    with assms have "(length (m_disk m) - m_data_start_byte m) div m_cluster_size m < 2 ^ 32 - 2"
      by (simp add: countable_clusters_def)
    then have "unat dc < 2 ^ 32 - 2" by (simp add: dc_def unat_of_nat)
    then have "unat (2 + dc) = 2 + unat dc" using unat_add_no_wrap [of 2 dc] by simp
    then show ?thesis by (simp add: arith_sub_def word_le_nat_alt)
  qed simp
  have fat: "arith_sub pf fe 1 = (Ok (fe - 1) :: u32 fres)" if "\<not> fe < 3"
    using that by (intro arith_sub_no_wrap) (simp add: word_le_nat_alt word_less_nat_alt)
  show ?thesis
    unfolding max_cluster_number_def Let_def dc_def [symmetric] fe_def [symmetric]
    using add sub fat by simp
qed

lemma alloc_chain_safe:
  "pf = Release \<or> countable_clusters m \<Longrightarrow> safe_at (alloc_chain pf needed) m"
  by (auto simp: alloc_chain_def max_cluster_number_no_Panic intro!: safe_at_sbind)

lemma alloc_chain_length: "alloc_chain pf needed m = (Ok ch, m') \<Longrightarrow> length ch = needed"
  by (auto simp: alloc_chain_def res_simps split: if_splits)

lemma store_content_safe:
  assumes "mounted m" "pf = Release \<or> countable_clusters m"
  shows "safe_at (store_content pf content) m"
proof (cases "content = []")
  case False
  let ?k = "div_ceil (length content) (m_cluster_size m)"
  have "0 < ?k" using False mounted_cluster_size [OF assms(1)] by (intro div_ceil_pos) auto
  then have "safe_at (sbind (alloc_chain pf ?k) (\<lambda>chain. sbind (write_chain_data chain content)
      (\<lambda>_. sget (\<lambda>_. case chain of [] \<Rightarrow> Panic | c # _ \<Rightarrow> Ok c)))) m"
    using alloc_chain_safe [OF assms(2)]
    by (auto intro!: safe_at_sbind write_chain_data_safe dest!: alloc_chain_length split: list.splits)
  with False show ?thesis by (simp add: store_content_def safe_at_def Let_def)
qed (simp add: store_content_def)

lemma free_slot_chunks_Some:
  "free_slot_chunks off ende i chs = Some (fo, w, e) \<Longrightarrow> e = ende"
  by (induction chs arbitrary: i) (auto split: if_splits)

lemma free_slot_loop_end: "free_slot_loop m cls = Ok r \<Longrightarrow> snd (snd r) \<le> length (m_disk m)"
proof (induction cls)
  case (Cons c cls)
  then obtain off data where off: "m_cluster_to_offset m c = Ok off"
      "off + m_cluster_size m \<le> length (m_disk m)"
    and r: "(case free_slot_chunks off (off + m_cluster_size m) 0 (chunks 32 data) of
        Some r \<Rightarrow> Ok r | None \<Rightarrow> free_slot_loop m cls) = Ok r"
    by (auto simp: Let_def res_simps not_less split: if_splits)
  show ?case
  proof (cases "free_slot_chunks off (off + m_cluster_size m) 0 (chunks 32 data)")
    case None
    with r Cons.IH show ?thesis by simp
  next
    case (Some x)
    with r off(2) show ?thesis by (cases x) (auto dest: free_slot_chunks_Some)
  qed
qed simp

lemma find_free_end: "find_free_dir_entry_slot m d = Ok (fo, w, e) \<Longrightarrow> e \<le> length (m_disk m)"
  by (auto simp: find_free_dir_entry_slot_def res_simps dest!: free_slot_loop_end)

lemma write_dir_entry_length:
  "write_dir_entry_at_offset off n e c sz m = (r, m') \<Longrightarrow> length (m_disk m') = length (m_disk m)"
  using keepsD [OF write_dir_entry_shape] same_shapeD(1) by metis

lemma update_entry_safe:
  assumes "length n = 8" "length e = 3"
  shows "safe_at (update_entry d x n e c sz) m"
proof (cases x)
  case None
  have "safe_at (if w then let nxt = fo + 32 in if nxt < ende then put_bytes nxt [0] else sret ()
      else sret ()) m'"
    if "find_free_dir_entry_slot m d = Ok (fo, w, ende)"
      "write_dir_entry_at_offset fo n e c sz m = (Ok (), m')" for fo w ende m'
    using find_free_end [OF that(1)] write_dir_entry_length [OF that(2)]
    by (auto simp: Let_def intro!: put_bytes_safe)
  with None show ?thesis
    by (auto simp: update_entry_def write_dir_entry_safe [OF assms] intro!: safe_at_sbind)
qed (simp add: update_entry_def write_dir_entry_safe [OF assms])

lemma release_existing_safe [simp]: "safe_at (release_existing x) m"
  by (auto simp: release_existing_def split: option.splits)

lemma write_file_safe:
  assumes "mounted m" "pf = Release \<or> countable_clusters m"
  shows "safe_at (write_file_by_path pf path content) m"
proof -
  have store: "safe_at (store_content pf content) m'" if "release_existing x m = (Ok (), m')" for x m'
  proof -
    have "same_shape m m'" using keepsD [OF release_existing_shape that] .
    with assms show ?thesis
      by (intro store_content_safe) (auto simp: mounted_same_shape countable_same_shape)
  qed
  show ?thesis
    unfolding write_file_by_path_def Let_def
    by (auto intro!: safe_at_sbind update_entry_safe dest!: encode_lengths intro: store)
qed

subsection \<open>Rejected requests\<close>

text \<open>\<open>fails_with E m\<close>: the errors of \<open>m\<close> are in \<open>E\<close>.\<close>

definition fails_with :: "'e set \<Rightarrow> ('s, 'e, 'a) prog \<Rightarrow> bool" where
  "fails_with E m \<longleftrightarrow> (\<forall>s e s'. m s = (Err e, s') \<longrightarrow> e \<in> E)"

lemma fails_with_sret [simp]: "fails_with E (sret x)"
  by (simp add: fails_with_def)

lemma fails_with_Pair [simp]: "fails_with E (Pair (Ok x))"
  by (simp add: fails_with_def)

lemma fails_with_sfail [simp]: "fails_with E (sfail e) \<longleftrightarrow> e \<in> E"
  by (simp add: fails_with_def)

lemma fails_with_Pair_Err [simp]: "fails_with E (Pair (Err e)) \<longleftrightarrow> e \<in> E"
  by (simp add: fails_with_def)

lemma fails_with_sget: "(\<And>s e. f s = Err e \<Longrightarrow> e \<in> E) \<Longrightarrow> fails_with E (sget f)"
  by (simp add: fails_with_def)

lemma fails_with_sbind [intro]:
  "fails_with E m \<Longrightarrow> (\<And>x. fails_with E (f x)) \<Longrightarrow> fails_with E (sbind m f)"
  unfolding fails_with_def sbind_eq_Err by blast

text \<open>The errors of an inconsistent or full volume, which may come after a first write.\<close>

definition late_errors :: "fat_error set" where
  "late_errors = {OutOfBounds, InvalidCluster, NotFat32, NoSpaceLeft}"

lemma put_bytes_no_Err [simp]: "put_bytes off ys m \<noteq> (Err e, m')"
  by (simp add: put_bytes_def copy_into_def)

lemma put_bytes_fails [simp]: "fails_with E (put_bytes off ys)"
  by (simp add: fails_with_def)

lemma write_copies_fails [simp]: "fails_with late_errors (write_copies is f l c bs)"
proof (induction "is")
  case (Cons i "is")
  have "fails_with late_errors (sbind (put_bytes off bs) (\<lambda>_. write_copies is f l c bs))" for off
    using Cons by auto
  then show ?case by (auto simp: fails_with_def Let_def late_errors_def)
qed simp

lemma write_fat_entry_all_fails [simp]: "fails_with late_errors (write_fat_entry_all c v)"
  using write_copies_fails by (auto simp: fails_with_def write_fat_entry_all_def Let_def)

lemma m_read_fat_entry_fails: "m_read_fat_entry m c = Err e \<Longrightarrow> e \<in> late_errors"
  by (auto simp: m_read_fat_entry_def Let_def res_simps late_errors_def split: if_splits)

lemma m_follow_loop_fails: "m_follow_loop m n c acc = Err e \<Longrightarrow> e \<in> late_errors"
  by (induction n arbitrary: c acc)
    (auto simp: Let_def res_simps late_errors_def dest: m_read_fat_entry_fails split: if_splits)

lemma m_follow_chain_fails: "m_follow_chain m c n = Err e \<Longrightarrow> e \<in> late_errors"
  by (auto simp: m_follow_chain_def late_errors_def dest: m_follow_loop_fails split: if_splits)

lemma free_loop_fails [simp]: "fails_with late_errors (free_loop cls)"
  by (induction cls) auto

lemma link_loop_fails [simp]: "fails_with late_errors (link_loop cls)"
  by (induction cls) auto

lemma free_chain_fails [simp]: "fails_with late_errors (free_chain c)"
  by (auto simp: free_chain_def intro!: fails_with_sget dest: m_follow_chain_fails)

lemma max_cluster_number_fails: "max_cluster_number pf m = Err e \<Longrightarrow> e \<in> late_errors"
  by (auto simp: max_cluster_number_def Let_def res_simps late_errors_def split: if_splits)

lemma alloc_scan_fails: "alloc_scan m k cls found = Err e \<Longrightarrow> e \<in> late_errors"
  by (induction cls arbitrary: found)
    (auto simp: Let_def res_simps dest: m_read_fat_entry_fails split: if_splits)

lemma alloc_chain_fails [simp]: "fails_with late_errors (alloc_chain pf k)"
  by (auto simp: alloc_chain_def late_errors_def [symmetric] intro!: fails_with_sget fails_with_sbind
      dest: max_cluster_number_fails alloc_scan_fails) (simp add: late_errors_def)

lemma m_cluster_to_offset_fails: "m_cluster_to_offset m c = Err e \<Longrightarrow> e \<in> late_errors"
  by (auto simp: m_cluster_to_offset_def Let_def late_errors_def split: if_splits)

lemma zero_fill_fails [simp]: "fails_with E (zero_fill a b)"
  by (auto simp: fails_with_def zero_fill_def split: if_splits)

lemma data_loop_fails [simp]: "fails_with late_errors (data_loop cls content cs pos)"
  by (induction cls arbitrary: pos)
    (auto simp: Let_def intro!: fails_with_sbind fails_with_sget dest: m_cluster_to_offset_fails
      split: if_splits, simp_all add: late_errors_def)

lemma write_chain_data_fails [simp]: "fails_with late_errors (write_chain_data cls content)"
  using data_loop_fails by (auto simp: fails_with_def write_chain_data_def)

lemma store_content_fails [simp]: "fails_with late_errors (store_content pf content)"
proof -
  have "fails_with late_errors (sbind (alloc_chain pf k) (\<lambda>chain. sbind (write_chain_data chain content)
      (\<lambda>_. sget (\<lambda>_. case chain of [] \<Rightarrow> Panic | c # _ \<Rightarrow> Ok c))))" for k
    by (intro fails_with_sbind fails_with_sget) (auto split: list.splits)
  then show ?thesis by (auto simp: store_content_def fails_with_def Let_def)
qed

lemma free_slot_loop_fails: "free_slot_loop m cls = Err e \<Longrightarrow> e \<in> late_errors"
  by (induction cls)
    (auto simp: Let_def res_simps late_errors_def dest: m_cluster_to_offset_fails
      split: if_splits option.splits)

lemma find_free_fails: "find_free_dir_entry_slot m d = Err e \<Longrightarrow> e \<in> late_errors"
  by (auto simp: find_free_dir_entry_slot_def res_simps
      dest: free_slot_loop_fails m_follow_chain_fails)

lemma write_dir_entry_fails [simp]:
  "fails_with late_errors (write_dir_entry_at_offset off n e c sz)"
  by (auto simp: fails_with_def write_dir_entry_at_offset_def late_errors_def split: if_splits)

lemma update_entry_fails [simp]: "fails_with late_errors (update_entry d x n e c sz)"
  by (auto simp: update_entry_def Let_def intro!: fails_with_sbind fails_with_sget
      dest: find_free_fails split: option.splits)

lemma release_existing_cases:
  "release_existing x m = (Err e, m') \<Longrightarrow> e \<in> late_errors \<or> m' = m"
  using free_chain_fails
  by (auto simp: release_existing_def fails_with_def split: option.splits if_splits)

text \<open>After the old entry is released, only the errors of the volume are left.\<close>

lemma write_file_rejected:
  assumes "write_file_by_path pf path content m = (Err e, m')" "e \<notin> late_errors"
  shows "m' = m"
proof -
  note late = store_content_fails [of pf content, unfolded fails_with_def, rule_format]
    update_entry_fails [unfolded fails_with_def, rule_format]
  from assms show ?thesis
    unfolding write_file_by_path_def Let_def
    by (auto simp: sbind_eq_Err dest!: release_existing_cases dest: late split: if_splits)
qed

subsection \<open>Properties\<close>

text \<open>C11: Writing a file never panics on a mounted volume, however inconsistent its tables and
  directories, in a release build; in a debug build it does not when the data area has fewer than
  \<open>2 ^ 32 - 2\<close> clusters, which every FAT32 volume has.\<close>

theorem write_never_panics:
  assumes "mounted m" "pf = Release \<or> countable_clusters m"
  shows "fst (write_file_by_path pf path content m) \<noteq> Panic"
  using write_file_safe [OF assms] by (simp add: safe_at_def)

theorem write_never_panics_witness:
  "mounted test_volume \<and> countable_clusters test_volume
    \<and> fst (write_file_by_path Debug (bytes ''/NEW.TXT'') (bytes ''NEW!'') test_volume) \<noteq> Panic"
proof -
  have "countable_clusters test_volume" by (simp add: countable_clusters_def)
  then show ?thesis using write_never_panics [of test_volume Debug] by simp
qed

text \<open>C12: A request that is rejected for what it asks (a bad path or name, a missing parent, a parent or
  target of the wrong kind) leaves every byte of the disk as it was; only the errors of a full or
  inconsistent volume can come after a first write.\<close>

theorem write_rejected_untouched:
  assumes "write_file_by_path pf path content m = (Err err, m')"
    and "err \<in> {Other, InvalidName, PathNotFound, NotADirectory, NotAFile, BufferTooSmall}"
  shows "m' = m"
  using assms(2) by (intro write_file_rejected [OF assms(1)]) (auto simp: late_errors_def)

theorem write_rejected_untouched_witness:
  "\<exists>m'. write_file_by_path Debug (bytes ''/NOT-A-NAME.TXT'') (bytes ''NEW!'') test_volume
      = (Err InvalidName, m') \<and> m' = test_volume"
proof -
  have split: "split_parent (bytes ''/NOT-A-NAME.TXT'') = Ok (bytes ''/'', bytes ''NOT-A-NAME.TXT'')"
    and enc: "encode_short_name_8_3 (bytes ''NOT-A-NAME.TXT'') = Err InvalidName"
    and abs: "starts_with slash (bytes ''/NOT-A-NAME.TXT'')" "bytes ''/NOT-A-NAME.TXT'' \<noteq> [slash]"
    by code_simp+
  have "write_file_by_path Debug (bytes ''/NOT-A-NAME.TXT'') (bytes ''NEW!'') test_volume
      = (Err InvalidName, test_volume)"
    using split enc abs by (simp add: write_file_by_path_def)
  from this write_rejected_untouched [OF this] show ?thesis by simp
qed

text \<open>Whatever a write returns, errors included, it keeps the length of the disk and the parameters
  of the volume, so the view stays mounted.\<close>

theorem write_keeps_volume:
  assumes "mounted m" "write_file_by_path pf path content m = (r, m')"
  shows "mounted m' \<and> same_shape m m'"
  using keepsD [OF write_file_shape assms(2)] assms(1) mounted_same_shape by blast

theorem write_keeps_volume_witness:
  "\<exists>r m'. write_file_by_path Release (bytes ''/DIR/A'') [1, 2] test_volume = (r, m')
    \<and> length (m_disk m') = 5120"
proof (cases "write_file_by_path Release (bytes ''/DIR/A'') [1, 2] test_volume")
  case (Pair r m')
  then show ?thesis
    using write_keeps_volume [OF mounted_test_volume Pair] same_shapeD(1) [of test_volume m'] by auto
qed

text \<open>The one arithmetic overflow of the driver: on a volume of one-byte clusters with \<open>2 ^ 32 - 1\<close> of
  them, \<^verbatim>\<open>2 + data_clusters\<close> overflows. A debug build panics there; a release build wraps and
  reports 0 as the last cluster, so that no cluster is ever found free.\<close>

theorem max_cluster_number_overflow:
  "\<exists>m. mounted m \<and> max_cluster_number Debug m = Panic \<and> max_cluster_number Release m = Ok 0"
proof -
  define m where "m =
    \<lparr>m_disk = replicate (12 + 4294967295) 0, m_bytes_per_sector = 1, m_sectors_per_cluster = 1,
     m_reserved_sectors = 0, m_num_fats = 1, m_sectors_per_fat = 12, m_root_cluster = 2\<rparr>"
  have m: "mounted m" and geo: "m_data_start_byte m = 12" "m_cluster_size m = 1" "fat_bytes_len m = 12"
    "length (m_disk m) = 4294967307"
    by (simp_all add: mounted_def m_def m_data_start_byte_def m_fat_start_byte_def m_cluster_size_def
        fat_bytes_len_def m_bytes_per_sector_usize_def)
  have "arith_add Debug 2 (4294967295 :: u32) = (Panic :: u32 fres)" by (simp add: arith_add_def)
  then have "max_cluster_number Debug m = Panic" "max_cluster_number Release m = Ok 0"
    by (simp_all add: max_cluster_number_def Let_def geo)
  with m show ?thesis by blast
qed

end
