(* ===== verification/Chain_Data.thy ===== *)
theory Chain_Data
  imports Write_Safety
begin

text \<open>
  Where the clusters of a volume lie, and what \<^verbatim>\<open>write_chain_data\<close> leaves on the disk: the clusters of
  the chain spell the content, and no other byte has changed.
\<close>

subsection \<open>Clusters on the disk\<close>

definition cluster_at :: "fat32_mut \<Rightarrow> u32 \<Rightarrow> nat" where
  "cluster_at m c = m_data_start_byte m + unat (c - 2) * m_cluster_size m"

lemma cluster_at_same_shape: "same_shape m m' \<Longrightarrow> cluster_at m' c = cluster_at m c"
  by (simp add: cluster_at_def same_shapeD)

lemma in_data_same_shape: "same_shape m m' \<Longrightarrow> in_data (as_read m') c = in_data (as_read m) c"
  by (simp add: in_data_def same_shapeD)

lemma in_data_bounds:
  assumes "in_data (as_read m) c"
  shows "m_data_start_byte m \<le> cluster_at m c"
    and "cluster_at m c + m_cluster_size m \<le> length (m_disk m)"
    and "2 \<le> c" and "0 < m_cluster_size m"
    and "m_cluster_to_offset m c = Ok (cluster_at m c)"
  using assms by (auto simp: in_data_def cluster_at_def m_cluster_to_offset_def Let_def)

lemma cluster_bytes_window: "cluster_bytes (as_read m) c = window (m_disk m) (cluster_at m c) (m_cluster_size m)"
  by (simp add: cluster_bytes_def cluster_at_def)

lemma clusters_apart:
  assumes "c \<noteq> d" "2 \<le> c" "2 \<le> d"
  shows "cluster_at m c + m_cluster_size m \<le> cluster_at m d
    \<or> cluster_at m d + m_cluster_size m \<le> cluster_at m c"
proof -
  have "unat (c - 2) \<noteq> unat (d - 2)" using assms(1) by (simp add: word_unat_eq_iff [symmetric])
  then have "unat (c - 2) + 1 \<le> unat (d - 2) \<or> unat (d - 2) + 1 \<le> unat (c - 2)" by linarith
  then have "(unat (c - 2) + 1) * m_cluster_size m \<le> unat (d - 2) * m_cluster_size m
    \<or> (unat (d - 2) + 1) * m_cluster_size m \<le> unat (c - 2) * m_cluster_size m"
    by (meson mult_le_mono1)
  then show ?thesis by (auto simp: cluster_at_def)
qed

text \<open>\<open>data_frame C m m'\<close>: the same volume, and the same bytes but in the clusters \<open>C\<close>.\<close>

definition data_frame :: "u32 set \<Rightarrow> fat32_mut \<Rightarrow> fat32_mut \<Rightarrow> bool" where
  "data_frame C m m' \<longleftrightarrow> same_shape m m' \<and>
     (\<forall>a n. (\<forall>c\<in>C. a + n \<le> cluster_at m c \<or> cluster_at m c + m_cluster_size m \<le> a) \<longrightarrow>
        window (m_disk m') a n = window (m_disk m) a n)"

lemma data_frame_refl [simp]: "data_frame C m m"
  by (simp add: data_frame_def)

lemma data_frame_shape: "data_frame C m m' \<Longrightarrow> same_shape m m'"
  by (simp add: data_frame_def)

lemma data_frame_mono: "data_frame C m m' \<Longrightarrow> C \<subseteq> D \<Longrightarrow> data_frame D m m'"
  unfolding data_frame_def by blast

lemma data_frame_trans: "data_frame C a b \<Longrightarrow> data_frame C b c \<Longrightarrow> data_frame C a c"
  unfolding data_frame_def
  by (auto simp: cluster_at_same_shape same_shapeD intro: same_shape_trans [of a b c])

lemma data_frame_window:
  "data_frame C m m' \<Longrightarrow>
     (\<And>c. c \<in> C \<Longrightarrow> a + n \<le> cluster_at m c \<or> cluster_at m c + m_cluster_size m \<le> a) \<Longrightarrow>
     window (m_disk m') a n = window (m_disk m) a n"
  by (simp add: data_frame_def)

lemma data_frame_cluster:
  assumes "data_frame C m m'" "\<And>d. d \<in> C \<Longrightarrow> 2 \<le> d" "2 \<le> c" "c \<notin> C"
  shows "cluster_bytes (as_read m') c = cluster_bytes (as_read m) c"
proof -
  note shape = data_frame_shape [OF assms(1)]
  have "window (m_disk m') (cluster_at m c) (m_cluster_size m)
      = window (m_disk m) (cluster_at m c) (m_cluster_size m)"
    using assms(2-4) by (intro data_frame_window [OF assms(1)] clusters_apart) auto
  then show ?thesis by (simp add: cluster_bytes_window cluster_at_same_shape [OF shape] same_shapeD [OF shape])
qed

lemma data_frame_fat:
  assumes "data_frame C m m'" "has_entry m c"
  shows "fat_val m' c = fat_val m c"
proof -
  note shape = data_frame_shape [OF assms(1)]
  have "0 < unat (m_num_fats m)" using assms(2) by (simp add: has_entry_def)
  then have "cell m 0 c + 4 \<le> m_data_start_byte m" using cell_in_fat(2) [OF assms(2)] by blast
  then have "window (m_disk m') (cell m 0 c) 4 = window (m_disk m) (cell m 0 c) 4"
    by (intro data_frame_window [OF assms(1)] disjI1) (simp add: cluster_at_def)
  then show ?thesis by (simp add: fat_val_def copy_val_def cell_same_shape [OF shape])
qed

lemma outside_fat_cluster:
  "outside_fat m m' \<Longrightarrow> cluster_bytes (as_read m') c = cluster_bytes (as_read m) c"
  unfolding cluster_bytes_window
  by (auto simp: outside_fat_def cluster_at_same_shape same_shapeD) (simp add: cluster_at_def)

text \<open>A write inside one cluster.\<close>

lemma data_frame_patch:
  assumes "cluster_at m c \<le> a" "a + length ys \<le> cluster_at m c + m_cluster_size m"
    and "cluster_at m c + m_cluster_size m \<le> length (m_disk m)"
  shows "data_frame {c} m (m\<lparr>m_disk := patch (m_disk m) a ys\<rparr>)"
  unfolding data_frame_def using assms
  by (auto intro!: window_patch_disjoint)

subsection \<open>The data of a chain\<close>

lemma chain_bytes_Cons: "chain_bytes fs (c # cs) = cluster_bytes fs c @ chain_bytes fs cs"
  by (simp add: chain_bytes_def)

lemma data_loop_spec:
  "(\<And>c. c \<in> set ks \<Longrightarrow> in_data (as_read m) c) \<Longrightarrow> distinct ks \<Longrightarrow>
     pos \<le> length content \<Longrightarrow> length content - pos \<le> length ks * m_cluster_size m \<Longrightarrow>
     \<exists>m'. data_loop ks content (m_cluster_size m) pos m = (Ok (), m') \<and> data_frame (set ks) m m'
       \<and> take (length content - pos) (chain_bytes (as_read m') ks) = drop pos content"
proof (induction ks arbitrary: m pos)
  case Nil
  then show ?case by (simp add: chain_bytes_def)
next
  case (Cons c ks)
  let ?cs = "m_cluster_size m" and ?a = "cluster_at m c"
  let ?ende = "min (pos + ?cs) (length content)"
  define piece where "piece = window content pos (?ende - pos)"
  define ys where "ys = piece @ replicate (?cs - length piece) 0"
  define m1 where "m1 = m\<lparr>m_disk := patch (m_disk m) ?a ys\<rparr>"
  note c = in_data_bounds [OF Cons.prems(1) [of c, simplified]]
  have ys: "length ys = ?cs" by (auto simp: ys_def piece_def)
  have step: "data_loop (c # ks) content ?cs pos m
      = (if length content \<le> ?ende then sret () else data_loop ks content ?cs ?ende) m1"
    unfolding m1_def ys_def piece_def by (rule data_loop_step [OF c(5) c(2) Cons.prems(3)])
  have frame: "data_frame {c} m m1"
    unfolding m1_def using c(2) ys by (intro data_frame_patch) auto
  have mine: "cluster_bytes (as_read m1) c = ys"
    using c(2) ys window_patch_same [of ?a ys "m_disk m"]
    by (simp add: cluster_bytes_window m1_def cluster_at_def)
  have shape: "same_shape m m1" by (rule data_frame_shape [OF frame])
  show ?case
  proof (cases "length content \<le> pos + ?cs")
    case True
    then have "piece = drop pos content" by (simp add: piece_def window_def)
    then have "take (length content - pos) (chain_bytes (as_read m1) (c # ks)) = drop pos content"
      by (simp add: chain_bytes_Cons mine ys_def)
    moreover have "data_frame (set (c # ks)) m m1" by (rule data_frame_mono [OF frame]) simp
    ultimately show ?thesis using True step by (simp add: min_def)
  next
    case False
    then have ende: "?ende = pos + ?cs" by simp
    then have piece: "piece = take ?cs (drop pos content)" "ys = piece" "length piece = ?cs"
      using False by (simp_all add: piece_def window_def ys_def)
    have rest: "length content - (pos + ?cs) \<le> length ks * m_cluster_size m1"
      using Cons.prems(4) by (simp add: same_shapeD [OF shape])
    have in1: "in_data (as_read m1) d" if "d \<in> set ks" for d
      using that Cons.prems(1) by (simp add: in_data_same_shape [OF shape])
    obtain m' where m': "data_loop ks content (m_cluster_size m1) (pos + ?cs) m1 = (Ok (), m')"
      "data_frame (set ks) m1 m'"
      "take (length content - (pos + ?cs)) (chain_bytes (as_read m') ks) = drop (pos + ?cs) content"
      using Cons.IH [of m1 "pos + ?cs", OF in1] Cons.prems(2) rest False by auto
    have ks2: "2 \<le> d" if "d \<in> set ks" for d
      using that Cons.prems(1) [of d] in_data_bounds(3) [of m d] by simp
    have "c \<notin> set ks" using Cons.prems(2) by simp
    then have "cluster_bytes (as_read m') c = piece"
      using data_frame_cluster [OF m'(2) ks2 c(3)] mine piece by simp
    then have "take (length content - pos) (chain_bytes (as_read m') (c # ks))
        = piece @ take (length content - (pos + ?cs)) (chain_bytes (as_read m') ks)"
      using piece(3) False by (simp add: chain_bytes_Cons)
    also have "\<dots> = drop pos content"
      using m'(3) piece(1) append_take_drop_id [of ?cs "drop pos content"] by (simp add: add.commute)
    finally have spell: "take (length content - pos) (chain_bytes (as_read m') (c # ks)) = drop pos content" .
    have "data_frame (set (c # ks)) m1 m'" by (rule data_frame_mono [OF m'(2)]) auto
    moreover have "data_frame (set (c # ks)) m m1" by (rule data_frame_mono [OF frame]) simp
    ultimately have "data_frame (set (c # ks)) m m'" by (blast intro: data_frame_trans)
    then show ?thesis
      using step ende False m'(1) spell by (simp add: same_shapeD [OF shape] del: data_loop.simps)
  qed
qed

lemma write_chain_data_spec:
  assumes "\<And>c. c \<in> set ks \<Longrightarrow> in_data (as_read m) c" "distinct ks"
    and "length content \<le> length ks * m_cluster_size m"
  shows "\<exists>m'. write_chain_data ks content m = (Ok (), m') \<and> data_frame (set ks) m m'
    \<and> take (length content) (chain_bytes (as_read m') ks) = content"
  using data_loop_spec [of ks m 0 content, OF assms(1,2)] assms(3)
  by (simp add: write_chain_data_def)

subsection \<open>Properties\<close>

text \<open>\<^verbatim>\<open>write_chain_data\<close> on enough distinct clusters inside the data area: the clusters then spell
  the content, and every window of the disk away from them is unchanged.\<close>

theorem write_chain_data_correct:
  assumes "\<forall>c\<in>set ks. in_data (as_read m) c" "distinct ks"
    and "length content \<le> length ks * m_cluster_size m"
  shows "\<exists>m'. write_chain_data ks content m = (Ok (), m') \<and> same_shape m m'
    \<and> take (length content) (concat (map (cluster_bytes (as_read m')) ks)) = content
    \<and> (\<forall>a n. (\<forall>c\<in>set ks. a + n \<le> cluster_at m c \<or> cluster_at m c + m_cluster_size m \<le> a) \<longrightarrow>
         window (m_disk m') a n = window (m_disk m) a n)"
  using write_chain_data_spec [of ks m content] assms
  by (auto simp: data_frame_def chain_bytes_def)

theorem write_chain_data_correct_witness:
  "\<exists>m'. write_chain_data [6, 5] (replicate 700 7) test_volume = (Ok (), m')
    \<and> take 700 (cluster_bytes (as_read m') 6 @ cluster_bytes (as_read m') 5) = replicate 700 7"
  using write_chain_data_correct [of "[6, 5]" test_volume "replicate 700 7"]
  by (auto simp: in_data_def)

end
