(* ===== verification/Dir_Slots.thy ===== *)
theory Dir_Slots
  imports Chain_Data
begin

text \<open>
  A directory as the list of its 32-byte slots. Both searches of the driver, for an entry and for a
  free slot, walk the clusters of the directory chunk by chunk; here they are searches of one list,
  and writing an entry is an update of that list.
\<close>

subsection \<open>The places of the slots\<close>

text \<open>The slots of a directory: where each one starts, and where its cluster ends.\<close>

definition cluster_places :: "fat32_mut \<Rightarrow> u32 \<Rightarrow> (nat \<times> nat) list" where
  "cluster_places m c =
     map (\<lambda>i. (cluster_at m c + 32 * i, cluster_at m c + m_cluster_size m))
       [0..<m_cluster_size m div 32]"

definition slot_places :: "fat32_mut \<Rightarrow> u32 list \<Rightarrow> (nat \<times> nat) list" where
  "slot_places m cls = concat (map (cluster_places m) cls)"

definition slot :: "fat32_mut \<Rightarrow> nat \<times> nat \<Rightarrow> u8 list" where
  "slot m p = window (m_disk m) (fst p) 32"

lemma slot_places_Cons [simp]: "slot_places m (c # cls) = cluster_places m c @ slot_places m cls"
  by (simp add: slot_places_def)

lemma slot_places_Nil [simp]: "slot_places m [] = []"
  by (simp add: slot_places_def)

lemma cluster_places_bounds:
  "p \<in> set (cluster_places m c) \<Longrightarrow>
     cluster_at m c \<le> fst p \<and> fst p + 32 \<le> snd p \<and> snd p = cluster_at m c + m_cluster_size m"
  using mult_chunk_bound [of _ "m_cluster_size m" 32] by (auto simp: cluster_places_def)

lemma slot_places_cluster:
  "p \<in> set (slot_places m cls) \<Longrightarrow> \<exists>c\<in>set cls. p \<in> set (cluster_places m c)"
  by (auto simp: slot_places_def)

lemma slot_places_same_shape: "same_shape m m' \<Longrightarrow> slot_places m' cls = slot_places m cls"
  by (induction cls) (simp_all add: cluster_places_def cluster_at_same_shape same_shapeD)

lemma cluster_slots:
  assumes "in_data (as_read m) c"
  shows "full_chunks 32 (cluster_bytes (as_read m) c) = map (slot m) (cluster_places m c)"
proof -
  note len = length_cluster_bytes [OF assms]
  have "window (cluster_bytes (as_read m) c) (32 * i) 32
      = window (m_disk m) (cluster_at m c + 32 * i) 32" if "i < m_cluster_size m div 32" for i
    using mult_chunk_bound [OF that] by (simp add: cluster_bytes_window window_window)
  then show ?thesis using len by (simp add: full_chunks_def cluster_places_def slot_def)
qed

lemma dir_slots_places:
  "(\<And>c. c \<in> set cls \<Longrightarrow> in_data (as_read m) c) \<Longrightarrow>
     dir_slots (as_read m) cls = map (slot m) (slot_places m cls)"
  by (induction cls) (simp_all add: dir_slots_def cluster_slots)

text \<open>Two slots never overlap, and an earlier slot lies before a later one or in another cluster.\<close>

definition before :: "nat \<times> nat \<Rightarrow> nat \<times> nat \<Rightarrow> bool" where
  "before p q \<longleftrightarrow> fst p + 32 \<le> fst q \<or> snd q \<le> fst p"

lemma sorted_cluster_places: "sorted_wrt before (cluster_places m c)"
  unfolding cluster_places_def sorted_wrt_map
  by (rule sorted_wrt_mono_rel [OF _ sorted_wrt_upt]) (simp add: before_def)

lemma sorted_slot_places:
  "distinct cls \<Longrightarrow> (\<And>c. c \<in> set cls \<Longrightarrow> 2 \<le> c) \<Longrightarrow> sorted_wrt before (slot_places m cls)"
proof (induction cls)
  case (Cons c cls)
  have "before p q" if p: "p \<in> set (cluster_places m c)" and q: "q \<in> set (slot_places m cls)" for p q
  proof -
    obtain d where d: "d \<in> set cls" "q \<in> set (cluster_places m d)"
      using slot_places_cluster [OF q] by blast
    have "c \<noteq> d" "2 \<le> c" "2 \<le> d" using Cons.prems d(1) by auto
    then show ?thesis
      using clusters_apart [of c d m] cluster_places_bounds [OF p] cluster_places_bounds [OF d(2)]
      by (auto simp: before_def)
  qed
  with Cons show ?case by (simp add: sorted_wrt_append sorted_cluster_places)
qed simp

lemma places_split:
  assumes "slot_places m cls = pre @ p # post" "distinct cls" "\<And>c. c \<in> set cls \<Longrightarrow> 2 \<le> c"
  shows "q \<in> set pre \<Longrightarrow> fst q + 32 \<le> fst p \<or> snd p \<le> fst q"
    and "q \<in> set post \<Longrightarrow> fst p + 32 \<le> fst q \<or> fst q + 32 \<le> fst p"
proof -
  have s: "sorted_wrt before (pre @ p # post)"
    using sorted_slot_places [OF assms(2,3), of m] assms(1) by simp
  show "fst q + 32 \<le> fst p \<or> snd p \<le> fst q" if "q \<in> set pre"
    using s that by (simp add: sorted_wrt_append before_def)
  show "fst p + 32 \<le> fst q \<or> fst q + 32 \<le> fst p" if "q \<in> set post"
  proof -
    have "before p q" using s that by (simp add: sorted_wrt_append)
    moreover have "q \<in> set (slot_places m cls)" using that assms(1) by simp
    then have "fst q + 32 \<le> snd q"
      using slot_places_cluster cluster_places_bounds by blast
    ultimately show ?thesis by (auto simp: before_def)
  qed
qed

text \<open>The slots by index, with \<open>m_cluster_size m div 32\<close> of them to a cluster.\<close>

lemma length_slot_places: "length (slot_places m cls) = length cls * (m_cluster_size m div 32)"
  by (induction cls) (simp_all add: cluster_places_def)

lemma nth_slot_places:
  "i < length cls * (m_cluster_size m div 32) \<Longrightarrow>
     slot_places m cls ! i
       = (cluster_at m (cls ! (i div (m_cluster_size m div 32))) + 32 * (i mod (m_cluster_size m div 32)),
          cluster_at m (cls ! (i div (m_cluster_size m div 32))) + m_cluster_size m)"
proof (induction cls arbitrary: i)
  case (Cons c cls)
  let ?q = "m_cluster_size m div 32"
  have len: "length (cluster_places m c) = ?q" by (simp add: cluster_places_def)
  show ?case
  proof (cases "i < ?q")
    case True
    then show ?thesis by (simp add: nth_append len) (simp add: cluster_places_def)
  next
    case False
    have "?q \<noteq> 0" using Cons.prems by (metis mult_0_right not_less_zero)
    with False have i: "?q \<le> i" "0 < ?q" by linarith+
    have "i - ?q < length cls * ?q" using Cons.prems i by simp
    note rest = Cons.IH [OF this]
    have "i div ?q = Suc ((i - ?q) div ?q)" "i mod ?q = (i - ?q) mod ?q"
      using i le_div_geq [of ?q i] le_mod_geq [of ?q i] by simp_all
    then show ?thesis using i rest by (simp add: nth_append len)
  qed
qed simp

text \<open>A slot that is not the last of its cluster is followed by the next 32 bytes.\<close>

lemma places_next:
  assumes places: "slot_places m cls = pre @ p # post"
    and mid: "Suc (length pre) mod (m_cluster_size m div 32) \<noteq> 0"
  obtains q post' where "post = q # post'" "fst q = fst p + 32" "fst p + 64 \<le> snd p"
proof -
  let ?q = "m_cluster_size m div 32" and ?i = "length pre"
  have len: "length (pre @ p # post) = length cls * ?q"
    using length_slot_places [of m cls] places by simp
  have i: "?i < length cls * ?q" using len by simp
  have "Suc ?i \<noteq> length cls * ?q" using mid by auto
  with i have Si: "Suc ?i < length cls * ?q" by simp
  have step: "Suc ?i mod ?q = Suc (?i mod ?q)" "Suc ?i div ?q = ?i div ?q"
    using mid by (auto simp: mod_Suc div_Suc split: if_splits)
  have p: "p = slot_places m cls ! ?i" using places by simp
  obtain q post' where post: "post = q # post'" using Si len by (cases post) auto
  then have q: "q = slot_places m cls ! Suc ?i" using places by (simp add: nth_append)
  have "fst q = fst p + 32"
    unfolding p q nth_slot_places [OF i] nth_slot_places [OF Si] step by simp
  moreover have "Suc (Suc (?i mod ?q)) \<le> ?q"
  proof -
    have "0 < ?q" using i by (cases "?q = 0") simp_all
    then have "Suc ?i mod ?q < ?q" by (rule mod_less_divisor)
    then show ?thesis unfolding step(1) by simp
  qed
  then have "32 * Suc (Suc (?i mod ?q)) \<le> 32 * ?q" by (rule mult_le_mono2)
  then have "32 * (?i mod ?q) + 64 \<le> m_cluster_size m"
    using times_div_less_eq_dividend [of 32 "m_cluster_size m"] by simp
  then have "fst p + 64 \<le> snd p" unfolding p nth_slot_places [OF i] by simp
  ultimately show ?thesis using that post by blast
qed

subsection \<open>Searching for a name\<close>

text \<open>A used slot whose raw name is the one searched for.\<close>

definition matches :: "u8 list \<Rightarrow> u8 list \<Rightarrow> u8 list \<Rightarrow> bool" where
  "matches n e s \<longleftrightarrow> s ! 0 \<noteq> 0xE5 \<and> window s 0 8 = n \<and> window s 8 3 = e"

fun find_slot ::
  "fat32_mut \<Rightarrow> u8 list \<Rightarrow> u8 list \<Rightarrow> (nat \<times> nat) list \<Rightarrow> (nat option \<times> dir_entry option) option" where
  "find_slot m n e [] = None"
| "find_slot m n e (p # ps) =
     (if \<not> live (slot m p) then Some (None, None)
      else if matches n e (slot m p) then Some (Some (fst p), parse (slot m p))
      else find_slot m n e ps)"

lemma find_slot_append:
  "find_slot m n e (ps @ qs) = (case find_slot m n e ps of None \<Rightarrow> find_slot m n e qs | Some r \<Rightarrow> Some r)"
  by (induction ps) auto

lemma find_chunks_slots:
  assumes "\<And>p. p \<in> set ps \<Longrightarrow> length (slot m p) = 32" "\<And>c. c \<in> set rest \<Longrightarrow> length c < 32"
    and "map fst ps = map (\<lambda>i. off + i * 32) [k..<k + length ps]"
  shows "find_chunks off k (map (slot m) ps @ rest) n e = find_slot m n e ps"
  using assms
proof (induction ps arbitrary: k)
  case Nil
  then show ?case by (cases rest) auto
next
  case (Cons p ps)
  have upt: "[k..<k + length (p # ps)] = k # [Suc k..<Suc k + length ps]"
    by (simp only: length_Cons upt_from)
  have "fst p = off + k * 32" "map fst ps = map (\<lambda>i. off + i * 32) [Suc k..<Suc k + length ps]"
    using Cons.prems(3) unfolding upt by simp_all
  then show ?case using Cons by (auto simp: live_def matches_def)
qed

lemma chunks_of_cluster:
  assumes "in_data (as_read m) c"
  obtains rest where
    "chunks 32 (window (m_disk m) (cluster_at m c) (m_cluster_size m)) = map (slot m) (cluster_places m c) @ rest"
    "\<And>x. x \<in> set rest \<Longrightarrow> length x < 32"
    "\<And>p. p \<in> set (cluster_places m c) \<Longrightarrow> length (slot m p) = 32"
proof -
  obtain rest where r: "chunks 32 (cluster_bytes (as_read m) c)
      = full_chunks 32 (cluster_bytes (as_read m) c) @ rest" "\<forall>x\<in>set rest. length x < 32"
    using chunks_full [of 32 "cluster_bytes (as_read m) c"] by auto
  note eq = cluster_slots [OF assms]
  have "length (slot m p) = 32" if "p \<in> set (cluster_places m c)" for p
    using that length_of_full_chunk [of "slot m p" 32 "cluster_bytes (as_read m) c"] unfolding eq by simp
  with r that show ?thesis unfolding eq by (simp add: cluster_bytes_window)
qed

lemma find_entry_loop_spec:
  "(\<And>c. c \<in> set cls \<Longrightarrow> in_data (as_read m) c) \<Longrightarrow>
     find_entry_loop m cls n e
       = Ok (case find_slot m n e (slot_places m cls) of None \<Rightarrow> (None, None) | Some r \<Rightarrow> r)"
proof (induction cls)
  case (Cons c cls)
  have c: "in_data (as_read m) c" using Cons.prems by simp
  note b = in_data_bounds [OF c]
  obtain rest where r:
    "chunks 32 (window (m_disk m) (cluster_at m c) (m_cluster_size m)) = map (slot m) (cluster_places m c) @ rest"
    "\<And>x. x \<in> set rest \<Longrightarrow> length x < 32"
    "\<And>p. p \<in> set (cluster_places m c) \<Longrightarrow> length (slot m p) = 32"
    using chunks_of_cluster [OF c] by blast
  have "find_chunks (cluster_at m c) 0 (map (slot m) (cluster_places m c) @ rest) n e
      = find_slot m n e (cluster_places m c)"
    using r by (intro find_chunks_slots) (auto simp: cluster_places_def)
  with r(1) b Cons show ?case
    by (simp add: get_slice_def Let_def find_slot_append split: option.splits)
qed simp

lemma find_slot_Some:
  "find_slot m n e ps = Some (Some off, pe) \<Longrightarrow>
     \<exists>pre p post. ps = pre @ p # post \<and> off = fst p \<and> pe = parse (slot m p)
       \<and> live (slot m p) \<and> matches n e (slot m p)
       \<and> (\<forall>q\<in>set pre. live (slot m q) \<and> \<not> matches n e (slot m q))"
proof (induction ps)
  case (Cons p ps)
  show ?case
  proof (cases "live (slot m p) \<and> \<not> matches n e (slot m p)")
    case True
    with Cons obtain pre q post where "ps = pre @ q # post" "off = fst q" "pe = parse (slot m q)"
      "live (slot m q)" "matches n e (slot m q)" "\<forall>q\<in>set pre. live (slot m q) \<and> \<not> matches n e (slot m q)"
      by auto
    with True show ?thesis by (intro exI [of _ "p # pre"] exI [of _ q] exI [of _ post]) simp
  next
    case False
    with Cons.prems show ?thesis
      by (intro exI [of _ "[]"] exI [of _ p] exI [of _ ps]) (auto split: if_splits)
  qed
qed simp

lemma find_slot_None:
  "find_slot m n e ps = None \<or> find_slot m n e ps = Some (None, pe) \<Longrightarrow>
     q \<in> set (takeWhile (\<lambda>p. live (slot m p)) ps) \<Longrightarrow> \<not> matches n e (slot m q)"
  by (induction ps) (auto split: if_splits)

lemma find_slot_offset_None: "find_slot m n e ps = Some (None, pe) \<Longrightarrow> pe = None"
  by (induction ps) (auto split: if_splits)

subsection \<open>Searching for a free slot\<close>

text \<open>A slot in use: neither the end mark nor deleted.\<close>

definition used :: "u8 list \<Rightarrow> bool" where
  "used s \<longleftrightarrow> s ! 0 \<noteq> 0 \<and> s ! 0 \<noteq> 0xE5"

fun free_slot :: "fat32_mut \<Rightarrow> (nat \<times> nat) list \<Rightarrow> (nat \<times> bool \<times> nat) option" where
  "free_slot m [] = None"
| "free_slot m (p # ps) =
     (if used (slot m p) then free_slot m ps
      else Some (fst p, \<not> live (slot m p), snd p))"

lemma free_slot_append:
  "free_slot m (ps @ qs) = (case free_slot m ps of None \<Rightarrow> free_slot m qs | Some r \<Rightarrow> Some r)"
  by (induction ps) auto

lemma free_slot_chunks_slots:
  assumes "\<And>p. p \<in> set ps \<Longrightarrow> length (slot m p) = 32 \<and> snd p = ende"
    and "\<And>c. c \<in> set rest \<Longrightarrow> length c < 32"
    and "map fst ps = map (\<lambda>i. off + i * 32) [k..<k + length ps]"
  shows "free_slot_chunks off ende k (map (slot m) ps @ rest) = free_slot m ps"
  using assms
proof (induction ps arbitrary: k)
  case Nil
  then show ?case by (cases rest) auto
next
  case (Cons p ps)
  have upt: "[k..<k + length (p # ps)] = k # [Suc k..<Suc k + length ps]"
    by (simp only: length_Cons upt_from)
  have "fst p = off + k * 32" "map fst ps = map (\<lambda>i. off + i * 32) [Suc k..<Suc k + length ps]"
    using Cons.prems(3) unfolding upt by simp_all
  then show ?case using Cons by (auto simp: live_def used_def)
qed

lemma free_slot_loop_spec:
  "(\<And>c. c \<in> set cls \<Longrightarrow> in_data (as_read m) c) \<Longrightarrow>
     free_slot_loop m cls
       = (case free_slot m (slot_places m cls) of None \<Rightarrow> Err NoSpaceLeft | Some r \<Rightarrow> Ok r)"
proof (induction cls)
  case (Cons c cls)
  have c: "in_data (as_read m) c" using Cons.prems by simp
  note b = in_data_bounds [OF c]
  obtain rest where r:
    "chunks 32 (window (m_disk m) (cluster_at m c) (m_cluster_size m)) = map (slot m) (cluster_places m c) @ rest"
    "\<And>x. x \<in> set rest \<Longrightarrow> length x < 32"
    "\<And>p. p \<in> set (cluster_places m c) \<Longrightarrow> length (slot m p) = 32"
    using chunks_of_cluster [OF c] by blast
  have "free_slot_chunks (cluster_at m c) (cluster_at m c + m_cluster_size m) 0
      (map (slot m) (cluster_places m c) @ rest) = free_slot m (cluster_places m c)"
    using r by (intro free_slot_chunks_slots) (auto simp: cluster_places_def)
  with r(1) b Cons show ?case
    by (simp add: get_slice_def Let_def free_slot_append split: option.splits)
qed simp

lemma free_slot_Some:
  "free_slot m ps = Some (off, w, ende) \<Longrightarrow>
     \<exists>pre p post. ps = pre @ p # post \<and> off = fst p \<and> ende = snd p \<and> \<not> used (slot m p)
       \<and> w = (\<not> live (slot m p)) \<and> (\<forall>q\<in>set pre. used (slot m q))"
proof (induction ps)
  case (Cons p ps)
  show ?case
  proof (cases "used (slot m p)")
    case True
    with Cons.prems have "free_slot m ps = Some (off, w, ende)" by simp
    from Cons.IH [OF this] obtain pre q post where "ps = pre @ q # post" "off = fst q" "ende = snd q"
      "\<not> used (slot m q)" "w = (\<not> live (slot m q))" "\<forall>q\<in>set pre. used (slot m q)"
      by blast
    with True show ?thesis by (intro exI [of _ "p # pre"] exI [of _ q] exI [of _ post]) simp
  next
    case False
    with Cons.prems show ?thesis
      by (intro exI [of _ "[]"] exI [of _ p] exI [of _ ps]) (auto split: if_splits)
  qed
qed simp

lemma free_slot_None: "free_slot m ps = None \<longleftrightarrow> (\<forall>p\<in>set ps. used (slot m p))"
  by (induction ps) auto

end
