(* ===== verification/Chain_Frame.thy ===== *)
theory Chain_Frame
  imports Dir_Slots
begin

text \<open>
  Chains of clusters as the owners of files and directories: \<open>chain_at m c cs\<close> says that the chain
  starting at \<open>c\<close> is \<open>cs\<close> and lies on the disk, and \<open>same_but K m m'\<close> that an operation changed
  nothing but the clusters \<open>K\<close>. Each step of a write is shown to be such an operation.
\<close>

subsection \<open>Chains on the disk\<close>

definition chain_at :: "fat32_mut \<Rightarrow> u32 \<Rightarrow> u32 list \<Rightarrow> bool" where
  "chain_at m c cs \<longleftrightarrow> cs \<noteq> [] \<and> hd cs = c \<and> fat_path (fat_val m) cs \<and> length cs \<le> 4096
     \<and> (\<forall>d\<in>set cs. has_entry m d \<and> in_data (as_read m) d)"

text \<open>A chain visits no cluster twice.\<close>

lemma fat_path_suffix: "fat_path f (xs @ c # ys) \<Longrightarrow> fat_path f (c # ys)"
  by (induction f xs rule: fat_path.induct) auto

lemma fat_path_unique: "fat_path f (c # xs) \<Longrightarrow> fat_path f (c # ys) \<Longrightarrow> xs = ys"
proof (induction xs arbitrary: c ys)
  case Nil
  then show ?case by (cases ys) auto
next
  case (Cons d xs)
  then show ?case by (cases ys) auto
qed

lemma fat_path_distinct: "fat_path f cs \<Longrightarrow> distinct cs"
proof (induction cs)
  case (Cons c cs)
  have "c \<notin> set cs"
  proof
    assume "c \<in> set cs"
    then obtain xs ys where cs: "cs = xs @ c # ys" by (auto dest: split_list)
    then have "fat_path f (c # ys)" using Cons.prems fat_path_suffix [of f "c # xs"] by simp
    with Cons.prems have "cs = ys" by (rule fat_path_unique)
    then show False using cs by simp
  qed
  moreover have "distinct cs" using Cons by (cases cs) auto
  ultimately show ?case by simp
qed simp

lemma chain_atD:
  assumes "chain_at m c cs"
  shows "m_follow_chain m c 4096 = Ok cs" and "distinct cs" and "2 \<le> c"
    and "\<And>d. d \<in> set cs \<Longrightarrow> has_entry m d" and "\<And>d. d \<in> set cs \<Longrightarrow> in_data (as_read m) d"
    and "\<And>d. d \<in> set cs \<Longrightarrow> 2 \<le> d" and "\<And>d. d \<in> set cs \<Longrightarrow> fat_val m d \<noteq> 0"
proof -
  obtain tl where cs: "cs = c # tl" using assms by (cases cs) (auto simp: chain_at_def)
  show has: "\<And>d. d \<in> set cs \<Longrightarrow> has_entry m d" and ind: "\<And>d. d \<in> set cs \<Longrightarrow> in_data (as_read m) d"
    using assms by (auto simp: chain_at_def)
  show two: "\<And>d. d \<in> set cs \<Longrightarrow> 2 \<le> d" using ind in_data_bounds(3) by blast
  then show c: "2 \<le> c" using cs by simp
  have "take 4096 (c # tl) = c # tl" using assms cs by (intro take_all) (simp add: chain_at_def)
  then show "m_follow_chain m c 4096 = Ok cs"
    using m_follow_chain_path [of m c tl 4096] assms cs c has by (simp add: chain_at_def)
  show "distinct cs" using assms by (auto simp: chain_at_def intro: fat_path_distinct)
  show "\<And>d. d \<in> set cs \<Longrightarrow> fat_val m d \<noteq> 0"
    using assms by (auto simp: chain_at_def dest: fat_path_nonzero)
qed

lemma read_file_chain:
  assumes "chain_at m (e_first_cluster en) cs" "is_file en" "0 < unat (e_size en)"
  shows "read_file (as_read m) en = Ok (take (unat (e_size en)) (chain_bytes (as_read m) cs))"
  using assms chain_atD [OF assms(1)] by (intro read_file_spec) simp_all

lemma list_dir_chain:
  "chain_at m c cs \<Longrightarrow> list_dir_cluster (as_read m) c = Ok (listing (dir_slots (as_read m) cs))"
  by (intro list_dir_cluster_spec) (simp_all add: chain_atD)

subsection \<open>Operations that change some clusters only\<close>

definition same_but :: "u32 set \<Rightarrow> fat32_mut \<Rightarrow> fat32_mut \<Rightarrow> bool" where
  "same_but K m m' \<longleftrightarrow> same_shape m m' \<and>
     (\<forall>c. c \<notin> K \<longrightarrow> (has_entry m c \<longrightarrow> fat_val m' c = fat_val m c) \<and>
        (2 \<le> c \<longrightarrow> cluster_bytes (as_read m') c = cluster_bytes (as_read m) c))"

lemma same_but_refl [simp]: "same_but K m m"
  by (simp add: same_but_def)

lemma same_but_shape: "same_but K m m' \<Longrightarrow> same_shape m m'"
  by (simp add: same_but_def)

lemma same_but_mono: "same_but K m m' \<Longrightarrow> K \<subseteq> L \<Longrightarrow> same_but L m m'"
  unfolding same_but_def by blast

lemma same_but_trans:
  assumes "same_but K a b" "same_but L b c"
  shows "same_but (K \<union> L) a c"
proof -
  note ab = same_but_shape [OF assms(1)] and bc = same_but_shape [OF assms(2)]
  show ?thesis
    using assms same_shape_trans [OF ab bc] has_entry_same_shape [OF ab] by (simp add: same_but_def)
qed

lemma same_but_data: "data_frame C m m' \<Longrightarrow> (\<And>c. c \<in> C \<Longrightarrow> 2 \<le> c) \<Longrightarrow> same_but C m m'"
  unfolding same_but_def
  by (auto simp: data_frame_shape data_frame_fat intro: data_frame_cluster)

lemma same_but_fat:
  "outside_fat m m' \<Longrightarrow> (\<And>c. has_entry m c \<Longrightarrow> c \<notin> K \<Longrightarrow> fat_val m' c = fat_val m c) \<Longrightarrow>
     same_but K m m'"
  by (simp add: same_but_def outside_fat_shape outside_fat_cluster)

text \<open>A chain away from the changed clusters is kept, with its bytes and its slots.\<close>

lemma same_but_chain:
  assumes "same_but K m m'" "chain_at m c cs" "set cs \<inter> K = {}"
  shows "chain_at m' c cs" and "chain_bytes (as_read m') cs = chain_bytes (as_read m) cs"
    and "dir_slots (as_read m') cs = dir_slots (as_read m) cs"
    and "slot_places m' cs = slot_places m cs"
    and "\<And>p. p \<in> set (slot_places m cs) \<Longrightarrow> slot m' p = slot m p"
proof -
  note shape = same_but_shape [OF assms(1)] and cs = chain_atD [OF assms(2)]
  have val: "fat_val m' d = fat_val m d"
    and byt: "cluster_bytes (as_read m') d = cluster_bytes (as_read m) d" if "d \<in> set cs" for d
    using that assms(1,3) cs(4,6) by (auto simp: same_but_def)
  have path: "fat_path (fat_val m') cs"
    using assms(2) fat_path_cong [of cs "fat_val m'" "fat_val m", OF val] by (simp add: chain_at_def)
  show chain: "chain_at m' c cs"
    using assms(2) path by (simp add: chain_at_def has_entry_same_shape [OF shape] in_data_same_shape [OF shape])
  show "chain_bytes (as_read m') cs = chain_bytes (as_read m) cs"
    unfolding chain_bytes_def using byt by (simp cong: map_cong)
  show slots: "dir_slots (as_read m') cs = dir_slots (as_read m) cs"
    unfolding dir_slots_def using byt by (simp cong: map_cong)
  show places: "slot_places m' cs = slot_places m cs" by (rule slot_places_same_shape [OF shape])
  have "map (slot m') (slot_places m cs) = map (slot m) (slot_places m cs)"
    using slots dir_slots_places [of cs m, OF cs(5)] dir_slots_places [of cs m', OF chain_atD(5) [OF chain]]
    by (simp add: places)
  then show "\<And>p. p \<in> set (slot_places m cs) \<Longrightarrow> slot m' p = slot m p" by simp
qed

lemma data_frame_chain: "data_frame C m m' \<Longrightarrow> chain_at m c cs \<Longrightarrow> chain_at m' c cs"
proof -
  assume f: "data_frame C m m'" and c: "chain_at m c cs"
  note shape = data_frame_shape [OF f]
  have "fat_path (fat_val m') cs = fat_path (fat_val m) cs"
    by (rule fat_path_cong) (rule data_frame_fat [OF f chain_atD(4) [OF c]])
  then show "chain_at m' c cs"
    using c by (simp add: chain_at_def has_entry_same_shape [OF shape] in_data_same_shape [OF shape])
qed

subsection \<open>Releasing the old chain\<close>

lemma max_cluster_number_same_shape:
  assumes "same_shape m m'"
  shows "max_cluster_number pf m' = max_cluster_number pf m"
  unfolding max_cluster_number_def same_shapeD [OF assms] ..

lemma release_chain:
  assumes "chain_at m c cs"
  shows "\<exists>m'. free_chain c m = (Ok (), m') \<and> same_but (set cs) m m'
    \<and> (\<forall>d. has_entry m d \<longrightarrow> fat_val m' d = (if d \<in> set cs then 0 else fat_val m d))"
proof -
  obtain tl where cs: "cs = c # tl" using assms by (cases cs) (auto simp: chain_at_def)
  have all: "take 4096 cs = cs" using assms by (intro take_all) (simp add: chain_at_def)
  have path: "fat_path (fat_val m) cs" using assms by (simp add: chain_at_def)
  have has: "has_entry m d" if "d \<in> set (c # tl)" for d
    using that chain_atD(4) [OF assms] cs by simp
  obtain m' where "free_chain c m = (Ok (), m')" "fat_frame m m'"
    "\<forall>d. has_entry m d \<longrightarrow> fat_val m' d = (if d \<in> set cs then 0 else fat_val m d)"
    using free_chain_path [OF path [unfolded cs] chain_atD(3) [OF assms] has]
    unfolding cs [symmetric] all by blast
  then show ?thesis by (auto intro!: same_but_fat dest: fat_frame_outside)
qed

text \<open>Releasing clusters never lowers the number of free ones.\<close>

lemma length_filter_mono:
  "(\<And>x. x \<in> set xs \<Longrightarrow> P x \<Longrightarrow> Q x) \<Longrightarrow> length (filter P xs) \<le> length (filter Q xs)"
  by (induction xs) (auto simp: le_SucI)

lemma free_clusters_mono:
  assumes "max_cluster_number pf m = Ok mx" "mounted m"
    and "\<And>d. has_entry m d \<Longrightarrow> fat_val m d = 0 \<Longrightarrow> fat_val m' d = 0"
  shows "length (free_clusters m mx) \<le> length (free_clusters m' mx)"
  unfolding free_clusters_def
  using max_cluster_has_entry [OF assms(1,2)] assms(3) by (intro length_filter_mono) auto

text \<open>And it frees at most the released ones.\<close>

lemma free_clusters_release:
  assumes "max_cluster_number pf m = Ok mx" "mounted m"
    and "\<And>d. has_entry m d \<Longrightarrow> fat_val m' d = (if d \<in> set fs then 0 else fat_val m d)"
  shows "length (free_clusters m' mx) \<le> length (free_clusters m mx) + length fs"
proof -
  have "set (free_clusters m' mx) \<subseteq> set (free_clusters m mx) \<union> set fs"
    using max_cluster_has_entry [OF assms(1,2)] assms(3) by (auto simp: free_clusters_def split: if_splits)
  then have "card (set (free_clusters m' mx)) \<le> card (set (free_clusters m mx) \<union> set fs)"
    by (intro card_mono) auto
  also have "\<dots> \<le> card (set (free_clusters m mx)) + card (set fs)" by (rule card_Un_le)
  also have "\<dots> \<le> length (free_clusters m mx) + length fs" by (intro add_mono card_length)
  finally show ?thesis by (simp add: distinct_card)
qed

text \<open>A released file can no longer be read.\<close>

lemma read_file_released:
  assumes "has_entry m (e_first_cluster en)" "fat_val m (e_first_cluster en) = 0"
    and "is_file en" "e_size en \<noteq> 0" "2 \<le> e_first_cluster en"
  shows "read_file (as_read m) en = Err InvalidCluster"
proof -
  have "m_follow_loop m (Suc k) (e_first_cluster en) [] = Err InvalidCluster" for k
    using assms(1,2) by (simp add: read_fat_entry_val)
  from this [of 4095] have "m_follow_chain m (e_first_cluster en) 4096 = Err InvalidCluster"
    using assms(5) by (simp add: m_follow_chain_def)
  then show ?thesis using assms(3-5) by (simp add: read_file_def Let_def not_less unat_eq_zero)
qed

subsection \<open>Storing the content\<close>

lemma max_cluster_in_data:
  assumes "max_cluster_number pf m = Ok mx" "mounted m" "c \<in> set (clusters_upto mx)"
  shows "in_data (as_read m) c"
  using max_cluster_number_bounds(2) [OF assms(1), of c] assms(2,3) mounted_cluster_size [OF assms(2)]
  by (simp add: set_clusters_upto in_data_def)

lemma free_clusters_upto: "c \<in> set (free_clusters m mx) \<Longrightarrow> c \<in> set (clusters_upto mx)"
  by (simp add: free_clusters_def)

text \<open>Storing a content that there are clusters for, of any length; up to 4096 clusters the driver can follow.\<close>

lemma store_content_run:
  assumes mx: "max_cluster_number pf m = Ok mx" "mx < 0x0FFFFFF8" and m: "mounted m"
    and ne: "content \<noteq> []"
  defines "k \<equiv> div_ceil (length content) (m_cluster_size m)"
  defines "ks \<equiv> take k (free_clusters m mx)"
  assumes room: "k \<le> length (free_clusters m mx)"
  shows "\<exists>m' fc. store_content pf content m = (Ok fc, m') \<and> same_but (set ks) m m'
    \<and> take (length content) (chain_bytes (as_read m') ks) = content
    \<and> (\<forall>c\<in>set ks. fat_val m' c \<noteq> 0) \<and> (k \<le> 4096 \<longrightarrow> chain_at m' fc ks)"
proof -
  have cs: "0 < m_cluster_size m" by (rule mounted_cluster_size [OF m])
  have k: "0 < k" unfolding k_def using ne cs by (intro div_ceil_pos) auto
  obtain m1 where m1: "alloc_chain pf k m = (Ok ks, m1)" "fat_frame m m1" "fat_path (fat_val m1) ks"
    "\<forall>c. has_entry m c \<longrightarrow> c \<notin> set ks \<longrightarrow> fat_val m1 c = fat_val m c"
    unfolding ks_def using alloc_chain_path [OF mx(1) m k room mx(2)] by blast
  note s1 = fat_frame_shape [OF m1(2)]
  have up: "c \<in> set (clusters_upto mx)" if "c \<in> set ks" for c
    using that unfolding ks_def by (auto dest: in_set_takeD free_clusters_upto)
  have ind: "in_data (as_read m1) c" and has: "has_entry m c" and two: "2 \<le> c" if "c \<in> set ks" for c
    using up [OF that] max_cluster_in_data [OF mx(1) m] max_cluster_has_entry [OF mx(1) m]
    by (auto simp: in_data_same_shape [OF s1] set_clusters_upto)
  have len: "length ks = k" using room by (simp add: ks_def)
  have "length content \<le> length ks * m_cluster_size m1"
    unfolding len k_def same_shapeD(2) [OF s1] by (rule div_ceil_covers(1) [OF cs])
  then obtain m2 where m2: "write_chain_data ks content m1 = (Ok (), m2)" "data_frame (set ks) m1 m2"
    "take (length content) (chain_bytes (as_read m2) ks) = content"
    using write_chain_data_spec [OF ind, of ks content] by (auto simp: ks_def)
  have ne': "ks \<noteq> []" using len k by auto
  have "same_but (set ks) m m1"
    using m1(2,4) by (intro same_but_fat) (auto dest: fat_frame_outside)
  moreover have "same_but (set ks) m1 m2" using m2(2) two by (rule same_but_data)
  ultimately have same: "same_but (set ks) m m2" by (auto dest: same_but_trans)
  have "chain_at m1 (hd ks) ks" if "k \<le> 4096"
    using m1(3) ne' len that has ind by (simp add: chain_at_def has_entry_same_shape [OF s1])
  then have chain: "k \<le> 4096 \<longrightarrow> chain_at m2 (hd ks) ks" using data_frame_chain [OF m2(2)] by blast
  have nonzero: "fat_val m2 c \<noteq> 0" if "c \<in> set ks" for c
    using fat_path_nonzero [OF m1(3) that] data_frame_fat [OF m2(2), of c] has [OF that]
    by (simp add: has_entry_same_shape [OF s1])
  have "store_content pf content m = (Ok (hd ks), m2)"
    using ne m1(1) m2(1) ne' by (cases ks) (simp_all add: store_content_def Let_def k_def)
  with same chain nonzero m2(3) show ?thesis by blast
qed

subsection \<open>The chains of the test volume\<close>

lemma chain_at_test_volume:
  "chain_at test_volume 2 [2]" "chain_at test_volume 3 [3]" "chain_at test_volume 4 [4]"
  by (simp_all add: chain_at_def test_volume_entries has_entry_test_volume in_data_def)

lemma cluster_bytes_test_volume:
  "cluster_bytes (as_read test_volume) 3 = bytes ''HELLO'' @ replicate 507 0"
proof -
  have "window build_test_image 1536 512 = patch (replicate 512 0) 0 [0x48, 0x45, 0x4C, 0x4C, 0x4F]"
    by (simp add: window_image image_eval)
  then show ?thesis
    by (simp add: cluster_bytes_window cluster_at_def patch_def image_bytes)
qed

subsection \<open>Properties\<close>

text \<open>Listing a directory shows, in order, the entries its 32-byte slots parse to, over all clusters
  of its chain, up to the first slot that begins with a zero byte and nothing after it.\<close>

theorem list_dir_spec:
  assumes "chain_at m c cs"
  shows "list_dir_cluster (as_read m) c
    = Ok (List.map_filter parse (takeWhile (\<lambda>s. s ! 0 \<noteq> 0) (dir_slots (as_read m) cs)))"
  using list_dir_chain [OF assms] by (simp add: listing_def live_def [abs_def])

theorem list_dir_spec_witness:
  "\<exists>es. list_dir_cluster (as_read test_volume) 4 = Ok es
    \<and> es = List.map_filter parse (takeWhile (\<lambda>s. s ! 0 \<noteq> 0) (dir_slots (as_read test_volume) [4]))"
  using list_dir_spec [OF chain_at_test_volume(3)] by simp

text \<open>Reading a file returns the bytes of its chain, cut at the size of its entry. When the chain is
  shorter than the size, the result is shorter, and no error reports it.\<close>

theorem read_file_contents:
  assumes "chain_at m (e_first_cluster en) cs" "is_file en" "e_size en \<noteq> 0"
  shows "\<exists>data. read_file (as_read m) en = Ok data
    \<and> data = take (unat (e_size en)) (concat (map (cluster_bytes (as_read m)) cs))
    \<and> length data = min (unat (e_size en)) (length cs * m_cluster_size m)"
proof -
  have "0 < unat (e_size en)" using assms(3) by (simp add: unat_gt_0)
  then show ?thesis
    using read_file_chain [OF assms(1,2)] length_chain_bytes [of cs "as_read m"] chain_atD(5) [OF assms(1)]
    by (simp add: chain_bytes_def min.commute)
qed

theorem read_file_contents_witness:
  "\<exists>en. is_file en \<and> read_file (as_read test_volume) en = Ok (bytes ''HELLO'')"
proof -
  define en where "en = \<lparr>e_name = bytes ''HELLO.TXT'', e_attrs = from_byte 0x20,
    e_first_cluster = 3, e_size = 5\<rparr>"
  have en: "chain_at test_volume (e_first_cluster en) [3]" "is_file en" "e_size en \<noteq> 0"
    using chain_at_test_volume(2) by (simp_all add: en_def is_file_def from_byte_def)
  have "read_file (as_read test_volume) en = Ok (bytes ''HELLO'')"
    using read_file_contents [OF en] cluster_bytes_test_volume by (simp add: en_def)
  with en(2) show ?thesis by blast
qed

end
