(* ===== verification/Write_Entry.thy ===== *)
theory Write_Entry
  imports Chain_Frame
begin

text \<open>
  Writing a directory entry: the 32 bytes the driver stores, what parsing them gives back, and how
  the list of slots of the directory changes.
\<close>

subsection \<open>The stored bytes\<close>

lemma two_bytes: "length bs = 2 \<Longrightarrow> [bs ! 0, bs ! 1] = bs"
  by (auto simp: numeral_eq_Suc length_Suc_conv)

text \<open>Assignments that fill a buffer from the left.\<close>

lemma patch_next:
  "length pre = a \<Longrightarrow> length ys = k \<Longrightarrow> patch (pre @ drop a xs) a ys = (pre @ ys) @ drop (a + k) xs"
  by (simp add: patch_def add.commute)

lemma update_next:
  "length pre = a \<Longrightarrow> a < length xs \<Longrightarrow> (pre @ drop a xs)[a := x] = (pre @ [x]) @ drop (a + 1) xs"
  by (simp add: list_update_append Cons_nth_drop_Suc [symmetric])

lemma fill_entry_bytes:
  assumes "length e0 = 32" "length n = 8" "length e = 3"
  shows "fill_entry e0 n e cl sz
    = n @ e @ [0x20] @ replicate 8 0 @ u16_to_le (ucast (drop_bit 16 cl)) @ replicate 4 0
      @ u16_to_le (ucast (cl AND 0xFFFF)) @ u32_to_le sz"
proof -
  define hi where "hi = u16_to_le (ucast (drop_bit 16 cl))"
  define lo where "lo = u16_to_le (ucast (cl AND 0xFFFF))"
  have hi: "[hi ! 0, hi ! 1] = hi" and lo: "[lo ! 0, lo ! 1] = lo"
    by (rule two_bytes, simp add: hi_def lo_def)+
  define b1 where "b1 = n @ e @ [0x20]"
  define b2 where "b2 = b1 @ replicate 8 0 @ hi"
  define b3 where "b3 = b2 @ replicate 4 0 @ lo"
  have len: "length b1 = 12" "length b2 = 22" "length b3 = 28"
    using assms(2,3) by (simp_all add: b1_def b2_def b3_def hi_def lo_def)
  have "(patch (patch e0 0 n) 8 e)[11 := 0x20] = b1 @ drop 12 e0"
    using patch_next [of "[]" 0 n 8 e0] patch_next [of n 8 e 3 e0] update_next [of "n @ e" 11 e0 "0x20"]
      assms by (simp add: b1_def)
  moreover have "(patch (b1 @ drop 12 e0) 12 (replicate 8 0))[20 := hi ! 0, 21 := hi ! 1]
      = b2 @ drop 22 e0"
    using patch_next [of b1 12 "replicate 8 0" 8 e0] len assms(1) hi
      update_next [of "b1 @ replicate 8 0" 20 e0 "hi ! 0"]
      update_next [of "b1 @ replicate 8 0 @ [hi ! 0]" 21 e0 "hi ! 1"]
    by (simp add: b2_def)
  moreover have "(patch (b2 @ drop 22 e0) 22 (replicate 4 0))[26 := lo ! 0, 27 := lo ! 1]
      = b3 @ drop 28 e0"
    using patch_next [of b2 22 "replicate 4 0" 4 e0] len assms(1) lo
      update_next [of "b2 @ replicate 4 0" 26 e0 "lo ! 0"]
      update_next [of "b2 @ replicate 4 0 @ [lo ! 0]" 27 e0 "lo ! 1"]
    by (simp add: b3_def)
  moreover have "patch (b3 @ drop 28 e0) 28 (u32_to_le sz) = b3 @ u32_to_le sz"
    using patch_next [of b3 28 "u32_to_le sz" 4 e0] len assms(1) by simp
  ultimately have "fill_entry e0 n e cl sz = b3 @ u32_to_le sz"
    by (simp add: fill_entry_def Let_def hi_def [symmetric] lo_def [symmetric])
  then show ?thesis by (simp add: b3_def b2_def b1_def hi_def lo_def)
qed

lemma fill_entry_fields:
  assumes "length e0 = 32" "length n = 8" "length e = 3"
    and s_def: "s = fill_entry e0 n e cl sz"
  shows "s ! 0 = n ! 0" and "s ! 11 = 0x20" and "window s 0 8 = n" and "window s 8 3 = e"
    and "[s ! 20, s ! 21] = u16_to_le (ucast (drop_bit 16 cl))"
    and "[s ! 26, s ! 27] = u16_to_le (ucast (cl AND 0xFFFF))"
    and "[s ! 28, s ! 29, s ! 30, s ! 31] = u32_to_le sz"
  unfolding s_def fill_entry_bytes [OF assms(1-3)]
  using assms(2,3) two_bytes [of "u16_to_le (ucast (drop_bit 16 cl))"]
    two_bytes [of "u16_to_le (ucast (cl AND 0xFFFF))"] four_bytes [of "u32_to_le sz"]
  by (simp_all add: nth_append window_def)

text \<open>What a listing shows for the entry.\<close>

definition file_entry :: "u8 list \<Rightarrow> u8 list \<Rightarrow> u32 \<Rightarrow> u32 \<Rightarrow> dir_entry" where
  "file_entry n e cl sz =
     \<lparr>e_name = short_name n e, e_attrs = from_byte 0x20, e_first_cluster = cl, e_size = sz\<rparr>"

lemma file_entry_simps [simp]:
  "e_name (file_entry n e cl sz) = short_name n e" "e_first_cluster (file_entry n e cl sz) = cl"
  "e_size (file_entry n e cl sz) = sz" "is_file (file_entry n e cl sz)"
  by (simp_all add: file_entry_def is_file_def from_byte_def)

lemma parse_fill_entry:
  assumes "length e0 = 32" "length n = 8" "length e = 3" "n ! 0 \<noteq> 0" "n ! 0 \<noteq> 0xE5"
  shows "parse (fill_entry e0 n e cl sz) = Some (file_entry n e cl sz)"
proof -
  note f = fill_entry_fields [OF assms(1-3) refl, of cl sz]
  have "\<not> volume_id (from_byte 0x20)" by (simp add: from_byte_def)
  then show ?thesis
    using f assms by (simp add: parse_def Let_def length_fill_entry cluster_halves file_entry_def
        short_name_def)
qed

subsection \<open>One slot of the directory is replaced\<close>

lemma slot_length:
  assumes "p \<in> set (slot_places m cls)" "\<And>c. c \<in> set cls \<Longrightarrow> in_data (as_read m) c"
  shows "fst p + 32 \<le> length (m_disk m)" and "length (slot m p) = 32"
proof -
  obtain c where c: "c \<in> set cls" "p \<in> set (cluster_places m c)"
    using slot_places_cluster [OF assms(1)] by blast
  show "fst p + 32 \<le> length (m_disk m)"
    using cluster_places_bounds [OF c(2)] in_data_bounds(2) [OF assms(2) [OF c(1)]] by linarith
  then show "length (slot m p) = 32" by (simp add: slot_def)
qed

lemma write_entry_slot:
  assumes places: "slot_places m cls = pre @ p # post" and dist: "distinct cls"
    and ind: "\<And>c. c \<in> set cls \<Longrightarrow> in_data (as_read m) c"
    and len: "length n = 8" "length e = 3"
  shows "\<exists>m'. write_dir_entry_at_offset (fst p) n e cl sz m = (Ok (), m') \<and> data_frame (set cls) m m'
    \<and> slot m' p = fill_entry (slot m p) n e cl sz
    \<and> (\<forall>q\<in>set pre \<union> set post. slot m' q = slot m q)"
proof -
  have p: "p \<in> set (slot_places m cls)" using places by simp
  have two: "\<And>c. c \<in> set cls \<Longrightarrow> 2 \<le> c" using ind in_data_bounds(3) by blast
  note bound = slot_length [OF p ind]
  let ?ys = "fill_entry (slot m p) n e cl sz"
  let ?m' = "m\<lparr>m_disk := patch (m_disk m) (fst p) ?ys\<rparr>"
  have ys: "length ?ys = 32" using bound(2) len by (rule length_fill_entry)
  have run: "write_dir_entry_at_offset (fst p) n e cl sz m = (Ok (), ?m')"
    using bound(1) ys by (simp add: write_dir_entry_at_offset_def put_bytes_Ok slot_def)
  obtain c where c: "c \<in> set cls" "p \<in> set (cluster_places m c)"
    using slot_places_cluster [OF p] by blast
  have "data_frame {c} m ?m'"
    using cluster_places_bounds [OF c(2)] in_data_bounds(2) [OF ind [OF c(1)]] ys
    by (intro data_frame_patch) auto
  then have frame: "data_frame (set cls) m ?m'" using c(1) by (auto intro: data_frame_mono)
  have same: "slot ?m' p = ?ys"
    using window_patch_same [of "fst p" ?ys "m_disk m"] bound(1) ys by (simp add: slot_def)
  have "slot ?m' q = slot m q" if "q \<in> set pre \<union> set post" for q
  proof -
    have "fst q + 32 \<le> fst p \<or> fst p + 32 \<le> fst q"
      using that places_split [OF places dist two] cluster_places_bounds [OF c(2)] by fastforce
    then show ?thesis
      using bound(1) ys by (simp add: slot_def window_patch_disjoint)
  qed
  with run frame same show ?thesis by blast
qed

text \<open>The end mark after the entry: it falls on a later slot or on the tail of the cluster.\<close>

lemma end_mark:
  assumes places: "slot_places m cls = pre @ p # post" and dist: "distinct cls"
    and ind: "\<And>c. c \<in> set cls \<Longrightarrow> in_data (as_read m) c"
    and room: "fst p + 32 < snd p"
  shows "\<exists>m'. put_bytes (fst p + 32) [0] m = (Ok (), m') \<and> data_frame (set cls) m m'
    \<and> (\<forall>q\<in>set (pre @ [p]). slot m' q = slot m q)
    \<and> (\<forall>q. fst q = fst p + 32 \<longrightarrow> \<not> live (slot m' q))
    \<and> (\<forall>q\<in>set post. slot m' q = slot m q \<or> \<not> live (slot m' q))"
proof -
  have p: "p \<in> set (slot_places m cls)" using places by simp
  have two: "\<And>c. c \<in> set cls \<Longrightarrow> 2 \<le> c" using ind in_data_bounds(3) by blast
  obtain c where c: "c \<in> set cls" "p \<in> set (cluster_places m c)"
    using slot_places_cluster [OF p] by blast
  note b = cluster_places_bounds [OF c(2)] and disk = in_data_bounds(2) [OF ind [OF c(1)]]
  let ?m' = "m\<lparr>m_disk := patch (m_disk m) (fst p + 32) [0]\<rparr>"
  have in_disk: "fst p + 32 + length [0 :: u8] \<le> length (m_disk m)" using b disk room by simp
  have run: "put_bytes (fst p + 32) [0] m = (Ok (), ?m')" by (rule put_bytes_Ok [OF in_disk])
  have "data_frame {c} m ?m'" using b disk room by (intro data_frame_patch) auto
  then have frame: "data_frame (set cls) m ?m'" using c(1) by (auto intro: data_frame_mono)
  have "slot ?m' q = slot m q" if "q \<in> set (pre @ [p])" for q
  proof -
    have "q = p \<or> fst q + 32 \<le> fst p \<or> snd p \<le> fst q"
      using that places_split(1) [OF places dist two, of q] by (cases "q = p") simp_all
    then show ?thesis
      using window_patch_disjoint [OF in_disk, of "fst q" 32] room
      by (auto simp: slot_def)
  qed
  moreover have ended: "\<not> live (slot ?m' q)" if "fst q = fst p + 32" for q
    using in_disk that by (simp add: slot_def live_def window_def nth_patch)
  moreover have "slot ?m' q = slot m q \<or> \<not> live (slot ?m' q)" if "q \<in> set post" for q
  proof (cases "fst q = fst p + 32")
    case False
    then have "fst q + 32 \<le> fst p + 32 \<or> fst p + 33 \<le> fst q"
      using places_split(2) [OF places dist two that] by linarith
    then show ?thesis using window_patch_disjoint [OF in_disk, of "fst q" 32] by (auto simp: slot_def)
  qed (simp add: ended)
  ultimately show ?thesis using run frame by blast
qed

subsection \<open>Writing the entry into the directory\<close>

text \<open>
  The slot that is written: the old entry's, or the first one that is not in use. No slot before it
  is free, ends the directory or holds the name.
\<close>

lemma live_used: "used s \<Longrightarrow> live s"
  by (simp add: used_def live_def)

text \<open>
  \<open>m'\<close> is \<open>m\<close> with the entry written in place \<open>p\<close> of the directory: the slots before it are live, do
  not hold the name and are kept. Those after it are kept too, unless \<open>p\<close> was the end of the directory;
  then the next slot is the new end, when there is one in the same cluster, and the others are kept.
\<close>

definition entry_written ::
  "fat32_mut \<Rightarrow> fat32_mut \<Rightarrow> u32 list \<Rightarrow> u8 list \<Rightarrow> u8 list \<Rightarrow> u32 \<Rightarrow> u32 \<Rightarrow>
     (nat \<times> nat) list \<Rightarrow> nat \<times> nat \<Rightarrow> (nat \<times> nat) list \<Rightarrow> bool" where
  "entry_written m m' cls n e cl sz pre p post \<longleftrightarrow>
     data_frame (set cls) m m' \<and> slot_places m cls = pre @ p # post
     \<and> slot m' p = fill_entry (slot m p) n e cl sz
     \<and> (\<forall>q\<in>set pre. slot m' q = slot m q \<and> live (slot m q) \<and> \<not> matches n e (slot m q))
     \<and> (live (slot m p) \<longrightarrow> (\<forall>q\<in>set post. slot m' q = slot m q))
     \<and> (\<forall>q\<in>set post. slot m' q = slot m q \<or> \<not> live (slot m' q))
     \<and> (\<not> live (slot m p) \<longrightarrow> Suc (length pre) mod (m_cluster_size m div 32) \<noteq> 0 \<longrightarrow>
          post \<noteq> [] \<and> \<not> live (slot m' (hd post)))"

lemma update_old_entry:
  assumes dir: "chain_at m dir cls" and len: "length n = 8" "length e = 3"
    and find: "find_slot m n e (slot_places m cls) = Some (Some o', old)"
  shows "\<exists>m' pre p post. update_entry dir (Some o') n e cl sz m = (Ok (), m')
    \<and> entry_written m m' cls n e cl sz pre p post \<and> live (slot m p) \<and> old = parse (slot m p)"
proof -
  note ch = chain_atD [OF dir]
  from find_slot_Some [OF find] obtain pre p post where
    p: "slot_places m cls = pre @ p # post" "o' = fst p" "old = parse (slot m p)" "live (slot m p)"
    "\<forall>q\<in>set pre. live (slot m q) \<and> \<not> matches n e (slot m q)"
    by blast
  obtain m' where m': "write_dir_entry_at_offset (fst p) n e cl sz m = (Ok (), m')"
    "data_frame (set cls) m m'" "slot m' p = fill_entry (slot m p) n e cl sz"
    "\<forall>q\<in>set pre \<union> set post. slot m' q = slot m q"
    using write_entry_slot [OF p(1) ch(2,5) len] by blast
  have "update_entry dir (Some o') n e cl sz m = (Ok (), m')"
    using m'(1) p(2) by (simp add: update_entry_def)
  moreover have "entry_written m m' cls n e cl sz pre p post"
    using m' p by (simp add: entry_written_def)
  ultimately show ?thesis using p(3,4) by blast
qed

text \<open>The slot a new entry takes is the first that is not in use.\<close>

lemma new_entry_place:
  assumes dir: "chain_at m dir cls"
    and none: "find_slot m n e (slot_places m cls) = None
      \<or> find_slot m n e (slot_places m cls) = Some (None, old)"
    and room: "\<exists>p\<in>set (slot_places m cls). \<not> used (slot m p)"
  obtains pre p post where "slot_places m cls = pre @ p # post"
    "find_free_dir_entry_slot m dir = Ok (fst p, \<not> live (slot m p), snd p)" "\<not> used (slot m p)"
    "\<forall>q\<in>set pre. live (slot m q) \<and> \<not> matches n e (slot m q)" "\<forall>q\<in>set pre. used (slot m q)"
proof -
  note ch = chain_atD [OF dir]
  obtain o' w ende where free: "free_slot m (slot_places m cls) = Some (o', w, ende)"
    using room free_slot_None [of m "slot_places m cls"]
    by (cases "free_slot m (slot_places m cls)") auto
  from free_slot_Some [OF free] obtain pre p post where
    p: "slot_places m cls = pre @ p # post" "o' = fst p" "ende = snd p"
    "\<forall>q\<in>set pre. used (slot m q)" "\<not> used (slot m p)" "w = (\<not> live (slot m p))"
    by blast
  have "find_free_dir_entry_slot m dir = Ok (fst p, \<not> live (slot m p), snd p)"
    using ch(1) free_slot_loop_spec [of cls m, OF ch(5)] free p(2,3,6)
    by (simp add: find_free_dir_entry_slot_def)
  moreover have "live (slot m q) \<and> \<not> matches n e (slot m q)" if "q \<in> set pre" for q
  proof -
    have "q \<in> set (takeWhile (\<lambda>p. live (slot m p)) (slot_places m cls))"
      using that p(1,4) by (simp add: live_used takeWhile_append)
    with none find_slot_None that p(4) show ?thesis by (auto simp: live_used)
  qed
  ultimately show thesis using that p(1,4,5) by blast
qed

lemma update_new_entry:
  assumes dir: "chain_at m dir cls" and len: "length n = 8" "length e = 3"
    and none: "find_slot m n e (slot_places m cls) = None
      \<or> find_slot m n e (slot_places m cls) = Some (None, old)"
    and room: "\<exists>p\<in>set (slot_places m cls). \<not> used (slot m p)"
  shows "\<exists>m' pre p post. update_entry dir None n e cl sz m = (Ok (), m')
    \<and> entry_written m m' cls n e cl sz pre p post \<and> \<not> used (slot m p) \<and> (\<forall>q\<in>set pre. used (slot m q))"
proof -
  note ch = chain_atD [OF dir]
  obtain pre p post where p: "slot_places m cls = pre @ p # post"
    "find_free_dir_entry_slot m dir = Ok (fst p, \<not> live (slot m p), snd p)" "\<not> used (slot m p)"
    "\<forall>q\<in>set pre. live (slot m q) \<and> \<not> matches n e (slot m q)" "\<forall>q\<in>set pre. used (slot m q)"
    using new_entry_place [OF dir none room] by blast
  obtain m1 where m1: "write_dir_entry_at_offset (fst p) n e cl sz m = (Ok (), m1)"
    "data_frame (set cls) m m1" "slot m1 p = fill_entry (slot m p) n e cl sz"
    "\<forall>q\<in>set pre \<union> set post. slot m1 q = slot m q"
    using write_entry_slot [OF p(1) ch(2,5) len] by blast
  show ?thesis
  proof (cases "\<not> live (slot m p) \<and> fst p + 32 < snd p")
    case True
    note shape = data_frame_shape [OF m1(2)]
    have places1: "slot_places m1 cls = pre @ p # post"
      using p(1) slot_places_same_shape [OF shape] by simp
    obtain m' where m': "put_bytes (fst p + 32) [0] m1 = (Ok (), m')" "data_frame (set cls) m1 m'"
      "\<forall>q\<in>set (pre @ [p]). slot m' q = slot m1 q" "\<forall>q. fst q = fst p + 32 \<longrightarrow> \<not> live (slot m' q)"
      "\<forall>q\<in>set post. slot m' q = slot m1 q \<or> \<not> live (slot m' q)"
      using end_mark [OF places1 ch(2)] ch(5) in_data_same_shape [OF shape] True by blast
    have "update_entry dir None n e cl sz m = (Ok (), m')"
      using p(2) m1(1) m'(1) True by (simp add: update_entry_def Let_def)
    moreover have "post \<noteq> [] \<and> \<not> live (slot m' (hd post))"
      if "Suc (length pre) mod (m_cluster_size m div 32) \<noteq> 0"
      using places_next [OF p(1) that] m'(4) by fastforce
    then have "entry_written m m' cls n e cl sz pre p post"
      using m1 m' p True data_frame_trans [OF m1(2) m'(2)] by (auto simp: entry_written_def)
    ultimately show ?thesis using p(3,5) by blast
  next
    case False
    have "update_entry dir None n e cl sz m = (Ok (), m1)"
      using p(2) m1(1) False by (auto simp: update_entry_def Let_def)
    moreover have "live (slot m p) \<or> Suc (length pre) mod (m_cluster_size m div 32) = 0"
      using places_next [OF p(1)] False by fastforce
    then have "entry_written m m1 cls n e cl sz pre p post"
      using m1 p by (auto simp: entry_written_def)
    ultimately show ?thesis using p(3,5) by blast
  qed
qed

lemma update_entry_spec:
  assumes dir: "chain_at m dir cls" and len: "length n = 8" "length e = 3"
    and found: "find_dir_entry_offset_by_short_name m dir n e = Ok (off, old)"
    and room: "off = None \<Longrightarrow> \<exists>p\<in>set (slot_places m cls). \<not> used (slot m p)"
  shows "\<exists>m' pre p post. update_entry dir off n e cl sz m = (Ok (), m')
    \<and> entry_written m m' cls n e cl sz pre p post
    \<and> (if off = None then \<not> used (slot m p) \<and> (\<forall>q\<in>set pre. used (slot m q)) \<and> old = None else live (slot m p) \<and> old = parse (slot m p))"
proof -
  note ch = chain_atD [OF dir]
  have find: "(case find_slot m n e (slot_places m cls) of None \<Rightarrow> (None, None) | Some r \<Rightarrow> r) = (off, old)"
    using found ch(1) find_entry_loop_spec [of cls m n e, OF ch(5)]
    by (simp add: find_dir_entry_offset_by_short_name_def)
  show ?thesis
  proof (cases off)
    case (Some o')
    then have "find_slot m n e (slot_places m cls) = Some (Some o', old)"
      using find by (cases "find_slot m n e (slot_places m cls)") auto
    with update_old_entry [OF dir len] Some show ?thesis by fastforce
  next
    case None
    then have none: "find_slot m n e (slot_places m cls) = None
        \<or> find_slot m n e (slot_places m cls) = Some (None, old)"
      and "old = None"
      using find find_slot_offset_None by (cases "find_slot m n e (slot_places m cls)"; fastforce)+
    with update_new_entry [OF dir len none room] None show ?thesis by simp
  qed
qed

subsection \<open>Properties\<close>

text \<open>C14: The 32 bytes \<^verbatim>\<open>write_dir_entry_at_offset\<close> stores parse back to what was written: the name the
  raw bytes show, the archive attribute (a file), the first cluster with both its halves, and the
  size; none of it depends on what the slot held before.\<close>

theorem entry_roundtrip:
  assumes "length e0 = 32" "length n = 8" "length e = 3" "n ! 0 \<noteq> 0" "n ! 0 \<noteq> 0xE5"
  shows "parse (fill_entry e0 n e cl sz)
    = Some \<lparr>e_name = short_name n e, e_attrs = from_byte 0x20, e_first_cluster = cl, e_size = sz\<rparr>"
  using parse_fill_entry [OF assms] by (simp add: file_entry_def)

theorem entry_roundtrip_witness:
  "\<exists>en. parse (fill_entry (replicate 32 0xFF) (bytes ''NEW     '') (bytes ''TXT'') 0x12345 700) = Some en
    \<and> e_name en = bytes ''NEW.TXT'' \<and> e_first_cluster en = 0x12345 \<and> e_size en = 700 \<and> is_file en"
proof -
  have len: "length (replicate 32 0xFF :: u8 list) = 32" "length (bytes ''NEW     '') = 8"
    "length (bytes ''TXT'') = 3" by simp_all
  have first: "bytes ''NEW     '' ! 0 \<noteq> 0" "bytes ''NEW     '' ! 0 \<noteq> 0xE5"
    and name: "short_name (bytes ''NEW     '') (bytes ''TXT'') = bytes ''NEW.TXT''"
    by code_simp+
  show ?thesis
    using entry_roundtrip [OF len first, of "0x12345" 700] name by (simp add: is_file_def from_byte_def)
qed

end
