(* ===== verification/Write_Read.thy ===== *)
theory Write_Read
  imports Write_Entry
begin

text \<open>
  The composition of \<^verbatim>\<open>write_file_by_path\<close>: on a consistent directory with room, the write succeeds,
  the directory then shows the new entry under the written name, and the file it points to has the
  written content; everything else on the volume is as before.
\<close>

subsection \<open>Names in a listing\<close>

text \<open>
  A slot is canonical when its raw name is upper-case ASCII, without a dot but in the special entries
  that begin with one. The driver writes no other slots; a slot with lower-case letters would be
  found by \<^verbatim>\<open>open_path\<close> under the name of an upper-case one.
\<close>

definition canonical :: "u8 list \<Rightarrow> bool" where
  "canonical s \<longleftrightarrow>
     (\<forall>b\<in>set (window s 0 8) \<union> set (window s 8 3). b < 0x80 \<and> ascii_upper b = b)
     \<and> (s ! 0 = dot \<or> dot \<notin> set (window s 0 8) \<and> dot \<notin> set (window s 8 3))"

lemma decode_take: "ascii bs \<Longrightarrow> set (decode_ascii_trim bs) \<subseteq> set bs"
  by (auto simp: decode_ascii dest: in_set_takeD)

lemma normalize_fixed: "(\<And>b. b \<in> set s \<Longrightarrow> ascii_upper b = b) \<Longrightarrow> normalize_name s = s"
  by (simp add: normalize_name_def map_idI)

lemma short_name_fixed:
  assumes "\<And>b. b \<in> set n \<union> set e \<Longrightarrow> b < 0x80 \<and> ascii_upper b = b"
  shows "normalize_name (short_name n e) = short_name n e"
proof -
  have a: "ascii n" "ascii e" using assms by (auto simp: ascii_def)
  have "normalize_name (decode_ascii_trim n) = decode_ascii_trim n"
    "normalize_name (decode_ascii_trim e) = decode_ascii_trim e"
    using assms decode_take [OF a(1)] decode_take [OF a(2)] by (auto intro!: normalize_fixed)
  then show ?thesis by (simp add: short_name_def Let_def)
qed

lemma encode_canonical:
  assumes "encode_short_name_8_3 nm = Ok (n, e)"
  shows "b \<in> set n \<union> set e \<Longrightarrow> b < 0x80 \<and> ascii_upper b = b" and "dot \<notin> set n" and "dot \<notin> set e"
proof -
  obtain base ext where parts: "name_parts nm = (base, ext)" by fastforce
  have v: "valid_8_3 nm" and n: "n = pad_to 8 (normalize_name base)"
    and e: "e = pad_to 3 (normalize_name ext)"
    using assms parts by (auto simp: encode_eq split: if_splits)
  have up: "b < 0x80 \<and> ascii_upper b = b" if "b \<in> set (normalize_name s)" "ascii s" for b s
    using that ascii_normalize [OF that(2)] by (auto simp: normalize_name_def ascii_def)
  have sp: "ascii_upper space = space" by simp
  show "b \<in> set n \<union> set e \<Longrightarrow> b < 0x80 \<and> ascii_upper b = b"
    using up v parts sp unfolding n e by (auto simp: valid_8_3_def pad_to_def)
  show "dot \<notin> set n" "dot \<notin> set e"
    using v parts unfolding n e by (auto simp: valid_8_3_def pad_to_def)
qed

text \<open>The driver writes canonical slots.\<close>

lemma fill_canonical:
  assumes "length e0 = 32" "encode_short_name_8_3 nm = Ok (n, e)"
  shows "canonical (fill_entry e0 n e cl sz)"
proof -
  have len: "length n = 8" "length e = 3" using encode_lengths [OF assms(2)] by simp_all
  note f = fill_entry_fields [OF assms(1) len refl, of cl sz]
  show ?thesis using f encode_canonical [OF assms(2)] by (auto simp: canonical_def)
qed

text \<open>The first byte of an encoded name is that of the name; a name may not begin with NUL.\<close>

lemma encode_first:
  assumes "encode_short_name_8_3 nm = Ok (n, e)"
  shows "nm \<noteq> []" and "n ! 0 = ascii_upper (hd nm)" and "hd nm \<noteq> dot" and "n ! 0 < 0x80"
proof -
  obtain base ext where parts: "name_parts nm = (base, ext)" by fastforce
  have v: "valid_8_3 nm" and n: "n = pad_to 8 (normalize_name base)"
    using assms parts by (auto simp: encode_eq split: if_splits)
  have base: "base \<noteq> []" "dot \<notin> set base" "ascii base" using v parts by (auto simp: valid_8_3_def)
  have nm: "nm \<noteq> [] \<and> hd nm = hd base"
    using parts base(1) by (cases rule: name_parts_cases [of nm]) auto
  then show "nm \<noteq> []" by simp
  have "hd base \<in> set base" using base(1) by simp
  then show "hd nm \<noteq> dot" using nm base(2) by auto
  show first: "n ! 0 = ascii_upper (hd nm)"
    using nm base(1) unfolding n by (cases base) (simp_all add: pad_to_def normalize_name_def)
  show "n ! 0 < 0x80"
    using \<open>hd base \<in> set base\<close> base(3) nm unfolding first by (simp add: ascii_def ascii_upper_ascii)
qed

lemma short_name_dot:
  assumes "length n = 8" "n ! 0 = dot"
  shows "short_name n e \<noteq> [] \<and> hd (short_name n e) = dot"
proof -
  have "0 < trim_end n 8"
  proof (rule ccontr)
    assume "\<not> 0 < trim_end n 8"
    then have "n ! 0 = space" using trim_end_spaces [of n 8 0] by simp
    with assms show False by simp
  qed
  then obtain k where k: "trim_end n 8 = Suc k" by (cases "trim_end n 8") auto
  obtain t where n: "n = dot # t" using assms by (cases n) auto
  have "trim_end n (length n) = Suc k" using k assms(1) by simp
  then have "decode_ascii_trim n = dot # concat (map push_byte_char (take k t))"
    unfolding decode_ascii_trim_def n by (simp add: push_byte_char_def)
  then show ?thesis by (simp add: short_name_def Let_def)
qed

text \<open>A canonical slot shows the written name only if it holds its raw bytes.\<close>

lemma no_alias:
  assumes enc: "encode_short_name_8_3 nm = Ok (n, e)" and plain: "plain_name nm"
    and can: "canonical s" and parse: "parse s = Some en"
    and eq: "normalize_name (e_name en) = normalize_name nm"
  shows "matches n e s"
proof -
  have len: "length (window s 0 8) = 8" "length (window s 8 3) = 3" and s0: "s ! 0 \<noteq> 0xE5"
    using parse parse_eq_None_iff [of s] by auto
  have w0: "window s 0 8 ! 0 = s ! 0"
    using len(1) by (simp add: window_def)
  have name: "e_name en = short_name (window s 0 8) (window s 8 3)" by (rule parse_name [OF parse])
  have fixed: "normalize_name (e_name en) = e_name en"
    unfolding name using can by (intro short_name_fixed) (auto simp: canonical_def)
  have shown: "short_name (window s 0 8) (window s 8 3) = short_name n e"
    using eq fixed name encode_short_name [OF enc plain] by simp
  have "s ! 0 \<noteq> dot"
  proof
    assume "s ! 0 = dot"
    then have "short_name n e \<noteq> []" "hd (short_name n e) = dot"
      using short_name_dot [OF len(1), of "window s 8 3"] w0 shown by simp_all
    then have "hd (normalize_name nm) = dot" by (simp add: encode_short_name [OF enc plain])
    with encode_first [OF enc] show False by (cases nm) (simp_all add: normalize_name_def)
  qed
  then have "window s 0 8 = n \<and> window s 8 3 = e"
    using can encode_canonical [OF enc] len encode_lengths [OF enc] shown
    by (intro short_name_inj) (auto simp: canonical_def ascii_def)
  with s0 show ?thesis by (simp add: matches_def)
qed

subsection \<open>The entry in the listing\<close>

text \<open>Where a listing finds the entry of a slot that no slot before hides.\<close>

lemma find_map_filter:
  "(\<And>x e. x \<in> set pre \<Longrightarrow> f x = Some e \<Longrightarrow> \<not> P e) \<Longrightarrow> f y = Some e0 \<Longrightarrow> P e0 \<Longrightarrow>
     find P (List.map_filter f (pre @ y # post)) = Some e0"
  by (induction pre) (auto simp: List.map_filter_simps split: option.splits)

lemma listing_find:
  assumes "\<And>s. s \<in> set pre \<Longrightarrow> live s" "live s0" "parse s0 = Some e0" "P e0"
    and "\<And>s e. s \<in> set pre \<Longrightarrow> parse s = Some e \<Longrightarrow> \<not> P e"
  shows "find P (listing (pre @ s0 # post)) = Some e0"
proof -
  have "takeWhile live (pre @ s0 # post) = pre @ s0 # takeWhile live post"
    using assms(1,2) by (simp add: takeWhile_append)
  then show ?thesis 
    unfolding listing_def using find_map_filter [of pre parse P s0 e0] assms(3-5) by (simp del: map_filter_append)
qed

definition canonical_dir :: "fat32_mut \<Rightarrow> u32 list \<Rightarrow> bool" where
  "canonical_dir m cls \<longleftrightarrow>
     (\<forall>s\<in>set (takeWhile live (dir_slots (as_read m) cls)). parse s \<noteq> None \<longrightarrow> canonical s)"

definition names :: "rstr \<Rightarrow> dir_entry \<Rightarrow> bool" where
  "names nm en \<longleftrightarrow> normalize_name (e_name en) = normalize_name nm"

text \<open>
  The end mark of the directory is not in the last slot of a cluster that another one follows, where
  the driver would have no room in the cluster to mark the new end; or the slot after it could be an end mark, too.
\<close>

definition roomy_end :: "fat32_mut \<Rightarrow> u32 list \<Rightarrow> bool" where
  "roomy_end m cls \<longleftrightarrow>
     (let slots = dir_slots (as_read m) cls; i = length (takeWhile live slots)
      in Suc i mod (m_cluster_size m div 32) \<noteq> 0 \<or> length slots \<le> Suc i \<or> \<not> live (slots ! Suc i))"

text \<open>Nothing is left after the end of the directory, as in one whose clusters were zeroed before use.\<close>

definition clear_end :: "fat32_mut \<Rightarrow> u32 list \<Rightarrow> bool" where
  "clear_end m cls \<longleftrightarrow> (\<forall>s\<in>set (dropWhile live (dir_slots (as_read m) cls)). \<not> live s)"

lemma clear_end_roomy:
  assumes "clear_end m cls"
  shows "roomy_end m cls"
proof -
  let ?s = "dir_slots (as_read m) cls" and ?i = "length (takeWhile live (dir_slots (as_read m) cls))"
  have "\<not> live (?s ! Suc ?i)" if "Suc ?i < length ?s"
  proof -
    have len: "length ?s = ?i + length (dropWhile live ?s)" by (metis length_append takeWhile_dropWhile_id)
    have "?s ! Suc ?i = (takeWhile live ?s @ dropWhile live ?s) ! (?i + 1)" by simp
    also have "\<dots> = dropWhile live ?s ! 1" by (simp only: nth_append_length_plus)
    finally have "?s ! Suc ?i = dropWhile live ?s ! 1" .
    moreover have "dropWhile live ?s ! 1 \<in> set (dropWhile live ?s)" using that len by (intro nth_mem) linarith
    ultimately show ?thesis using assms unfolding clear_end_def by metis
  qed
  then show ?thesis unfolding roomy_end_def Let_def by linarith
qed

definition shown :: "dir_entry option \<Rightarrow> dir_entry list" where
  "shown x = (case x of None \<Rightarrow> [] | Some en \<Rightarrow> [en])"

lemma listing_live: "\<forall>s\<in>set ss. live s \<Longrightarrow> listing (ss @ ts) = listing ss @ listing ts"
  by (auto simp: listing_append)

lemma listing_Nil [simp]: "listing [] = []"
  by (simp add: listing_def List.map_filter_def)

lemma listing_Cons: "listing (s # ss) = (if live s then shown (parse s) @ listing ss else [])"
  by (auto simp: listing_def shown_def List.map_filter_simps split: option.splits)

lemma listing_written:
  assumes w: "entry_written m m' cls n e cl sz pre p post"
    and slots: "dir_slots (as_read m) cls = map (slot m) (pre @ p # post)"
    and new: "live (slot m' p)" "parse (slot m' p) = Some en"
    and roomy: "live (slot m p) \<or> roomy_end m cls"
  defines "old \<equiv> if live (slot m p) then parse (slot m p) else None"
  shows "\<exists>A B. listing (map (slot m') (pre @ p # post)) = A @ en # B
    \<and> listing (map (slot m) (pre @ p # post)) = A @ shown old @ B \<and> A = listing (map (slot m) pre)"
    and "set (takeWhile live (map (slot m') (pre @ p # post)))
      \<subseteq> insert (slot m' p) (set (takeWhile live (map (slot m) (pre @ p # post))))"
proof -
  have pre: "\<forall>s\<in>set (map (slot m) pre). live s" "map (slot m') pre = map (slot m) pre"
    using w by (auto simp: entry_written_def)
  have "map (slot m') (pre @ p # post) = map (slot m) pre @ slot m' p # map (slot m') post"
    by (simp only: map_append list.map pre(2))
  then have after: "listing (map (slot m') (pre @ p # post))
      = listing (map (slot m) pre) @ en # listing (map (slot m') post)"
    using new by (simp only: listing_live [OF pre(1)]) (simp add: listing_Cons shown_def)
  have before: "listing (map (slot m) (pre @ p # post))
      = listing (map (slot m) pre) @ (if live (slot m p) then shown old @ listing (map (slot m) post) else [])"
    using listing_live [OF pre(1)] by (simp add: listing_Cons old_def)
  have ended: "post = [] \<or> \<not> live (slot m' (hd post))" if "\<not> live (slot m p)"
  proof -
    have tw: "takeWhile live (dir_slots (as_read m) cls) = map (slot m) pre"
      unfolding slots using pre(1) that by (simp add: takeWhile_append)
    have kept: "\<not> live (slot m' (hd post))" if "post \<noteq> []" "\<not> live (slot m (hd post))"
      using that w by (auto simp: entry_written_def dest!: hd_in_set)
    show ?thesis
    proof (cases "post = [] \<or> Suc (length pre) mod (m_cluster_size m div 32) \<noteq> 0")
      case True
      with that w show ?thesis by (auto simp: entry_written_def)
    next
      case False
      then obtain q qs where "post = q # qs" by (cases post) auto
      with False roomy that kept show ?thesis
        unfolding roomy_end_def Let_def tw unfolding slots by (auto simp: nth_append)
    qed
  qed
  have kept: "map (slot m') post = map (slot m) post" if "live (slot m p)"
    using w that by (simp add: entry_written_def)
  show "\<exists>A B. listing (map (slot m') (pre @ p # post)) = A @ en # B
    \<and> listing (map (slot m) (pre @ p # post)) = A @ shown old @ B \<and> A = listing (map (slot m) pre)"
  proof (cases "live (slot m p)")
    case True
    then show ?thesis unfolding after before if_P [OF True] kept [OF True] by metis
  next
    case False
    then have "listing (map (slot m') post) = []" using ended by (cases post) (auto simp: listing_Cons)
    with False show ?thesis unfolding after before
      by - (rule exI [of _ "listing (map (slot m) pre)"], rule exI [of _ "[]"], simp add: old_def shown_def)
  qed
  have tw': "takeWhile live (map (slot m') (pre @ p # post))
      = map (slot m) pre @ slot m' p # takeWhile live (map (slot m') post)"
    unfolding map_append list.map pre(2) using pre(1) new(1) by (simp add: takeWhile_append)
  have tw: "takeWhile live (map (slot m) (pre @ p # post))
      = map (slot m) pre @ (if live (slot m p) then slot m p # takeWhile live (map (slot m) post) else [])"
    using pre(1) by (simp add: takeWhile_append)
  show "set (takeWhile live (map (slot m') (pre @ p # post)))
      \<subseteq> insert (slot m' p) (set (takeWhile live (map (slot m) (pre @ p # post))))"
  proof (cases "live (slot m p)")
    case True
    show ?thesis unfolding tw' tw kept [OF True] if_P [OF True] by auto
  next
    case False
    then have "takeWhile live (map (slot m') post) = []" using ended by (cases post) auto
    then show ?thesis unfolding tw' tw by auto
  qed
qed

lemma clear_end_replaced:
  assumes pre: "\<forall>s\<in>set pre. live s" and new: "live y'"
    and post: "live y \<Longrightarrow> post' = post" "\<forall>s\<in>set post. \<not> live s \<Longrightarrow> \<forall>s\<in>set post'. \<not> live s"
    and clear: "\<forall>s\<in>set (dropWhile live (pre @ y # post)). \<not> live s"
  shows "\<forall>s\<in>set (dropWhile live (pre @ y' # post')). \<not> live s"
proof -
  have drop: "dropWhile live (pre @ zs) = dropWhile live zs" for zs
    using pre by (simp add: dropWhile_append)
  show ?thesis
  proof (cases "live y")
    case True
    with clear new post(1) show ?thesis unfolding drop by simp
  next
    case False
    with clear have "\<forall>s\<in>set post'. \<not> live s" unfolding drop by (intro post(2)) simp
    then show ?thesis using new unfolding drop by (auto dest: set_dropWhileD)
  qed
qed

lemma clear_end_written:
  assumes w: "entry_written m m' cls n e cl sz pre p post" and new: "live (slot m' p)"
    and clear: "\<forall>s\<in>set (dropWhile live (map (slot m) (pre @ p # post))). \<not> live s"
  shows "\<forall>s\<in>set (dropWhile live (map (slot m') (pre @ p # post))). \<not> live s"
proof -
  have pre: "\<forall>s\<in>set (map (slot m) pre). live s" "map (slot m') pre = map (slot m) pre"
    and same: "live (slot m p) \<Longrightarrow> map (slot m') post = map (slot m) post"
    and dead: "\<forall>q\<in>set post. slot m' q = slot m q \<or> \<not> live (slot m' q)"
    using w by (auto simp: entry_written_def)
  have "\<not> live (slot m' q)" if "\<forall>s\<in>set (map (slot m) post). \<not> live s" "q \<in> set post" for q
    using dead that by (cases "slot m' q = slot m q") auto
  then have "\<forall>s\<in>set (map (slot m) post). \<not> live s \<Longrightarrow> \<forall>s\<in>set (map (slot m') post). \<not> live s" by simp
  from clear_end_replaced [OF pre(1) new same this] clear show ?thesis
    unfolding map_append list.map pre(2) by blast
qed

text \<open>
  The directory after its entry for a file is written: every live slot is an old one or holds a canonical
  entry, and one entry of the listing is replaced or added; a clear end stays clear.
\<close>

definition dir_updated ::
  "fat32_mut \<Rightarrow> fat32_mut \<Rightarrow> u32 list \<Rightarrow> nat option \<Rightarrow> dir_entry option \<Rightarrow> dir_entry \<Rightarrow> bool" where
  "dir_updated m m' cls off old new \<longleftrightarrow>
     set (takeWhile live (dir_slots (as_read m') cls))
       \<subseteq> set (takeWhile live (dir_slots (as_read m) cls)) \<union> {s. canonical s \<and> parse s \<noteq> None}
     \<and> (clear_end m cls \<longrightarrow> clear_end m' cls)
     \<and> (\<exists>A B. listing (dir_slots (as_read m') cls) = A @ new # B
          \<and> listing (dir_slots (as_read m) cls) = A @ shown old @ B
          \<and> (off = None \<longrightarrow> A = listing (takeWhile used (dir_slots (as_read m) cls))))"

lemma dir_updated_canonical: "dir_updated m m' cls off old new \<Longrightarrow> canonical_dir m cls \<Longrightarrow> canonical_dir m' cls"
  by (auto simp: dir_updated_def canonical_dir_def)

lemma update_entry_listed:
  assumes dir: "chain_at m dir cls" and can: "canonical_dir m cls"
    and enc: "encode_short_name_8_3 nm = Ok (n, e)" and plain: "plain_name nm"
    and found: "find_dir_entry_offset_by_short_name m dir n e = Ok (off, old)"
    and room: "off = None \<longrightarrow> (\<exists>p\<in>set (slot_places m cls). \<not> used (slot m p))"
  shows "\<exists>m' es. update_entry dir off n e cl sz m = (Ok (), m') \<and> data_frame (set cls) m m'
    \<and> list_dir_cluster (as_read m') dir = Ok es \<and> find (names nm) es = Some (file_entry n e cl sz)
    \<and> ((off = None \<longrightarrow> roomy_end m cls) \<longrightarrow> dir_updated m m' cls off old (file_entry n e cl sz))"
proof -
  note ch = chain_atD [OF dir] and len = encode_lengths [OF enc, THEN conjunct1] encode_lengths [OF enc, THEN conjunct2]
  obtain m' pre p post where u: "update_entry dir off n e cl sz m = (Ok (), m')"
    and w: "entry_written m m' cls n e cl sz pre p post"
    and old: "if off = None then \<not> used (slot m p) \<and> (\<forall>q\<in>set pre. used (slot m q)) \<and> old = None else live (slot m p) \<and> old = parse (slot m p)"
    using update_entry_spec [OF dir len found room [THEN mp]] by blast
  have frame: "data_frame (set cls) m m'" and places: "slot_places m cls = pre @ p # post"
    and new: "slot m' p = fill_entry (slot m p) n e cl sz"
    and pre: "\<forall>q\<in>set pre. slot m' q = slot m q \<and> live (slot m q) \<and> \<not> matches n e (slot m q)"
    using w by (simp_all add: entry_written_def)
  note dir' = data_frame_chain [OF frame dir]
  have slots': "dir_slots (as_read m') cls = map (slot m') (pre @ p # post)"
    using dir_slots_places [of cls m'] chain_atD(5) [OF dir']
      slot_places_same_shape [OF data_frame_shape [OF frame]] places by simp
  have slots: "dir_slots (as_read m) cls = map (slot m) (pre @ p # post)"
    using dir_slots_places [of cls m] ch(5) places by simp
  have n0: "n ! 0 \<noteq> 0" "n ! 0 \<noteq> 0xE5"
    using encode_first [OF enc] plain by (auto simp: plain_name_def)
  have len32: "length (slot m p) = 32" using slot_length(2) [of p m cls] places ch(5) by simp
  note stored = parse_fill_entry [OF len32 len n0] fill_entry_fields(1) [OF len32 len refl]
  have live: "live (slot m' p)" "parse (slot m' p) = Some (file_entry n e cl sz)"
    using stored new n0(1) by (simp_all add: live_def)
  have named: "names nm (file_entry n e cl sz)"
    by (simp add: names_def encode_short_name [OF enc plain])
  have "set (map (slot m) pre) \<subseteq> set (takeWhile live (dir_slots (as_read m) cls))"
    using pre unfolding slots by (auto simp: takeWhile_append)
  then have hidden: "\<not> names nm en" if "q \<in> set pre" "parse (slot m q) = Some en" for q en
    using that pre can no_alias [OF enc plain, of "slot m q" en]
    by (auto simp: canonical_dir_def names_def)
  have find: "find (names nm) (listing (map (slot m') pre @ slot m' p # map (slot m') post))
      = Some (file_entry n e cl sz)"
    using pre live named hidden by (intro listing_find) auto
  have "(if live (slot m p) then parse (slot m p) else None) = old"
    using old by (auto simp: used_def live_def parse_eq_None_iff split: if_splits)
  moreover have "takeWhile used (dir_slots (as_read m) cls) = map (slot m) pre" if "off = None"
    using old that unfolding slots by (simp add: takeWhile_append)
  ultimately have "\<exists>A B. listing (dir_slots (as_read m') cls) = A @ file_entry n e cl sz # B
      \<and> listing (dir_slots (as_read m) cls) = A @ shown old @ B
      \<and> (off = None \<longrightarrow> A = listing (takeWhile used (dir_slots (as_read m) cls)))" if "live (slot m p) \<or> roomy_end m cls"
    using listing_written(1) [OF w slots live that] unfolding slots slots' by auto
  moreover have "canonical (slot m' p)"
    unfolding new using fill_canonical [OF len32 enc] .
  then have "set (takeWhile live (dir_slots (as_read m') cls))
      \<subseteq> set (takeWhile live (dir_slots (as_read m) cls)) \<union> {s. canonical s \<and> parse s \<noteq> None}"
    if "live (slot m p) \<or> roomy_end m cls"
    using listing_written(2) [OF w slots live that] live(2) unfolding slots slots' by auto
  moreover have "live (slot m p) \<or> roomy_end m cls" if "off = None \<longrightarrow> roomy_end m cls"
    using old that by (auto split: if_splits)
  moreover have "clear_end m cls \<longrightarrow> clear_end m' cls"
    unfolding clear_end_def slots slots' using clear_end_written [OF w live(1)] by blast
  ultimately have "(off = None \<longrightarrow> roomy_end m cls) \<longrightarrow> dir_updated m m' cls off old (file_entry n e cl sz)"
    unfolding dir_updated_def by blast
  then show ?thesis
    using u frame find list_dir_chain [OF dir'] list_dir_chain [OF dir] slots' by auto
qed

end
