(* ===== verification/Write_File.thy ===== *)
theory Write_File
  imports Write_Read
begin

text \<open>
  \<^verbatim>\<open>write_file_by_path\<close> as a whole. On a consistent directory with room for the content, the write
  succeeds, the new entry is found under the written name, its chain spells the content, and no
  other cluster of the volume has changed.
\<close>

subsection \<open>The old chain\<close>

text \<open>The clusters that are free or in a set of clusters to be released.\<close>

definition usable :: "fat32_mut \<Rightarrow> u32 \<Rightarrow> u32 set \<Rightarrow> u32 list" where
  "usable m mx F = filter (\<lambda>c. fat_val m c = 0 \<or> c \<in> F) (clusters_upto mx)"

lemma free_usable: "length (free_clusters m mx) \<le> length (usable m mx F)"
  unfolding free_clusters_def usable_def by (rule length_filter_mono) simp

lemma usable_empty [simp]: "usable m mx {} = free_clusters m mx"
  by (simp add: usable_def free_clusters_def)

lemma usable_released:
  assumes "max_cluster_number pf m = Ok mx" "mounted m"
    and "\<And>d. has_entry m d \<Longrightarrow> fat_val m' d = (if d \<in> F then 0 else fat_val m d)"
  shows "free_clusters m' mx = usable m mx F"
  unfolding free_clusters_def usable_def
  using max_cluster_has_entry [OF assms(1,2)] assms(3) by (intro filter_cong) auto

lemma free_clusters_taken:
  assumes "max_cluster_number pf m = Ok mx" "mounted m"
    and "\<And>d. has_entry m d \<Longrightarrow> d \<notin> set ks \<Longrightarrow> fat_val m d = 0 \<Longrightarrow> fat_val m' d = 0"
  shows "length (free_clusters m mx) \<le> length (free_clusters m' mx) + length ks"
proof -
  have "set (free_clusters m mx) \<subseteq> set (free_clusters m' mx) \<union> set ks"
    using max_cluster_has_entry [OF assms(1,2)] assms(3) by (auto simp: free_clusters_def)
  then have "card (set (free_clusters m mx)) \<le> card (set (free_clusters m' mx) \<union> set ks)"
    by (intro card_mono) auto
  also have "\<dots> \<le> card (set (free_clusters m' mx)) + card (set ks)" by (rule card_Un_le)
  also have "\<dots> \<le> length (free_clusters m' mx) + length ks" by (intro add_mono card_length)
  finally show ?thesis by (simp add: distinct_card)
qed

text \<open>The clusters an overwrite releases: those of the old file, when it has any.\<close>

definition old_chain :: "fat32_mut \<Rightarrow> dir_entry option \<Rightarrow> u32 list \<Rightarrow> bool" where
  "old_chain m old fs \<longleftrightarrow>
     (case old of
        None \<Rightarrow> fs = []
      | Some en \<Rightarrow> is_file en \<and>
          (if 2 \<le> e_first_cluster en then chain_at m (e_first_cluster en) fs else fs = []))"

lemma release_existing_spec:
  assumes "old_chain m old fs"
  shows "\<exists>m'. release_existing old m = (Ok (), m') \<and> same_but (set fs) m m'
    \<and> (\<forall>d. has_entry m d \<longrightarrow> fat_val m' d = (if d \<in> set fs then 0 else fat_val m d))"
proof (cases "\<exists>en. old = Some en \<and> 2 \<le> e_first_cluster en")
  case True
  then obtain en where en: "old = Some en" "2 \<le> e_first_cluster en" by blast
  with assms have "chain_at m (e_first_cluster en) fs" "\<not> is_dir en"
    by (auto simp: old_chain_def is_file_not_dir)
  with en release_chain [of m "e_first_cluster en" fs] show ?thesis
    by (simp add: release_existing_def)
next
  case False
  with assms show ?thesis
    by (cases old) (auto simp: old_chain_def release_existing_def is_file_not_dir)
qed

subsection \<open>The directory is not disturbed before its entry is written\<close>

lemma find_slot_cong:
  "(\<And>p. p \<in> set ps \<Longrightarrow> slot m' p = slot m p) \<Longrightarrow> find_slot m' n e ps = find_slot m n e ps"
  by (induction ps) auto

lemma same_but_find:
  assumes "same_but K m m'" "chain_at m dir cls" "set cls \<inter> K = {}"
  shows "find_dir_entry_offset_by_short_name m' dir n e = find_dir_entry_offset_by_short_name m dir n e"
proof -
  note kept = same_but_chain [OF assms]
  note ch = chain_atD [OF assms(2)] and ch' = chain_atD [OF kept(1)]
  have "find_slot m' n e (slot_places m cls) = find_slot m n e (slot_places m cls)"
    by (rule find_slot_cong) (rule kept(5))
  then show ?thesis
    using ch(1) ch'(1) find_entry_loop_spec [of cls m n e, OF ch(5)]
      find_entry_loop_spec [of cls m' n e, OF ch'(5)] kept(4)
    by (simp add: find_dir_entry_offset_by_short_name_def)
qed

lemma same_but_list:
  assumes "same_but K m m'" "chain_at m d ds" "set ds \<inter> K = {}"
  shows "list_dir_cluster (as_read m') d = list_dir_cluster (as_read m) d"
  using same_but_chain [OF assms] list_dir_chain [OF assms(2)] list_dir_chain [of m' d ds] by simp

lemma same_but_roomy:
  assumes "same_but K m m'" "chain_at m d ds" "set ds \<inter> K = {}"
  shows "roomy_end m' ds = roomy_end m ds"
  using same_but_chain(3) [OF assms] same_shapeD(2) [OF same_but_shape [OF assms(1)]]
  by (simp add: roomy_end_def)

lemma same_but_dir_updated:
  assumes "same_but K m m1" "chain_at m d cls" "set cls \<inter> K = {}"
  shows "dir_updated m1 m' cls off old new = dir_updated m m' cls off old new"
  using same_but_chain(3) [OF assms] by (simp add: dir_updated_def clear_end_def)

lemma free_disjoint:
  assumes "chain_at m dir cls" "\<And>c. c \<in> set ks \<Longrightarrow> fat_val m c = 0"
  shows "set cls \<inter> set ks = {}"
  using chain_atD(7) [OF assms(1)] assms(2) by blast

subsection \<open>Content and entry\<close>

text \<open>Storing the content, the empty one included.\<close>

lemma store_content_all:
  assumes mx: "max_cluster_number pf m = Ok mx" "mx < 0x0FFFFFF8" and m: "mounted m"
    and room: "div_ceil (length content) (m_cluster_size m) \<le> length (free_clusters m mx)"
  shows "\<exists>m1 fc ks. store_content pf content m = (Ok fc, m1) \<and> same_but (set ks) m m1
    \<and> set ks \<subseteq> set (free_clusters m mx) \<and> (content = [] \<longrightarrow> fc = 0 \<and> ks = [] \<and> m1 = m)
    \<and> distinct ks \<and> (\<forall>c\<in>set ks. fat_val m1 c \<noteq> 0)
    \<and> (content \<noteq> [] \<longrightarrow> take (length content) (chain_bytes (as_read m1) ks) = content)
    \<and> (content \<noteq> [] \<longrightarrow> div_ceil (length content) (m_cluster_size m) \<le> 4096 \<longrightarrow> chain_at m1 fc ks)
    \<and> length ks = div_ceil (length content) (m_cluster_size m)"
proof (cases "content = []")
  case True
  then show ?thesis by (intro exI [of _ m] exI [of _ 0] exI [of _ "[]"]) (simp add: store_content_def div_ceil_def)
next
  case False
  define ks where "ks = take (div_ceil (length content) (m_cluster_size m)) (free_clusters m mx)"
  obtain m' fc where "store_content pf content m = (Ok fc, m')" "same_but (set ks) m m'"
    "take (length content) (chain_bytes (as_read m') ks) = content" "\<forall>c\<in>set ks. fat_val m' c \<noteq> 0"
    "div_ceil (length content) (m_cluster_size m) \<le> 4096 \<longrightarrow> chain_at m' fc ks"
    unfolding ks_def using store_content_run [OF mx m False room] by blast
  moreover have "set ks \<subseteq> set (free_clusters m mx)" "distinct ks" by (simp_all add: ks_def set_take_subset)
  moreover have "length ks = div_ceil (length content) (m_cluster_size m)" using room by (simp add: ks_def)
  ultimately show ?thesis using False by blast
qed

lemma store_content_any:
  assumes mx: "max_cluster_number pf m = Ok mx" "mx < 0x0FFFFFF8" and m: "mounted m"
    and room: "div_ceil (length content) (m_cluster_size m) \<le> length (free_clusters m mx)"
      "div_ceil (length content) (m_cluster_size m) \<le> 4096"
  shows "\<exists>m1 fc ks. store_content pf content m = (Ok fc, m1) \<and> same_but (set ks) m m1
    \<and> set ks \<subseteq> set (free_clusters m mx) \<and> (content = [] \<longrightarrow> fc = 0 \<and> ks = [] \<and> m1 = m)
    \<and> (content \<noteq> [] \<longrightarrow> chain_at m1 fc ks \<and> take (length content) (chain_bytes (as_read m1) ks) = content)
    \<and> length ks = div_ceil (length content) (m_cluster_size m)"
  using store_content_all [OF mx m room(1)] room(2) by blast

text \<open>And then writing the entry.\<close>

lemma store_and_list:
  assumes vol: "mounted m" "max_cluster_number pf m = Ok mx" "mx < 0x0FFFFFF8"
    and dir: "chain_at m dir cls" "canonical_dir m cls"
    and nm: "encode_short_name_8_3 nm = Ok (n, e)" "plain_name nm"
    and found: "find_dir_entry_offset_by_short_name m dir n e = Ok (off, old)"
    and slot: "off = None \<Longrightarrow> \<exists>s\<in>set (dir_slots (as_read m) cls). \<not> used s"
    and room: "div_ceil (length content) (m_cluster_size m) \<le> min 4096 (length (free_clusters m mx))"
  shows "\<exists>m' es fc ks. sbind (store_content pf content) (\<lambda>fc. update_entry dir off n e fc sz) m = (Ok (), m')
    \<and> same_but (set ks \<union> set cls) m m' \<and> set ks \<subseteq> set (free_clusters m mx)
    \<and> list_dir_cluster (as_read m') dir = Ok es \<and> find (names nm) es = Some (file_entry n e fc sz)
    \<and> chain_at m' dir cls
    \<and> ((off = None \<longrightarrow> roomy_end m cls) \<longrightarrow> dir_updated m m' cls off old (file_entry n e fc sz))
    \<and> (content = [] \<longrightarrow> fc = 0 \<and> ks = [])
    \<and> (content \<noteq> [] \<longrightarrow> chain_at m' fc ks \<and> take (length content) (chain_bytes (as_read m') ks) = content)
    \<and> (\<forall>d. has_entry m d \<longrightarrow> d \<notin> set ks \<longrightarrow> fat_val m' d = fat_val m d)
    \<and> length ks = div_ceil (length content) (m_cluster_size m)"
proof -
  obtain m1 fc ks where m1: "store_content pf content m = (Ok fc, m1)" "same_but (set ks) m m1"
    "set ks \<subseteq> set (free_clusters m mx)" "content = [] \<longrightarrow> fc = 0 \<and> ks = [] \<and> m1 = m"
    "content \<noteq> [] \<longrightarrow> chain_at m1 fc ks \<and> take (length content) (chain_bytes (as_read m1) ks) = content"
    "length ks = div_ceil (length content) (m_cluster_size m)"
    using store_content_any [OF vol(2,3,1), of content] room by auto
  have apart: "set cls \<inter> set ks = {}"
    using m1(3) free_clustersD(2) [OF vol(2,1)] by (intro free_disjoint [OF dir(1)]) auto
  note kept = same_but_chain [OF m1(2) dir(1) apart]
  have can: "canonical_dir m1 cls" using dir(2) kept(3) by (simp add: canonical_dir_def)
  have find1: "find_dir_entry_offset_by_short_name m1 dir n e = Ok (off, old)"
    using same_but_find [OF m1(2) dir(1) apart] found by simp
  have slot1: "off = None \<longrightarrow> (\<exists>p\<in>set (slot_places m1 cls). \<not> used (slot m1 p))"
    using slot dir_slots_places [of cls m, OF chain_atD(5) [OF dir(1)]] kept(4,5) by simp
  obtain m' es where m': "update_entry dir off n e fc sz m1 = (Ok (), m')" "data_frame (set cls) m1 m'"
    "list_dir_cluster (as_read m') dir = Ok es" "find (names nm) es = Some (file_entry n e fc sz)"
    "(off = None \<longrightarrow> roomy_end m1 cls) \<longrightarrow> dir_updated m1 m' cls off old (file_entry n e fc sz)"
    using update_entry_listed [OF kept(1) can nm find1 slot1, of fc sz] by (elim exE conjE) (rule that)
  have fat: "fat_val m' d = fat_val m d" if "has_entry m d" "d \<notin> set ks" for d
  proof -
    have "has_entry m1 d" using that(1) by (simp add: has_entry_same_shape [OF same_but_shape [OF m1(2)]])
    then have "fat_val m' d = fat_val m1 d" by (rule data_frame_fat [OF m'(2)])
    also have "\<dots> = fat_val m d" using m1(2) that by (simp add: same_but_def)
    finally show ?thesis .
  qed
  have "same_but (set cls) m1 m'" using m'(2) chain_atD(6) [OF dir(1)] by (rule same_but_data)
  note same = same_but_trans [OF m1(2) this] and own = same_but_chain [OF this, of fc ks]
  have "chain_at m' fc ks \<and> take (length content) (chain_bytes (as_read m') ks) = content"
    if "content \<noteq> []" using m1(5) that own apart by (simp add: Int_commute)
  moreover have "sbind (store_content pf content) (\<lambda>fc. update_entry dir off n e fc sz) m = (Ok (), m')"
    using m1(1) m'(1) by simp
  ultimately show ?thesis
    using m1(3,4,6) m'(3,4) same fat data_frame_chain [OF m'(2) kept(1)]
      m'(5) [unfolded same_but_dir_updated [OF m1(2) dir(1) apart] same_but_roomy [OF m1(2) dir(1) apart]]
    by (intro exI [of _ m'] exI [of _ es] exI [of _ fc] exI [of _ ks] conjI) simp_all
qed

lemma write_file_run:
  assumes vol: "mounted m" "max_cluster_number pf m = Ok mx" "mx < 0x0FFFFFF8"
    and path: "starts_with slash path" "split_parent path = Ok (pp, nm)"
      "encode_short_name_8_3 nm = Ok (n, e)" "plain_name nm" "parent_cluster pp m = Ok dir"
    and dir: "chain_at m dir cls" "canonical_dir m cls"
    and old: "find_dir_entry_offset_by_short_name m dir n e = Ok (off, old)" "old_chain m old fs"
      "set fs \<inter> set cls = {}"
    and slot: "off = None \<longrightarrow> (\<exists>s\<in>set (dir_slots (as_read m) cls). \<not> used s)"
    and room: "div_ceil (length content) (m_cluster_size m) \<le> min 4096 (length (usable m mx (set fs)))"
  shows "\<exists>m' es fc ks. write_file_by_path pf path content m = (Ok (), m')
    \<and> same_but (set fs \<union> (set ks \<union> set cls)) m m' \<and> (\<forall>c\<in>set ks. fat_val m c = 0 \<or> c \<in> set fs)
    \<and> list_dir_cluster (as_read m') dir = Ok es
    \<and> find (names nm) es = Some (file_entry n e fc (word_of_nat (length content)))
    \<and> chain_at m' dir cls
    \<and> ((off = None \<longrightarrow> roomy_end m cls) \<longrightarrow> dir_updated m m' cls off old (file_entry n e fc (word_of_nat (length content))))
    \<and> (content = [] \<longrightarrow> fc = 0 \<and> ks = [])
    \<and> (content \<noteq> [] \<longrightarrow> chain_at m' fc ks \<and> take (length content) (chain_bytes (as_read m') ks) = content)
    \<and> (\<forall>d. has_entry m d \<longrightarrow> d \<notin> set ks \<longrightarrow> fat_val m' d = (if d \<in> set fs then 0 else fat_val m d))
    \<and> length ks = div_ceil (length content) (m_cluster_size m)"
proof -
  obtain m1 where m1: "release_existing old m = (Ok (), m1)" "same_but (set fs) m m1"
    "\<And>d. has_entry m d \<Longrightarrow> fat_val m1 d = (if d \<in> set fs then 0 else fat_val m d)"
    using release_existing_spec [OF old(2)] by blast
  note s1 = same_but_shape [OF m1(2)]
  have vol1: "mounted m1" "max_cluster_number pf m1 = Ok mx"
    using vol mounted_same_shape [OF s1] max_cluster_number_same_shape [OF s1] by simp_all
  have apart: "set cls \<inter> set fs = {}" using old(3) by blast
  note kept = same_but_chain [OF m1(2) dir(1) apart]
  have can: "canonical_dir m1 cls" using dir(2) kept(3) by (simp add: canonical_dir_def)
  have find1: "find_dir_entry_offset_by_short_name m1 dir n e = Ok (off, old)"
    using same_but_find [OF m1(2) dir(1) apart] old(1) by simp
  have slot1: "\<exists>s\<in>set (dir_slots (as_read m1) cls). \<not> used s" if "off = None"
    using slot that kept(3) by simp
  have "free_clusters m1 mx = usable m mx (set fs)" using m1(3) by (rule usable_released [OF vol(2,1)])
  then have room1: "div_ceil (length content) (m_cluster_size m1)
      \<le> min 4096 (length (free_clusters m1 mx))"
    using room by (simp add: same_shapeD [OF s1])
  let ?sz = "word_of_nat (length content)"
  obtain m' es fc ks where m': "sbind (store_content pf content) (\<lambda>fc. update_entry dir off n e fc ?sz) m1 = (Ok (), m')"
    "same_but (set ks \<union> set cls) m1 m'" "set ks \<subseteq> set (free_clusters m1 mx)"
    "list_dir_cluster (as_read m') dir = Ok es" "find (names nm) es = Some (file_entry n e fc ?sz)"
    "chain_at m' dir cls" "content = [] \<longrightarrow> fc = 0 \<and> ks = []"
    "content \<noteq> [] \<longrightarrow> chain_at m' fc ks \<and> take (length content) (chain_bytes (as_read m') ks) = content"
    "(off = None \<longrightarrow> roomy_end m1 cls) \<longrightarrow> dir_updated m1 m' cls off old (file_entry n e fc ?sz)"
    "\<forall>d. has_entry m1 d \<longrightarrow> d \<notin> set ks \<longrightarrow> fat_val m' d = fat_val m1 d"
    "length ks = div_ceil (length content) (m_cluster_size m1)"
    using store_and_list [OF vol1 vol(3) kept(1) can path(3,4) find1 slot1 room1, of ?sz] by blast
  have "path \<noteq> [slash]"
    using path(2) by (auto simp: split_parent_def trim_end_matches_def res_simps)
  then have "write_file_by_path pf path content m = (Ok (), m')"
    using path old(1) m1(1) m'(1) by (simp add: write_file_by_path_def Let_def)
  moreover have "fat_val m c = 0 \<or> c \<in> set fs" if "c \<in> set ks" for c
  proof -
    have "c \<in> set (free_clusters m1 mx)" using that m'(3) by blast
    then have "has_entry m1 c" "fat_val m1 c = 0" using free_clustersD [OF vol1(2,1)] by blast+
    then show ?thesis using m1(3) [of c] by (auto simp: has_entry_same_shape [OF s1] split: if_splits)
  qed
  moreover have "\<forall>d. has_entry m d \<longrightarrow> d \<notin> set ks \<longrightarrow> fat_val m' d = (if d \<in> set fs then 0 else fat_val m d)"
    using m'(10) m1(3) by (simp add: has_entry_same_shape [OF s1])
  moreover have "length ks = div_ceil (length content) (m_cluster_size m)"
    using m'(11) by (simp add: same_shapeD [OF s1])
  ultimately show ?thesis
    using m'(4-8) same_but_trans [OF m1(2) m'(2)]
      m'(9) [unfolded same_but_dir_updated [OF m1(2) dir(1) apart] same_but_roomy [OF m1(2) dir(1) apart]]
    by (intro exI [of _ m'] exI [of _ es] exI [of _ fc] exI [of _ ks] conjI) simp_all
qed

subsection \<open>Reading back\<close>

lemma write_reads_back:
  assumes vol: "mounted m" "max_cluster_number pf m = Ok mx" "mx < 0x0FFFFFF8"
    and path: "starts_with slash path" "split_parent path = Ok (pp, nm)"
      "encode_short_name_8_3 nm = Ok (n, e)" "plain_name nm" "parent_cluster pp m = Ok dir"
    and dir: "chain_at m dir cls" "canonical_dir m cls"
    and old: "find_dir_entry_offset_by_short_name m dir n e = Ok (off, old)" "old_chain m old fs"
      "set fs \<inter> set cls = {}"
    and slot: "off = None \<longrightarrow> (\<exists>s\<in>set (dir_slots (as_read m) cls). \<not> used s)"
    and room: "div_ceil (length content) (m_cluster_size m) \<le> min 4096 (length (free_clusters m mx))"
    and size: "length content < 2 ^ 32"
  shows "\<exists>m' es en K. write_file_by_path pf path content m = (Ok (), m')
    \<and> list_dir_cluster (as_read m') dir = Ok es \<and> find (names nm) es = Some en
    \<and> is_file en \<and> unat (e_size en) = length content \<and> read_file (as_read m') en = Ok content
    \<and> (roomy_end m cls \<longrightarrow> (\<exists>A B. es = A @ en # B
         \<and> list_dir_cluster (as_read m) dir = Ok (A @ shown old @ B)
         \<and> (off = None \<longrightarrow> A = listing (takeWhile used (dir_slots (as_read m) cls)))))
    \<and> same_but K m m'
    \<and> (\<forall>c cs. chain_at m c cs \<longrightarrow> set cs \<inter> (set fs \<union> set cls) = {} \<longrightarrow> set cs \<inter> K = {})"
proof -
  let ?sz = "word_of_nat (length content) :: u32"
  have sz: "unat ?sz = length content" using size by (simp add: unat_of_nat)
  have room': "div_ceil (length content) (m_cluster_size m) \<le> min 4096 (length (usable m mx (set fs)))"
    using room free_usable [of m mx "set fs"] by simp
  obtain m' es fc ks where run: "write_file_by_path pf path content m = (Ok (), m')"
    "list_dir_cluster (as_read m') dir = Ok es" "find (names nm) es = Some (file_entry n e fc ?sz)"
    "content \<noteq> [] \<longrightarrow> chain_at m' fc ks \<and> take (length content) (chain_bytes (as_read m') ks) = content"
    "same_but (set fs \<union> (set ks \<union> set cls)) m m'" "\<forall>c\<in>set ks. fat_val m c = 0 \<or> c \<in> set fs"
    "chain_at m' dir cls"
    "(off = None \<longrightarrow> roomy_end m cls) \<longrightarrow> dir_updated m m' cls off old (file_entry n e fc ?sz)"
    using write_file_run [OF vol path dir old _ room'] slot by blast
  have "\<exists>A B. es = A @ file_entry n e fc ?sz # B \<and> list_dir_cluster (as_read m) dir = Ok (A @ shown old @ B)
      \<and> (off = None \<longrightarrow> A = listing (takeWhile used (dir_slots (as_read m) cls)))" if "roomy_end m cls"
    using run(2,8) that list_dir_chain [OF run(7)] list_dir_chain [OF dir(1)] by (auto simp: dir_updated_def)
  moreover have "read_file (as_read m') (file_entry n e fc ?sz) = Ok content"
  proof (cases "content = []")
    case True
    then show ?thesis by (simp add: read_file_def)
  next
    case False
    with run(4) read_file_chain [of m' "file_entry n e fc ?sz" ks] sz show ?thesis by simp
  qed
  moreover have "set cs \<inter> (set fs \<union> (set ks \<union> set cls)) = {}"
    if "chain_at m c cs" "set cs \<inter> (set fs \<union> set cls) = {}" for c cs
    using chain_atD(7) [OF that(1)] that(2) run(6) by blast
  ultimately show ?thesis
    using run(1-3,5) sz
    by (intro exI [of _ m'] exI [of _ es] exI [of _ "file_entry n e fc ?sz"]
        exI [of _ "set fs \<union> (set ks \<union> set cls)"]) simp
qed

text \<open>The written path leads to the new entry when the directories on the way are left alone.\<close>

lemma path_found:
  assumes path: "starts_with slash path" "split_parent path = Ok (pp, nm)"
      "starts_with slash pp" "parent_cluster pp m = Ok dir"
    and way: "\<And>d. d \<in> set (walk (as_read m) (components pp) (m_root_cluster m)) \<Longrightarrow>
      list_dir_cluster (as_read m') d = list_dir_cluster (as_read m) d"
    and root: "m_root_cluster m' = m_root_cluster m"
    and found: "list_dir_cluster (as_read m') dir = Ok es" "find (names nm) es = Some en"
  shows "open_path (as_read m') path = Ok (Some en)"
proof -
  have last: "open_loop (as_read m') [nm] dir r = Ok (Some en)" for r
    using found by (simp add: names_def [abs_def])
  have comps: "components path = components pp @ [nm]" by (rule split_parent_components [OF path(2)])
  have go: "open_path (as_read m') path = open_loop (as_read m') (components pp @ [nm]) (m_root_cluster m) None"
    using open_path_loop [OF path(1)] comps root by simp
  show ?thesis
  proof (cases "pp = [slash]")
    case True
    then have "components pp = []" using components_append [of "[]" "[]"] by simp
    with True go last path(4) show ?thesis by (simp add: parent_cluster_def del: open_loop.simps)
  next
    case False
    then obtain pe where pe: "open_path (as_read m) pp = Ok (Some pe)" "e_first_cluster pe = dir"
      using path(4) by (auto simp: parent_cluster_def res_simps split: if_splits)
    then have "open_loop (as_read m') (components pp) (m_root_cluster m) None = Ok (Some pe)"
      using open_loop_same [OF way] open_path_loop [OF path(3), of "as_read m"] by simp
    moreover have "components pp \<noteq> []" using calculation by (cases "components pp") auto
    ultimately show ?thesis using open_loop_snoc [of "as_read m'"] go last pe(2) by simp
  qed
qed

text \<open>Reading by the written path. The way to the parent must not be disturbed.\<close>

lemma write_reads_path:
  assumes "mounted m" "max_cluster_number pf m = Ok mx" "mx < 0x0FFFFFF8"
    and "starts_with slash path" "split_parent path = Ok (pp, nm)"
      "encode_short_name_8_3 nm = Ok (n, e)" "plain_name nm" "parent_cluster pp m = Ok dir"
    and "chain_at m dir cls" "canonical_dir m cls"
    and "find_dir_entry_offset_by_short_name m dir n e = Ok (off, old)" "old_chain m old fs"
      "set fs \<inter> set cls = {}"
    and "off = None \<longrightarrow> (\<exists>s\<in>set (dir_slots (as_read m) cls). \<not> used s)"
    and "div_ceil (length content) (m_cluster_size m) \<le> min 4096 (length (free_clusters m mx))"
    and "length content < 2 ^ 32"
    and "\<forall>d\<in>set (walk (as_read m) (components pp) (m_root_cluster m)).
      \<exists>ds. chain_at m d ds \<and> set ds \<inter> (set fs \<union> set cls) = {}"
  shows "\<exists>m'. write_file_by_path pf path content m = (Ok (), m')
    \<and> read_file_by_path (as_read m') path = Ok (Some content)"
proof -
  obtain m' es en K where run: "write_file_by_path pf path content m = (Ok (), m')"
    "list_dir_cluster (as_read m') dir = Ok es" "find (names nm) es = Some en"
    "is_file en" "read_file (as_read m') en = Ok content" "same_but K m m'"
    "\<forall>c cs. chain_at m c cs \<longrightarrow> set cs \<inter> (set fs \<union> set cls) = {} \<longrightarrow> set cs \<inter> K = {}"
    using write_reads_back [OF assms(1-16)] by blast
  have "list_dir_cluster (as_read m') d = list_dir_cluster (as_read m) d"
    if "d \<in> set (walk (as_read m) (components pp) (m_root_cluster m))" for d
    using that assms(17) run(7) same_but_list [OF run(6)] by blast
  then have "open_path (as_read m') path = Ok (Some en)"
    using same_shapeD(7) [OF same_but_shape [OF run(6)]] run(2,3)
    by (intro path_found [OF assms(4,5) split_parent_absolute [OF assms(4,5)] assms(8)]) auto
  with run(1,4,5) show ?thesis by (simp add: read_file_by_path_def)
qed

end
