(* ===== verification/Write_Frame.thy ===== *)
theory Write_Frame
  imports Write_Safety
begin

text \<open>
  What a write keeps of the volume, whatever it returns. A write changes the disk in two ways only: it
  changes entries of the table, and it puts bytes in the data area. The locale \<open>write_frame\<close> says so:
  a relation that holds across every step of these two kinds holds across \<^verbatim>\<open>write_file_by_path\<close>,
  on any volume and with any outcome. \<open>Write_Boot\<close> and \<open>Write_Mirror\<close> give the relations.
\<close>

subsection \<open>Relations that hold across a program\<close>

locale state_frame =
  fixes R :: "'s \<Rightarrow> 's \<Rightarrow> bool"
  assumes refl: "R s s"
    and trans: "R a b \<Longrightarrow> R b c \<Longrightarrow> R a c"
begin

text \<open>The rest runs from the state the first part leaves, and may use where its argument came from.\<close>

lemma sbind_frame:
  assumes "R s (snd (p s))" "\<And>x s'. p s = (Ok x, s') \<Longrightarrow> R s s' \<Longrightarrow> R s' (snd (f x s'))"
  shows "R s (snd (sbind p f s))"
proof -
  obtain r s' where p: "p s = (r, s')" by fastforce
  with assms(1) have "R s s'" by simp
  with assms(2) p show ?thesis by (cases r) (auto intro: trans)
qed

lemma sget_frame: "(\<And>x. g s = Ok x \<Longrightarrow> R s (snd (f x s))) \<Longrightarrow> R s (snd (sbind (sget g) f s))"
  by (rule sbind_frame) (simp_all add: refl)

lemma sget_prod_frame:
  "(\<And>a b. g s = Ok (a, b) \<Longrightarrow> R s (snd (f a b s))) \<Longrightarrow> R s (snd (sbind (sget g) (\<lambda>(a, b). f a b) s))"
  by (rule sget_frame) (auto split: prod.split)

end

subsection \<open>Offsets the driver writes entries at\<close>

lemma offset_in_data: "m_cluster_to_offset m c = Ok off \<Longrightarrow> m_data_start_byte m \<le> off"
  by (auto simp: m_cluster_to_offset_def Let_def split: if_splits)

lemma find_chunks_after: "find_chunks off i cs n e = Some (Some p, x) \<Longrightarrow> off \<le> p"
  by (induction off i cs n e rule: find_chunks.induct) (auto split: if_splits)

lemma find_entry_loop_in_data: "find_entry_loop m cls n e = Ok (Some p, x) \<Longrightarrow> m_data_start_byte m \<le> p"
proof (induction cls)
  case (Cons c cls)
  then obtain off dat where off: "m_cluster_to_offset m c = Ok off"
    and r: "(case find_chunks off 0 (chunks 32 dat) n e of Some r \<Rightarrow> Ok r | None \<Rightarrow> find_entry_loop m cls n e) = Ok (Some p, x)"
    by (auto simp: res_simps Let_def split: if_split_asm)
  show ?case
  proof (cases "find_chunks off 0 (chunks 32 dat) n e")
    case (Some y)
    with r have "off \<le> p" by (auto dest: find_chunks_after)
    with offset_in_data [OF off] show ?thesis by simp
  qed (use r Cons.IH in simp)
qed simp

lemma found_in_data:
  "find_dir_entry_offset_by_short_name m d n e = Ok (Some p, x) \<Longrightarrow> m_data_start_byte m \<le> p"
  by (auto simp: find_dir_entry_offset_by_short_name_def res_simps dest!: find_entry_loop_in_data)

lemma free_slot_chunks_after: "free_slot_chunks off ce i cs = Some (p, x) \<Longrightarrow> off \<le> p"
  by (induction off ce i cs rule: free_slot_chunks.induct) (auto split: if_splits)

lemma free_slot_loop_in_data: "free_slot_loop m cls = Ok (p, x) \<Longrightarrow> m_data_start_byte m \<le> p"
proof (induction cls)
  case (Cons c cls)
  then obtain off dat where off: "m_cluster_to_offset m c = Ok off"
    and r: "(case free_slot_chunks off (off + m_cluster_size m) 0 (chunks 32 dat) of
        Some r \<Rightarrow> Ok r | None \<Rightarrow> free_slot_loop m cls) = Ok (p, x)"
    by (auto simp: res_simps Let_def split: if_split_asm)
  show ?case
  proof (cases "free_slot_chunks off (off + m_cluster_size m) 0 (chunks 32 dat)")
    case (Some y)
    with r have "off \<le> p" by (auto dest: free_slot_chunks_after)
    with offset_in_data [OF off] show ?thesis by simp
  qed (use r Cons.IH in simp)
qed simp

lemma free_slot_in_data: "find_free_dir_entry_slot m d = Ok (p, x) \<Longrightarrow> m_data_start_byte m \<le> p"
  by (auto simp: find_free_dir_entry_slot_def res_simps dest!: free_slot_loop_in_data)

subsection \<open>The file that a write replaces\<close>

text \<open>The first cluster of the entry that \<^verbatim>\<open>write_file_by_path\<close> finds under the path, if it finds one.\<close>

definition overwritten :: "rstr \<Rightarrow> fat32_mut \<Rightarrow> u32 option" where
  "overwritten path m =
     (case rbind (split_parent path) (\<lambda>(parent_path, file_name).
           rbind (encode_short_name_8_3 file_name) (\<lambda>(name_raw, ext_raw).
           rbind (parent_cluster parent_path m) (\<lambda>dir.
             find_dir_entry_offset_by_short_name m dir name_raw ext_raw))) of
        Ok (off, Some e) \<Rightarrow> Some (e_first_cluster e)
      | _ \<Rightarrow> None)"

lemma overwrittenI:
  assumes "split_parent path = Ok (pp, nm)" "encode_short_name_8_3 nm = Ok (n, x)"
    and "parent_cluster pp m = Ok d" "find_dir_entry_offset_by_short_name m d n x = Ok (off, Some e)"
  shows "overwritten path m = Some (e_first_cluster e)"
  using assms by (simp add: overwritten_def)

subsection \<open>A relation across a write\<close>

locale write_frame = state_frame R for R :: "fat32_mut \<Rightarrow> fat32_mut \<Rightarrow> bool" +
  assumes shape: "R m m' \<Longrightarrow> same_shape m m'"
    and data: "m_data_start_byte m \<le> off \<Longrightarrow> R m (snd (put_bytes off ys m))"
    and alloc: "R m (snd (alloc_chain pf k m))"
begin

lemma data_start: "R m m' \<Longrightarrow> m_data_start_byte m' = m_data_start_byte m"
  by (simp add: shape same_shapeD)

lemma data_after: "R m m' \<Longrightarrow> m_data_start_byte m \<le> off \<Longrightarrow> R m' (snd (put_bytes off ys m'))"
  by (rule data) (simp add: data_start)

lemma zero_fill_frame: "m_data_start_byte m \<le> a \<Longrightarrow> R m (snd (zero_fill a b m))"
  by (simp add: zero_fill_def data refl)

lemma data_loop_frame: "R m (snd (data_loop cls content cs pos m))"
proof (induction cls arbitrary: pos m)
  case (Cons c cls)
  show ?case
  proof (unfold data_loop.simps Let_def, intro sget_frame)
    fix off chunk
    assume off: "m_cluster_to_offset m c = Ok off"
    note start = offset_in_data [OF off]
    show "R m (snd (sbind (put_bytes off chunk) (\<lambda>_. sbind (zero_fill (off + length chunk) (off + cs))
        (\<lambda>_. if length content \<le> min (pos + cs) (length content) then sret ()
          else data_loop cls content cs (min (pos + cs) (length content)))) m))"
    proof (intro sbind_frame)
      show "R m (snd (put_bytes off chunk m))" using start by (rule data)
    next
      fix m'
      assume "R m m'"
      with start show "R m' (snd (zero_fill (off + length chunk) (off + cs) m'))"
        by (intro zero_fill_frame) (simp add: data_start)
    qed (simp add: Cons.IH refl)
  qed
qed (simp add: refl)

lemma write_chain_data_frame: "R m (snd (write_chain_data cls content m))"
  by (simp add: write_chain_data_def data_loop_frame)

lemma store_content_frame: "R m (snd (store_content pf content m))"
proof (cases "content = []")
  case False
  show ?thesis
    unfolding store_content_def if_not_P [OF False] Let_def
    by (intro sbind_frame alloc write_chain_data_frame) (simp add: refl)
qed (simp add: store_content_def refl)

lemma write_dir_entry_frame:
  "m_data_start_byte m \<le> off \<Longrightarrow> R m (snd (write_dir_entry_at_offset off n e c sz m))"
  by (simp add: write_dir_entry_at_offset_def data refl)

lemma update_entry_frame:
  assumes "\<And>off. x = Some off \<Longrightarrow> m_data_start_byte m \<le> off"
  shows "R m (snd (update_entry d x n e c sz m))"
proof (cases x)
  case (Some off)
  with assms show ?thesis by (simp add: update_entry_def write_dir_entry_frame)
next
  case None
  have "R m (snd (sbind (write_dir_entry_at_offset off n e c sz) (\<lambda>_.
      if was_end then (let nxt = off + 32 in if nxt < ende then put_bytes nxt [0] else sret ()) else sret ()) m))"
    if "find_free_dir_entry_slot m d = Ok (off, was_end, ende)" for off was_end ende
  proof (rule sbind_frame)
    show "R m (snd (write_dir_entry_at_offset off n e c sz m))"
      using free_slot_in_data [OF that] by (rule write_dir_entry_frame)
  qed (use free_slot_in_data [OF that] in \<open>simp add: Let_def refl data_after\<close>)
  with None show ?thesis by (auto simp: update_entry_def intro!: sget_frame)
qed

text \<open>The whole write, when releasing the chain it replaces is such a step too.\<close>

lemma write_file_frame:
  assumes "\<And>c. overwritten path m = Some c \<Longrightarrow> R m (snd (free_chain c m))"
  shows "R m (snd (write_file_by_path pf path content m))"
proof (cases "\<not> starts_with slash path \<or> path = [slash]")
  case False
  have rest: "R m'' (snd (update_entry d off n e c z m''))"
    if "find_dir_entry_offset_by_short_name m d n e = Ok (off, x)" "R m m'" "R m' m''" for m' m'' d n e off x c z
    using that by (auto simp: data_start intro!: update_entry_frame dest: found_in_data)
  have release: "R m (snd (release_existing x m))"
    if "split_parent path = Ok (pp, nm)" "encode_short_name_8_3 nm = Ok (n, e)"
      "parent_cluster pp m = Ok d" "find_dir_entry_offset_by_short_name m d n e = Ok (off, x)"
    for pp nm n e d off x
    using assms overwrittenI [OF that(1-3)] that(4)
    by (auto simp: release_existing_def refl split: option.splits)
  show ?thesis
    unfolding write_file_by_path_def if_not_P [OF False]
    by (intro sget_prod_frame sget_frame sbind_frame) (auto intro: release rest store_content_frame)
qed (auto simp: write_file_by_path_def refl)

end

end
