(* ===== verification/Write_Boot.thy ===== *)
theory Write_Boot
  imports Write_Frame
begin

text \<open>
  The reserved sectors, the boot sector with its parameters among them, lie before the first table. No
  write touches them, on any volume and with any outcome: a volume mounts after a write as before.
\<close>

definition boot_same :: "fat32_mut \<Rightarrow> fat32_mut \<Rightarrow> bool" where
  "boot_same m m' \<longleftrightarrow> same_shape m m' \<and> take (m_fat_start_byte m) (m_disk m') = take (m_fat_start_byte m) (m_disk m)"

lemma boot_same_refl [simp]: "boot_same m m"
  by (simp add: boot_same_def)

interpretation boot_state: state_frame boot_same
  by unfold_locales (auto simp: boot_same_def same_shapeD(3) intro: same_shape_trans)

lemma boot_put_bytes: "m_fat_start_byte m \<le> off \<Longrightarrow> boot_same m (snd (put_bytes off ys m))"
  using put_bytes_shape [of off ys]
  by (auto simp: boot_same_def keeps_def put_bytes_def copy_into_def patch_def split: if_splits)

subsection \<open>The tables\<close>

lemma boot_write_copies: "m_fat_start_byte m \<le> fat0 \<Longrightarrow> boot_same m (snd (write_copies is fat0 fat_len c bs m))"
proof (induction "is" arbitrary: m)
  case (Cons i "is")
  have "boot_same m (snd (sbind (put_bytes (fat0 + i * fat_len + unat c * 4) bs)
      (\<lambda>_. write_copies is fat0 fat_len c bs) m))"
    using Cons.prems
    by (intro boot_state.sbind_frame boot_put_bytes Cons.IH) (auto simp: boot_same_def same_shapeD)
  then show ?case by (simp add: Let_def)
qed simp

lemma boot_write_entry: "boot_same m (snd (write_fat_entry_all c v m))"
  by (simp add: write_fat_entry_all_def Let_def boot_write_copies)

lemma boot_free_loop: "boot_same m (snd (free_loop cls m))"
  by (induction cls arbitrary: m) (auto intro!: boot_state.sbind_frame boot_write_entry)

lemma boot_free_chain: "boot_same m (snd (free_chain c m))"
  by (auto simp: free_chain_def intro!: boot_state.sget_frame boot_free_loop)

lemma boot_link_loop: "boot_same m (snd (link_loop cls m))"
  by (induction cls arbitrary: m) (auto intro!: boot_state.sbind_frame boot_write_entry)

lemma boot_alloc_chain: "boot_same m (snd (alloc_chain pf k m))"
  by (auto simp: alloc_chain_def intro!: boot_state.sget_frame boot_state.sbind_frame boot_link_loop)

subsection \<open>The whole write\<close>

interpretation boot: write_frame boot_same
proof unfold_locales
  show "boot_same m (snd (put_bytes off ys m))" if "m_data_start_byte m \<le> off" for m off ys
    using that by (intro boot_put_bytes) (simp add: data_start_eq)
qed (simp add: boot_same_def, rule boot_alloc_chain)

lemma write_file_boot: "write_file_by_path pf path content m = (r, m') \<Longrightarrow> boot_same m m'"
  using boot.write_file_frame [of path m pf content] boot_free_chain by simp

text \<open>When the boot sector lies before the tables, the volume mounts with the same parameters.\<close>

lemma parse_bpb_cong:
  assumes "length d' = length d" "take 512 d' = take 512 d"
  shows "parse_bpb d' = parse_bpb d"
proof -
  have "window d' 0 512 = window d 0 512" using assms(2) by (simp add: window_def)
  with assms(1) show ?thesis by (simp add: parse_bpb_def)
qed

lemma boot_same_mount:
  assumes "fat32_mut_new (m_disk m) = Ok m" "boot_same m m'" "512 \<le> m_fat_start_byte m"
  shows "fat32_mut_new (m_disk m') = Ok m'" and "fat32_new (m_disk m') = Ok (as_read m')"
proof -
  have shape: "same_shape m m'" using assms(2) by (simp add: boot_same_def)
  have "take 512 (m_disk m') = take 512 (m_disk m)"
    using assms(2,3) by (metis boot_same_def min.absorb_iff1 take_take)
  then have p: "parse_bpb (m_disk m') = parse_bpb (m_disk m)"
    by (rule parse_bpb_cong [OF same_shapeD(1) [OF shape]])
  have "m' = m\<lparr>m_disk := m_disk m'\<rparr>" using shape by (simp add: same_shape_def)
  with assms(1) p show "fat32_mut_new (m_disk m') = Ok m'"
    by (cases m'; cases m) (auto simp: fat32_mut_new_def res_simps)
  then show "fat32_new (m_disk m') = Ok (as_read m')"
    by (cases m') (auto simp: fat32_mut_new_def fat32_new_def as_read_def res_simps)
qed

text \<open>C19: whatever a write returns, no byte before the first table has changed, and the disk and the parameters
  of the view have their shape. When the boot sector lies before the tables, the disk mounts again,
  as the same volume.\<close>

theorem write_keeps_boot:
  assumes "fat32_mut_new d = Ok m" "write_file_by_path pf path content m = (r, m')"
  shows "mounted m' \<and> same_shape m m' \<and> take (m_fat_start_byte m) (m_disk m') = take (m_fat_start_byte m) d
    \<and> (512 \<le> m_fat_start_byte m \<longrightarrow> fat32_mut_new (m_disk m') = Ok m')"
proof -
  have m: "mounted m" "m_disk m = d" using fat32_mut_new_mounted [OF assms(1)] by simp_all
  note boot = write_file_boot [OF assms(2)]
  have "fat32_mut_new (m_disk m) = Ok m" using assms(1) m(2) by simp
  from boot_same_mount(1) [OF this boot] boot m mounted_same_shape show ?thesis
    by (auto simp: boot_same_def)
qed

theorem write_keeps_boot_witness:
  "\<exists>r m'. write_file_by_path Release (bytes ''/DIR/A'') [1, 2] test_volume = (r, m')
    \<and> take 512 (m_disk m') = take 512 build_test_image \<and> fat32_mut_new (m_disk m') = Ok m'"
proof (cases "write_file_by_path Release (bytes ''/DIR/A'') [1, 2] test_volume")
  case (Pair r m')
  then show ?thesis using write_keeps_boot [OF mount_test_image Pair] by simp
qed

end
