(* ===== verification/Utf8.thy ===== *)
theory Utf8
  imports Prelude
begin

text \<open>
  UTF-8, as the standard library of Rust checks and repairs it.
\<close>

text \<open>\<^verbatim>\<open>core::str::from_utf8\<close>.\<close>

definition cont :: "u8 \<Rightarrow> bool" where
  "cont b \<longleftrightarrow> 0x80 \<le> b \<and> b \<le> 0xBF"

fun valid_utf8 :: "u8 list \<Rightarrow> bool" where
  "valid_utf8 [] \<longleftrightarrow> True"
| "valid_utf8 (b # bs) \<longleftrightarrow>
     (if b < 0x80 then valid_utf8 bs
      else if 0xC2 \<le> b \<and> b \<le> 0xDF then
        (case bs of c # r \<Rightarrow> cont c \<and> valid_utf8 r | _ \<Rightarrow> False)
      else if 0xE0 \<le> b \<and> b \<le> 0xEF then
        (case bs of
           c # d # r \<Rightarrow> cont c \<and> (b = 0xE0 \<longrightarrow> 0xA0 \<le> c) \<and> (b = 0xED \<longrightarrow> c \<le> 0x9F) \<and> cont d \<and> valid_utf8 r
         | _ \<Rightarrow> False)
      else if 0xF0 \<le> b \<and> b \<le> 0xF4 then
        (case bs of
           c # d # e # r \<Rightarrow> cont c \<and> (b = 0xF0 \<longrightarrow> 0x90 \<le> c) \<and> (b = 0xF4 \<longrightarrow> c \<le> 0x8F) \<and> cont d \<and> cont e \<and> valid_utf8 r
         | _ \<Rightarrow> False)
      else False)"

definition from_utf8 :: "u8 list \<Rightarrow> rstr option" where
  "from_utf8 bs = (if valid_utf8 bs then Some bs else None)"

text \<open>\<^verbatim>\<open>String::from_utf8_lossy\<close>: each longest piece that begins a character and cannot be completed
  becomes the replacement character.\<close>

definition replacement :: "u8 list" where
  "replacement = [0xEF, 0xBF, 0xBD]"

fun from_utf8_lossy :: "u8 list \<Rightarrow> rstr" where
  "from_utf8_lossy [] = []"
| "from_utf8_lossy (b # bs) =
     (if b < 0x80 then b # from_utf8_lossy bs
      else if 0xC2 \<le> b \<and> b \<le> 0xDF then
        (case bs of
           c # r \<Rightarrow> if cont c then b # c # from_utf8_lossy r else replacement @ from_utf8_lossy bs
         | [] \<Rightarrow> replacement)
      else if 0xE0 \<le> b \<and> b \<le> 0xEF then
        (case bs of
           c # r \<Rightarrow>
             if \<not> (cont c \<and> (b = 0xE0 \<longrightarrow> 0xA0 \<le> c) \<and> (b = 0xED \<longrightarrow> c \<le> 0x9F)) then replacement @ from_utf8_lossy bs
             else (case r of
                d # r2 \<Rightarrow> if cont d then b # c # d # from_utf8_lossy r2 else replacement @ from_utf8_lossy r
              | [] \<Rightarrow> replacement)
         | [] \<Rightarrow> replacement)
      else if 0xF0 \<le> b \<and> b \<le> 0xF4 then
        (case bs of
           c # r \<Rightarrow>
             if \<not> (cont c \<and> (b = 0xF0 \<longrightarrow> 0x90 \<le> c) \<and> (b = 0xF4 \<longrightarrow> c \<le> 0x8F)) then replacement @ from_utf8_lossy bs
             else (case r of
                d # r2 \<Rightarrow>
                  if \<not> cont d then replacement @ from_utf8_lossy r
                  else (case r2 of
                     e # r3 \<Rightarrow> if cont e then b # c # d # e # from_utf8_lossy r3 else replacement @ from_utf8_lossy r2
                   | [] \<Rightarrow> replacement)
              | [] \<Rightarrow> replacement)
         | [] \<Rightarrow> replacement)
      else replacement @ from_utf8_lossy bs)"

lemma from_utf8_lossy_empty [simp]: "from_utf8_lossy bs = [] \<longleftrightarrow> bs = []"
  by (cases bs) (auto simp: replacement_def split: list.splits)

text \<open>Text that is valid is not repaired.\<close>

lemma from_utf8_lossy_valid: "valid_utf8 bs \<Longrightarrow> from_utf8_lossy bs = bs"
proof (induction bs rule: valid_utf8.induct)
  case (2 b bs)
  consider "b < 0x80" | "\<not> b < 0x80" "0xC2 \<le> b \<and> b \<le> 0xDF" | "\<not> b < 0x80" "\<not> (0xC2 \<le> b \<and> b \<le> 0xDF)" "0xE0 \<le> b \<and> b \<le> 0xEF"
    | "\<not> b < 0x80" "\<not> (0xC2 \<le> b \<and> b \<le> 0xDF)" "\<not> (0xE0 \<le> b \<and> b \<le> 0xEF)" "0xF0 \<le> b \<and> b \<le> 0xF4"
    using "2.prems" by (simp split: if_splits)
  then show ?case
  proof cases
    case 1
    with "2.IH"(1) "2.prems" show ?thesis by simp
  next
    case 2
    with "2.prems" obtain c r where "bs = c # r" "cont c" "valid_utf8 r" by (auto simp only: valid_utf8.simps if_False if_True simp_thms split: list.splits)
    with "2.IH"(2) 2 show ?thesis by (subst from_utf8_lossy.simps(2)) (auto simp del: from_utf8_lossy.simps)
  next
    case 3
    with "2.prems" obtain c d r where "bs = c # d # r" "cont c" "b = 0xE0 \<longrightarrow> 0xA0 \<le> c" "b = 0xED \<longrightarrow> c \<le> 0x9F" "cont d" "valid_utf8 r"
      by (auto simp only: valid_utf8.simps if_False if_True simp_thms split: list.splits)
    with "2.IH"(3) 3 show ?thesis by (subst from_utf8_lossy.simps(2)) (auto simp del: from_utf8_lossy.simps)
  next
    case 4
    with "2.prems" obtain c d e r where "bs = c # d # e # r" "cont c" "b = 0xF0 \<longrightarrow> 0x90 \<le> c" "b = 0xF4 \<longrightarrow> c \<le> 0x8F" "cont d" "cont e" "valid_utf8 r"
      by (auto simp only: valid_utf8.simps if_False if_True simp_thms split: list.splits)
    with "2.IH"(4) 4 show ?thesis by (subst from_utf8_lossy.simps(2)) (auto simp del: from_utf8_lossy.simps)
  qed
qed simp

end
