(* ===== verification/Cli.thy ===== *)
theory Cli
  imports Write_File Write_Boot Utf8
begin

text \<open>
  The command line tool, \<^verbatim>\<open>fat32/src/main.rs\<close>: its arguments, the resolution of paths against a current
  directory, and the interactive shell. The files of the host are reached through \<open>os_read\<close> and
  \<open>os_write\<close>, parameters of the model with the state of the host they work on. What is printed is a list
  of messages, one constructor for each print of the source with the values it shows (of a file, the bytes
  before they are decoded for the terminal). The wording of the messages (the usage and the help are in \<open>Cli_Text\<close>), and which of the two output
  streams they go to, are left out, and printing is taken to succeed.
\<close>

subsection \<open>Paths\<close>

definition push_component :: "rstr list \<Rightarrow> rstr \<Rightarrow> rstr list" where
  "push_component comps part =
     (if part = [] \<or> part = [dot] then comps
      else if part = [dot, dot] then butlast comps
      else comps @ [part])"

definition resolve_path :: "rstr \<Rightarrow> rstr \<Rightarrow> rstr" where
  "resolve_path current path =
     (let comps =
        (if starts_with slash path then foldl push_component [] (split_on slash path)
         else foldl push_component (foldl push_component [] (split_on slash current)) (split_on slash path))
      in if comps = [] then [slash] else [slash] @ join [slash] comps)"

subsection \<open>Messages and state\<close>

datatype message =
    Usage
  | Unknown_argument rstr
  | Cannot_read rstr
  | Cannot_write rstr
  | Fat_failure fat_error
  | Cat_needs_path
  | Put_needs_path
  | Put_needs_source
  | Put_usage
  | Cat_usage
  | Put_failed rstr fat_error
  | Put_done rstr rstr
  | Listing rstr
  | Entry bool rstr u32
  | Ls_failed rstr fat_error
  | Content "u8 list"
  | File_not_found rstr
  | Cat_failed rstr fat_error
  | Banner
  | Prompt rstr
  | Shell_help
  | Directory rstr
  | Not_a_directory rstr
  | Directory_not_found rstr
  | Cd_failed rstr fat_error
  | Unknown_command rstr

text \<open>The files of the host: what reading a path gives, \<open>None\<close> for an error, and what writing does.\<close>

record 'h os =
  os_read :: "rstr \<Rightarrow> 'h \<Rightarrow> u8 list option"
  os_write :: "rstr \<Rightarrow> u8 list \<Rightarrow> 'h \<Rightarrow> bool \<times> 'h"

text \<open>The image in memory, the current directory, the output so far, the host.\<close>

record 'h cli =
  data :: "u8 list"
  cwd :: rstr
  out :: "message list"
  host :: 'h

type_synonym ('h, 'a) cli_prog = "('h cli, unit, 'a) prog"

definition say :: "message \<Rightarrow> ('h, unit) cli_prog" where
  "say msg = (\<lambda>s. (Ok (), s\<lparr>out := out s @ [msg]\<rparr>))"

definition say_all :: "message list \<Rightarrow> ('h, unit) cli_prog" where
  "say_all msgs = (\<lambda>s. (Ok (), s\<lparr>out := out s @ msgs\<rparr>))"

text \<open>\<^verbatim>\<open>match Fat32::new(&data)\<close>: go on with the volume, or report the error.\<close>

definition with_volume :: "(fat32 \<Rightarrow> ('h, unit) cli_prog) \<Rightarrow> ('h, unit) cli_prog" where
  "with_volume f = (\<lambda>s. case fat32_new (data s) of
      Ok ro \<Rightarrow> f ro s
    | Err e \<Rightarrow> say (Fat_failure e) s
    | Panic \<Rightarrow> (Panic, s))"

subsection \<open>Commands\<close>

definition run_ls :: "fat32 \<Rightarrow> rstr \<Rightarrow> ('h, unit) cli_prog" where
  "run_ls fs path = (case list_dir_path fs path of
      Ok es \<Rightarrow> say_all (Listing path # map (\<lambda>e. Entry (is_dir e) (e_name e) (e_size e)) es)
    | Err e \<Rightarrow> say (Ls_failed path e)
    | Panic \<Rightarrow> Pair Panic)"

definition run_cat :: "fat32 \<Rightarrow> rstr \<Rightarrow> ('h, unit) cli_prog" where
  "run_cat fs path = (case read_file_by_path fs path of
      Ok (Some bs) \<Rightarrow> say (Content bs)
    | Ok None \<Rightarrow> say (File_not_found path)
    | Err e \<Rightarrow> say (Cat_failed path e)
    | Panic \<Rightarrow> Pair Panic)"

definition run_cd :: "fat32 \<Rightarrow> rstr \<Rightarrow> ('h, unit) cli_prog" where
  "run_cd fs target = (case open_path fs target of
      Ok (Some entry) \<Rightarrow>
        if is_dir entry then (\<lambda>s. (Ok (), s\<lparr>cwd := target\<rparr>)) else say (Not_a_directory target)
    | Ok None \<Rightarrow> say (Directory_not_found target)
    | Err e \<Rightarrow> say (Cd_failed target e)
    | Panic \<Rightarrow> Pair Panic)"

text \<open>The body of \<^verbatim>\<open>put\<close>, the same in the shell and behind \<^verbatim>\<open>--put\<close>: read the source, write the file
  into the image in memory, write the image back to the host.\<close>

definition store_image :: "'h os \<Rightarrow> rstr \<Rightarrow> message \<Rightarrow> ('h, unit) cli_prog" where
  "store_image os img ok = (\<lambda>s. case os_write os img (data s) (host s) of
      (True, h) \<Rightarrow> say ok (s\<lparr>host := h\<rparr>)
    | (False, h) \<Rightarrow> say (Cannot_write img) (s\<lparr>host := h\<rparr>))"

definition put_content :: "'h os \<Rightarrow> profile \<Rightarrow> rstr \<Rightarrow> rstr \<Rightarrow> rstr \<Rightarrow> u8 list \<Rightarrow> ('h, unit) cli_prog" where
  "put_content os pf img fpath src content = (\<lambda>s. case fat32_mut_new (data s) of
      Err e \<Rightarrow> say (Fat_failure e) s
    | Panic \<Rightarrow> (Panic, s)
    | Ok rw \<Rightarrow>
        (case write_file_by_path pf fpath content rw of
           (Ok _, m) \<Rightarrow> store_image os img (Put_done src fpath) (s\<lparr>data := m_disk m\<rparr>)
         | (Err e, m) \<Rightarrow> say (Put_failed fpath e) (s\<lparr>data := m_disk m\<rparr>)
         | (Panic, m) \<Rightarrow> (Panic, s\<lparr>data := m_disk m\<rparr>)))"

definition put_file :: "'h os \<Rightarrow> profile \<Rightarrow> rstr \<Rightarrow> rstr \<Rightarrow> rstr \<Rightarrow> ('h, unit) cli_prog" where
  "put_file os pf img fpath src = (\<lambda>s. case os_read os src (host s) of
      None \<Rightarrow> say (Cannot_read src) s
    | Some content \<Rightarrow> put_content os pf img fpath src content s)"

subsection \<open>The shell\<close>

text \<open>The characters that \<^verbatim>\<open>split_whitespace\<close> splits at, in UTF-8; at the head of a string, their length.\<close>

definition whitespace :: "u8 list list" where
  "whitespace =
     [[0x09], [0x0A], [0x0B], [0x0C], [0x0D], [0x20], [0xC2, 0x85], [0xC2, 0xA0], [0xE1, 0x9A, 0x80]]
     @ map (\<lambda>i. [0xE2, 0x80, 0x80 + word_of_nat i]) [0..<11]
     @ [[0xE2, 0x80, 0xA8], [0xE2, 0x80, 0xA9], [0xE2, 0x80, 0xAF], [0xE2, 0x81, 0x9F], [0xE3, 0x80, 0x80]]"

definition whitespace_len :: "rstr \<Rightarrow> nat" where
  "whitespace_len s = (case find (\<lambda>w. take (length w) s = w) whitespace of Some w \<Rightarrow> length w | None \<Rightarrow> 0)"

text \<open>The words of a string, \<open>word\<close> being the one begun. Whether \<^verbatim>\<open>trim\<close> comes first makes no difference.\<close>

function words_from :: "rstr \<Rightarrow> rstr \<Rightarrow> rstr list" where
  "words_from word [] = (if word = [] then [] else [word])"
| "words_from word (b # s) =
     (if whitespace_len (b # s) = 0 then words_from (word @ [b]) s
      else (if word = [] then [] else [word]) @ words_from [] (drop (whitespace_len (b # s) - 1) s))"
  by pat_completeness auto
termination by (relation "measure (\<lambda>(_, s). length s)") auto

definition split_whitespace :: "rstr \<Rightarrow> rstr list" where
  "split_whitespace s = words_from [] s"

text \<open>What a command does, but for the ones that leave the loop, in the current directory \<open>cur\<close> and with
  the words after it.\<close>

definition shell_action ::
  "'h os \<Rightarrow> profile \<Rightarrow> rstr \<Rightarrow> rstr \<Rightarrow> rstr \<Rightarrow> rstr list \<Rightarrow> ('h, unit) cli_prog" where
  "shell_action os pf img cur cmd parts =
     (if cmd = bytes ''help'' then say Shell_help
      else if cmd = bytes ''pwd'' then say (Directory cur)
      else if cmd = bytes ''ls'' then
        with_volume (\<lambda>ro. run_ls ro (case parts of p # _ \<Rightarrow> resolve_path cur p | [] \<Rightarrow> cur))
      else if cmd = bytes ''cat'' then
        with_volume (\<lambda>ro. case parts of p # _ \<Rightarrow> run_cat ro (resolve_path cur p) | [] \<Rightarrow> say Cat_usage)
      else if cmd = bytes ''cd'' then
        with_volume (\<lambda>ro. run_cd ro (case parts of p # _ \<Rightarrow> resolve_path cur p | [] \<Rightarrow> [slash]))
      else if cmd = bytes ''put'' then
        (case parts of
           p # src # _ \<Rightarrow> put_file os pf img (resolve_path cur p) src
         | _ \<Rightarrow> say Put_usage)
      else say (Unknown_command cmd))"

text \<open>The result tells whether the loop goes on.\<close>

definition shell_command ::
  "'h os \<Rightarrow> profile \<Rightarrow> rstr \<Rightarrow> rstr \<Rightarrow> rstr list \<Rightarrow> ('h, bool) cli_prog" where
  "shell_command os pf img cmd parts = (\<lambda>s.
     if cmd = bytes ''exit'' \<or> cmd = bytes ''quit'' then (Ok False, s)
     else sbind (shell_action os pf img (cwd s) cmd parts) (\<lambda>_. sret True) s)"

text \<open>What a turn of the loop meets: the prompt cannot be flushed, the line cannot be read, the input is
  at its end, or a line.\<close>

datatype turn = Flush_error | Read_error | End_of_input | Line rstr

text \<open>After the turns of the list the shell waits for the next.\<close>

fun shell_loop :: "'h os \<Rightarrow> profile \<Rightarrow> rstr \<Rightarrow> turn list \<Rightarrow> ('h, unit) cli_prog" where
  "shell_loop os pf img [] = (\<lambda>s. say (Prompt (cwd s)) s)"
| "shell_loop os pf img (t # ts) =
     sbind (\<lambda>s. say (Prompt (cwd s)) s) (\<lambda>_.
       case t of
         Line line \<Rightarrow>
           (case split_whitespace line of
              [] \<Rightarrow> shell_loop os pf img ts
            | cmd # parts \<Rightarrow>
                sbind (shell_command os pf img cmd parts) (\<lambda>go. if go then shell_loop os pf img ts else sret ()))
       | _ \<Rightarrow> sret ())"

definition run_shell :: "'h os \<Rightarrow> profile \<Rightarrow> rstr \<Rightarrow> turn list \<Rightarrow> ('h, unit) cli_prog" where
  "run_shell os pf img ts = (\<lambda>s. sbind (say Banner) (\<lambda>_. shell_loop os pf img ts) (s\<lparr>cwd := [slash]\<rparr>))"

subsection \<open>The arguments\<close>

datatype command = Ls | Cat | Put

record cli_args =
  dump_path :: "rstr option"
  command :: "command option"
  target_a :: "rstr option"
  target_b :: "rstr option"

text \<open>
  \<^verbatim>\<open>args.next()\<close>. The arguments are what the system passes, any bytes; the iterator of \<^verbatim>\<open>env::args\<close>
  converts each when it comes to it, and panics when it is not valid Unicode.
\<close>

fun next_arg :: "u8 list list \<Rightarrow> (rstr, rstr option) res" where
  "next_arg [] = Ok None"
| "next_arg (a # as) = (if valid_utf8 a then Ok (Some a) else Panic)"

text \<open>The loop over the arguments; \<open>Err\<close> the first that is not known, where the loop is left.\<close>

function parse_args :: "u8 list list \<Rightarrow> cli_args \<Rightarrow> (rstr, cli_args) res" where
  "parse_args [] a = Ok a"
| "parse_args (arg # rest) a =
     (if \<not> valid_utf8 arg then Panic
      else if arg = bytes ''--file'' \<or> arg = bytes ''-f'' then
        rbind (next_arg rest) (\<lambda>x. parse_args (tl rest) (a\<lparr>dump_path := x\<rparr>))
      else if arg = bytes ''--ls'' then
        rbind (next_arg rest) (\<lambda>x. parse_args (tl rest) (a\<lparr>command := Some Ls, target_a := x\<rparr>))
      else if arg = bytes ''--cat'' then
        rbind (next_arg rest) (\<lambda>x. parse_args (tl rest) (a\<lparr>command := Some Cat, target_a := x\<rparr>))
      else if arg = bytes ''--put'' then
        rbind (next_arg rest) (\<lambda>x. rbind (next_arg (tl rest)) (\<lambda>y.
          parse_args (tl (tl rest)) (a\<lparr>command := Some Put, target_a := x, target_b := y\<rparr>)))
      else Err arg)"
  by pat_completeness auto
termination by (relation "measure (\<lambda>(as, _). length as)") auto

definition no_args :: cli_args where
  "no_args = \<lparr>dump_path = None, command = None, target_a = None, target_b = None\<rparr>"

text \<open>\<^verbatim>\<open>env::args().skip(1)\<close> goes over the name of the program too, and converts it.\<close>

definition main_args :: "u8 list list \<Rightarrow> (rstr, cli_args) res" where
  "main_args argv = rbind (next_arg argv) (\<lambda>_. parse_args (tl argv) no_args)"

text \<open>What the parsed arguments ask for, once the image is in memory.\<close>

definition main_command :: "'h os \<Rightarrow> profile \<Rightarrow> rstr \<Rightarrow> turn list \<Rightarrow> cli_args \<Rightarrow> ('h, unit) cli_prog" where
  "main_command os pf img ts a = (case command a of
      Some Ls \<Rightarrow>
        with_volume (\<lambda>ro. run_ls ro (case target_a a of Some p \<Rightarrow> resolve_path [slash] p | None \<Rightarrow> [slash]))
    | Some Cat \<Rightarrow>
        with_volume (\<lambda>ro. case target_a a of
            None \<Rightarrow> say_all [Cat_needs_path, Usage]
          | Some rel \<Rightarrow> run_cat ro (resolve_path [slash] rel))
    | Some Put \<Rightarrow>
        (case target_a a of
           None \<Rightarrow> say_all [Put_needs_path, Usage]
         | Some fpath \<Rightarrow>
             (case target_b a of
                None \<Rightarrow> say_all [Put_needs_source, Usage]
              | Some src \<Rightarrow> put_file os pf img fpath src))
    | None \<Rightarrow> run_shell os pf img ts)"

definition run_main :: "'h os \<Rightarrow> profile \<Rightarrow> u8 list list \<Rightarrow> turn list \<Rightarrow> ('h, unit) cli_prog" where
  "run_main os pf argv ts = (\<lambda>s.
     case main_args argv of
       Panic \<Rightarrow> (Panic, s)
     | Err arg \<Rightarrow> say_all [Unknown_argument arg, Usage] s
     | Ok a \<Rightarrow>
         (case dump_path a of
            None \<Rightarrow> say Usage s
          | Some img \<Rightarrow>
              (case os_read os img (host s) of
                 None \<Rightarrow> say (Cannot_read img) s
               | Some bs \<Rightarrow> main_command os pf img ts a (s\<lparr>data := bs\<rparr>))))"

end
