(* ===== verification/Test_Volume.thy ===== *)
theory Test_Volume
  imports Write_File
begin

text \<open>
  The test volume seen through the operations: the slots of its root directory, the entries they
  parse to, and where a new name goes. These are the concrete inputs of the witnesses in the root
  theory.
\<close>

subsection \<open>The root directory of the test volume\<close>

lemma test_root_slots:
  "dir_slots (as_read test_volume) [2] = hello_entry # subdir_entry # replicate 14 (replicate 32 0)"
proof -
  have two: "in_data (as_read test_volume) c" if "c \<in> set [2]" for c
    using that by (simp add: in_data_def)
  have upt: "[0..<16] = [0, 1, 2, 3, 4, 5, 6, 7, 8, 9, 10, 11, 12, 13, 14, 15 :: nat]"
    by (simp add: upt_rec)
  have fourteen: "replicate 14 z = [z, z, z, z, z, z, z, z, z, z, z, z, z, z]" for z :: "u8 list"
    by (simp add: numeral_eq_Suc)
  have r: "(0 :: u8) # replicate 31 0 = replicate 32 0" by (simp flip: replicate_Suc)
  have zero: "window build_test_image a 32 = replicate 32 0" if "a \<in> {1088, 1120, 1152, 1184, 1216, 1248, 1280,
      1312, 1344, 1376, 1408, 1440, 1472, 1504}" for a
    using that by (auto simp: window_image image_eval patch_def r)
  have first: "window build_test_image 1024 32 = hello_entry" "window build_test_image 1056 32 = subdir_entry"
    by (simp_all add: window_image image_eval patch_def hello_entry_eq subdir_entry_eq)
  show ?thesis
    using dir_slots_places [of "[2]" test_volume, OF two]
    by (simp add: slot_places_def cluster_places_def cluster_at_def upt slot_def fourteen zero first)
qed

lemma parse_image_entries:
  "parse hello_entry = Some \<lparr>e_name = bytes ''HELLO.TXT'', e_attrs = from_byte 0x20, e_first_cluster = 3, e_size = 5\<rparr>"
  "parse subdir_entry = Some \<lparr>e_name = bytes ''DIR'', e_attrs = from_byte 0x10, e_first_cluster = 4, e_size = 0\<rparr>"
  unfolding hello_entry_eq subdir_entry_eq by code_simp+

lemma parse_free: "parse (replicate 32 0) = None"
  by (simp add: parse_eq_None_iff)

lemma takeWhile_test_root:
  "takeWhile live (dir_slots (as_read test_volume) [2]) = [hello_entry, subdir_entry]"
proof -
  have "live hello_entry" "live subdir_entry"
    unfolding hello_entry_eq subdir_entry_eq by code_simp+
  moreover have "replicate 14 (replicate 32 (0 :: u8)) = replicate 32 0 # replicate 13 (replicate 32 0)"
    by (simp flip: replicate_Suc)
  ultimately show ?thesis by (simp add: test_root_slots live_def)
qed

lemma canonical_test_root: "canonical_dir test_volume [2]"
proof -
  have "canonical hello_entry" "canonical subdir_entry"
    unfolding hello_entry_eq subdir_entry_eq by code_simp+
  then show ?thesis by (auto simp: canonical_dir_def takeWhile_test_root)
qed

lemma new_name:
  "split_parent (bytes ''/NEW.TXT'') = Ok (bytes ''/'', bytes ''NEW.TXT'')"
  "encode_short_name_8_3 (bytes ''NEW.TXT'') = Ok (bytes ''NEW     '', bytes ''TXT'')"
  "plain_name (bytes ''NEW.TXT'')" "starts_with slash (bytes ''/NEW.TXT'')"
  "bytes ''/'' = [slash]"
  by code_simp+

lemma find_new:
  "find_dir_entry_offset_by_short_name test_volume 2 (bytes ''NEW     '') (bytes ''TXT'') = Ok (None, None)"
proof -
  note ch = chain_atD [OF chain_at_test_volume(1)]
  have slots: "map (slot test_volume) (slot_places test_volume [2])
      = hello_entry # subdir_entry # replicate 14 (replicate 32 0)"
    using dir_slots_places [of "[2]" test_volume, OF ch(5)] test_root_slots by simp
  then obtain p q ps where ps: "slot_places test_volume [2] = p # q # ps" "slot test_volume p = hello_entry"
    "slot test_volume q = subdir_entry" "map (slot test_volume) ps = replicate 14 (replicate 32 0)"
    by auto
  then obtain r rs where r: "ps = r # rs" "slot test_volume r = replicate 32 0"
    by (cases ps) (auto simp: numeral_eq_Suc)
  have no: "\<not> matches (bytes ''NEW     '') (bytes ''TXT'') hello_entry" "live hello_entry"
    "\<not> matches (bytes ''NEW     '') (bytes ''TXT'') subdir_entry" "live subdir_entry"
    unfolding hello_entry_eq subdir_entry_eq by code_simp+
  have "find_slot test_volume (bytes ''NEW     '') (bytes ''TXT'') (slot_places test_volume [2]) = Some (None, None)"
    unfolding ps(1) r(1) using ps(2,3) r(2) no by (simp add: live_def)
  then show ?thesis
    using ch(1) find_entry_loop_spec [of "[2]" test_volume, OF ch(5)]
    by (simp add: find_dir_entry_offset_by_short_name_def)
qed

lemma new_ready:
  "(9 :: u32) < 0x0FFFFFF8" "parent_cluster (bytes ''/'') test_volume = Ok 2"
  "old_chain test_volume None []" "set ([] :: u32 list) \<inter> set [2] = {}"
  "(None :: nat option) = None \<longrightarrow> (\<exists>s\<in>set (dir_slots (as_read test_volume) [2]). \<not> used s)"
  "div_ceil (length (bytes ''NEW!'')) (m_cluster_size test_volume)
     \<le> min 4096 (length (free_clusters test_volume 9))"
  "length (bytes ''NEW!'') < 2 ^ 32"
  by (simp_all add: parent_cluster_def new_name old_chain_def test_root_slots used_def div_ceil_def
      free_clusters_test_volume)

text \<open>Every premise of a write of \<^verbatim>\<open>/NEW.TXT\<close>, in the order the properties state them.\<close>

lemmas new_txt = mounted_test_volume test_volume_max_cluster new_ready(1) new_name(4,1,2,3) new_ready(2)
  chain_at_test_volume(1) canonical_test_root find_new new_ready(3-7)

text \<open>The file that is there already.\<close>

lemma hello_name:
  "split_parent (bytes ''/HELLO.TXT'') = Ok (bytes ''/'', bytes ''HELLO.TXT'')"
  "encode_short_name_8_3 (bytes ''HELLO.TXT'') = Ok (bytes ''HELLO   '', bytes ''TXT'')"
  "starts_with slash (bytes ''/HELLO.TXT'')"
  by code_simp+

lemma find_hello:
  assumes "parse hello_entry = Some en"
  shows "find_dir_entry_offset_by_short_name test_volume 2 (bytes ''HELLO   '') (bytes ''TXT'')
    = Ok (Some 1024, Some en)"
proof -
  note ch = chain_atD [OF chain_at_test_volume(1)]
  have "slot_places test_volume [2] = map (\<lambda>i. (1024 + 32 * i, 1536)) [0..<16]"
    by (simp add: slot_places_def cluster_places_def cluster_at_def)
  then obtain ps where ps: "slot_places test_volume [2] = (1024, 1536) # ps"
    by (simp add: upt_rec)
  then have "slot test_volume (1024, 1536) = hello_entry"
    using dir_slots_places [of "[2]" test_volume, OF ch(5)] test_root_slots by simp
  moreover have "matches (bytes ''HELLO   '') (bytes ''TXT'') hello_entry" "live hello_entry"
    unfolding hello_entry_eq by code_simp+
  ultimately have "find_slot test_volume (bytes ''HELLO   '') (bytes ''TXT'') (slot_places test_volume [2])
      = Some (Some 1024, Some en)"
    unfolding ps using assms by simp
  then show ?thesis
    using ch(1) find_entry_loop_spec [of "[2]" test_volume, OF ch(5)]
    by (simp add: find_dir_entry_offset_by_short_name_def)
qed

lemma roomy_test_root: "roomy_end test_volume [2]"
  unfolding roomy_end_def Let_def takeWhile_test_root by simp

lemma list_test_root:
  "list_dir_cluster (as_read test_volume) 2
    = Ok [\<lparr>e_name = bytes ''HELLO.TXT'', e_attrs = from_byte 0x20, e_first_cluster = 3, e_size = 5\<rparr>,
          \<lparr>e_name = bytes ''DIR'', e_attrs = from_byte 0x10, e_first_cluster = 4, e_size = 0\<rparr>]"
  using list_dir_chain [OF chain_at_test_volume(1)]
  unfolding listing_def takeWhile_test_root
  by (simp add: List.map_filter_simps parse_image_entries)

end
