(* ===== verification/Cli_Facts.thy ===== *)
theory Cli_Facts
  imports Cli Test_Volume
begin

text \<open>
  What holds of the command line tool: resolved paths are normal, only \<^verbatim>\<open>put\<close> changes the image or the
  host, a \<^verbatim>\<open>put\<close> is seen by the next \<^verbatim>\<open>cat\<close>, no run panics but on an argument that is not
  Unicode, and there is no way back to the root.
\<close>

subsection \<open>Resolved paths\<close>

definition normal :: "rstr list \<Rightarrow> bool" where
  "normal cs \<longleftrightarrow> (\<forall>c\<in>set cs. c \<noteq> [] \<and> c \<noteq> [dot] \<and> c \<noteq> [dot, dot] \<and> slash \<notin> set c)"

lemma split_on_pieces: "p \<in> set (split_on b s) \<Longrightarrow> b \<notin> set p"
  by (induction b s arbitrary: p rule: split_on.induct) (auto split: list.splits if_splits)

lemma push_normal: "normal cs \<Longrightarrow> slash \<notin> set p \<Longrightarrow> normal (push_component cs p)"
  by (auto simp: push_component_def normal_def dest: in_set_butlastD)

lemma pushes_normal: "normal cs \<Longrightarrow> \<forall>p\<in>set ps. slash \<notin> set p \<Longrightarrow> normal (foldl push_component cs ps)"
  by (induction ps arbitrary: cs) (auto intro: push_normal)

lemma pushes_keep: "normal (cs @ ps) \<Longrightarrow> foldl push_component cs ps = cs @ ps"
  by (induction ps arbitrary: cs) (auto simp: push_component_def normal_def)

lemma pushes_filter: "foldl push_component cs (filter (\<lambda>s. s \<noteq> []) ps) = foldl push_component cs ps"
  by (induction ps arbitrary: cs) (auto simp: push_component_def)

lemma components_slash: "components (slash # s) = components s"
  using components_append [of "[]" s] by simp

lemma components_join: "normal cs \<Longrightarrow> components (join [slash] cs) = cs"
proof (induction "[slash]" cs rule: join.induct)
  case (2 p)
  then show ?case by (simp add: normal_def components_single)
next
  case (3 p q ps)
  then have "components (join [slash] (q # ps)) = q # ps" "components p = [p]"
    by (simp_all add: normal_def components_single)
  then show ?case using components_append [of p "join [slash] (q # ps)"] by simp
qed simp

text \<open>
  The components that a path resolves to, told without a stack: the components are read from the last one
  back, \<open>n\<close> being the number of \<^verbatim>\<open>..\<close> met whose name is still to come. A name survives when no \<^verbatim>\<open>..\<close>
  waits for it; a \<^verbatim>\<open>..\<close> with no name before it is lost at the root.
\<close>

fun surviving :: "nat \<Rightarrow> rstr list \<Rightarrow> rstr list" where
  "surviving n [] = []"
| "surviving n (c # cs) =
     (if c = [dot] then surviving n cs
      else if c = [dot, dot] then surviving (Suc n) cs
      else if n = 0 then c # surviving 0 cs
      else surviving (n - 1) cs)"

definition target_components :: "rstr \<Rightarrow> rstr \<Rightarrow> rstr list" where
  "target_components current path =
     rev (surviving 0 (rev (if starts_with slash path then components path else components current @ components path)))"

lemma surviving_drop: "surviving n cs = drop n (surviving 0 cs)"
proof (induction cs arbitrary: n)
  case (Cons c cs)
  have "drop n (drop 1 (surviving 0 cs)) = drop (Suc n) (surviving 0 cs)" by simp
  with Cons.IH [of 1] Cons.IH [of "Suc n"] Cons.IH [of "n - 1"] Cons.IH [of n]
  show ?case by (cases n) simp_all
qed simp

lemma pushes_surviving: "[] \<notin> set cs \<Longrightarrow> foldl push_component [] cs = rev (surviving 0 (rev cs))"
proof (induction cs rule: rev_induct)
  case (snoc c cs)
  then show ?case
    using surviving_drop [of 1 "rev cs"]
    by (auto simp: push_component_def butlast_rev drop_Suc)
qed simp

lemma no_empty_component: "[] \<notin> set (components p)"
  by (simp add: components_def)

lemma target_pushes:
  "target_components current path =
     foldl push_component (if starts_with slash path then [] else foldl push_component [] (components current))
       (components path)"
  using pushes_surviving [of "components path"] pushes_surviving [of "components current @ components path"]
  by (simp add: target_components_def no_empty_component)

lemma target_normal: "normal (target_components current path)"
proof -
  have "normal (foldl push_component cs (components p))" if "normal cs" for cs p
    using that split_on_pieces by (intro pushes_normal) (auto simp: components_def)
  moreover have "normal []" by (simp add: normal_def)
  ultimately show ?thesis by (simp add: target_pushes)
qed

lemma resolve_path_eq: "resolve_path current path = slash # join [slash] (target_components current path)"
  by (simp add: resolve_path_def target_pushes components_def pushes_filter Let_def)

lemma components_resolve: "components (resolve_path current path) = target_components current path"
  by (simp add: resolve_path_eq components_slash components_join target_normal)

lemma starts_with_resolve [simp]: "starts_with slash (resolve_path current path)"
  by (simp add: resolve_path_eq starts_with_def)

text \<open>C35: a resolved path is absolute and normal: no component of it is empty, \<^verbatim>\<open>.\<close> or \<^verbatim>\<open>..\<close>. Resolving it again,
  from any directory, changes nothing; a relative path goes on from the components of the current
  directory, an absolute one from the root; a \<^verbatim>\<open>..\<close> takes away the name before it that no other \<^verbatim>\<open>..\<close>
  takes, and nothing at the root, as \<open>surviving\<close> says by reading the components backwards.\<close>

theorem resolve_path_normal:
  "starts_with slash (resolve_path current path)
    \<and> normal (components (resolve_path current path))
    \<and> components (resolve_path current path) = target_components current path
    \<and> resolve_path other (resolve_path current path) = resolve_path current path"
proof -
  have "target_components other (resolve_path current path) = target_components current path"
    using pushes_keep [of "[]" "target_components current path"]
    by (simp add: target_pushes [of other] components_resolve target_normal)
  then have "resolve_path other (resolve_path current path) = resolve_path current path"
    by (simp only: resolve_path_eq)
  then show ?thesis by (simp add: components_resolve target_normal)
qed

subsection \<open>What a command changes\<close>

text \<open>Programs that print and may change the current directory, but neither the image nor the host.\<close>

definition reads_only :: "('h, 'a) cli_prog \<Rightarrow> bool" where
  "reads_only p \<longleftrightarrow> (\<forall>s. data (snd (p s)) = data s \<and> host (snd (p s)) = host s)"

lemma reads_only_simps [simp]: "reads_only (say m)" "reads_only (say_all ms)" "reads_only (Pair r)"
  "reads_only (sret x)" "reads_only (\<lambda>s. say (f s) s)"
  by (simp_all add: reads_only_def say_def say_all_def)

lemma reads_only_sbind: "reads_only p \<Longrightarrow> (\<And>x. reads_only (f x)) \<Longrightarrow> reads_only (sbind p f)"
  by (auto simp: reads_only_def sbind_def split: prod.splits res.splits) (metis snd_conv)+

lemma reads_only_cwd [simp]: "reads_only (\<lambda>s. (Ok (), s\<lparr>cwd := p\<rparr>))"
  by (simp add: reads_only_def)

lemma reads_only_run [simp]: "reads_only (run_ls ro p)" "reads_only (run_cat ro p)" "reads_only (run_cd ro p)"
  by (simp_all add: run_ls_def run_cat_def run_cd_def split: res.split option.split)

lemma reads_only_volume [simp]: "(\<And>ro. reads_only (f ro)) \<Longrightarrow> reads_only (with_volume f)"
  by (simp add: reads_only_def with_volume_def say_def split: res.split)

lemma reads_only_action: "cmd \<noteq> bytes ''put'' \<Longrightarrow> reads_only (shell_action os pf img cur cmd parts)"
  by (simp add: shell_action_def split: list.split)

lemma shell_command_reads_only:
  assumes "cmd \<noteq> bytes ''put''"
  shows "reads_only (shell_command os pf img cmd parts)"
proof -
  have "reads_only (sbind (shell_action os pf img cur cmd parts) (\<lambda>_. sret True))" for cur
    by (intro reads_only_sbind reads_only_action [OF assms]) simp
  then show ?thesis by (simp add: shell_command_def reads_only_def)
qed

text \<open>The lines that begin with the word \<^verbatim>\<open>put\<close>.\<close>

fun is_put :: "turn \<Rightarrow> bool" where
  "is_put (Line line) \<longleftrightarrow> (case split_whitespace line of cmd # _ \<Rightarrow> cmd = bytes ''put'' | [] \<Rightarrow> False)"
| "is_put _ \<longleftrightarrow> False"

lemma shell_loop_reads_only: "\<forall>t\<in>set ts. \<not> is_put t \<Longrightarrow> reads_only (shell_loop os pf img ts)"
proof (induction ts)
  case (Cons t ts)
  then show ?case
    by (auto intro!: reads_only_sbind shell_command_reads_only split: turn.split list.split if_split)
qed simp

text \<open>A session without \<^verbatim>\<open>put\<close> leaves the image in memory and every file of the host as they were.\<close>

theorem shell_reads_only:
  assumes "\<forall>t\<in>set ts. \<not> is_put t" "run_shell os pf img ts s = (r, s')"
  shows "data s' = data s \<and> host s' = host s"
proof -
  have "reads_only (sbind (say Banner) (\<lambda>_. shell_loop os pf img ts))"
    using shell_loop_reads_only [OF assms(1)] by (intro reads_only_sbind) simp_all
  then show ?thesis using assms(2)
    unfolding run_shell_def reads_only_def by (metis cli.select_convs cli.surjective cli.update_convs(2) snd_conv)
qed

text \<open>A host with one file, and a shell on it at the root of the test volume.\<close>

definition host_with :: "u8 list \<Rightarrow> unit os" where
  "host_with bs = \<lparr>os_read = \<lambda>_ _. Some bs, os_write = \<lambda>_ _ h. (True, h)\<rparr>"

definition at_root :: "unit cli" where
  "at_root = \<lparr>data = build_test_image, cwd = [slash], out = [], host = ()\<rparr>"

lemma shell_reads_only_witness:
  "\<exists>r s'. run_shell (host_with []) Debug (bytes ''disk.img'') [Line (bytes ''cd DIR''), Line (bytes ''ls''), End_of_input] at_root
      = (r, s') \<and> data s' = build_test_image"
proof -
  have "\<forall>t\<in>set [Line (bytes ''cd DIR''), Line (bytes ''ls''), End_of_input]. \<not> is_put t" by code_simp
  from shell_reads_only [OF this, of "host_with []" Debug "bytes ''disk.img''" at_root] show ?thesis
    by (cases "run_shell (host_with []) Debug (bytes ''disk.img'') [Line (bytes ''cd DIR''), Line (bytes ''ls''), End_of_input] at_root")
      (simp add: at_root_def)
qed

subsection \<open>A stored file is shown\<close>

lemma put_words: "bytes ''put'' \<noteq> bytes ''exit''" "bytes ''put'' \<noteq> bytes ''quit''" "bytes ''put'' \<noteq> bytes ''help''"
    "bytes ''put'' \<noteq> bytes ''pwd''" "bytes ''put'' \<noteq> bytes ''ls''" "bytes ''put'' \<noteq> bytes ''cat''"
    "bytes ''put'' \<noteq> bytes ''cd''"
  by code_simp+

lemma cat_words: "bytes ''cat'' \<noteq> bytes ''exit''" "bytes ''cat'' \<noteq> bytes ''quit''" "bytes ''cat'' \<noteq> bytes ''help''"
    "bytes ''cat'' \<noteq> bytes ''pwd''" "bytes ''cat'' \<noteq> bytes ''ls''"
  by code_simp+

text \<open>\<^verbatim>\<open>put\<close>, then \<^verbatim>\<open>cat\<close>. On a consistent volume with room (as in \<open>write_then_read_by_path\<close>) whose tables
  begin after the boot sector, \<^verbatim>\<open>put p src\<close> reports success when the host can read the source and write
  the image; the host is given exactly the image in memory, and a \<^verbatim>\<open>cat p\<close> after it mounts the new image
  and prints the content of the source.\<close>

theorem put_then_cat:
  assumes "fat32_mut_new (data s) = Ok m" "512 \<le> m_fat_start_byte m"
    and "max_cluster_number pf m = Ok mx" "mx < 0x0FFFFFF8"
    and "split_parent (resolve_path (cwd s) p) = Ok (pp, nm)"
      "encode_short_name_8_3 nm = Ok (n, e)" "plain_name nm" "parent_cluster pp m = Ok dir"
    and "chain_at m dir cls" "canonical_dir m cls"
    and "find_dir_entry_offset_by_short_name m dir n e = Ok (off, old)" "old_chain m old fs"
      "set fs \<inter> set cls = {}"
    and "off = None \<longrightarrow> (\<exists>s\<in>set (dir_slots (as_read m) cls). \<not> used s)"
    and "div_ceil (length content) (m_cluster_size m) \<le> min 4096 (length (free_clusters m mx))"
    and "length content < 2 ^ 32"
    and "\<forall>d\<in>set (walk (as_read m) (components pp) (m_root_cluster m)).
      \<exists>ds. chain_at m d ds \<and> set ds \<inter> (set fs \<union> set cls) = {}"
    and "os_read os src (host s) = Some content" "\<forall>bs. fst (os_write os img bs (host s))"
  shows "\<exists>s'. shell_command os pf img (bytes ''put'') [p, src] s = (Ok True, s')
    \<and> out s' = out s @ [Put_done src (resolve_path (cwd s) p)]
    \<and> os_write os img (data s') (host s) = (True, host s')
    \<and> shell_command os pf img (bytes ''cat'') [p] s' = (Ok True, s'\<lparr>out := out s' @ [Content content]\<rparr>)"
proof -
  have "mounted m" and disk: "m_disk m = data s" using fat32_mut_new_mounted [OF assms(1)] by simp_all
  from write_reads_path [OF this(1) assms(3,4) starts_with_resolve assms(5-17)]
  obtain m' where m': "write_file_by_path pf (resolve_path (cwd s) p) content m = (Ok (), m')"
    "read_file_by_path (as_read m') (resolve_path (cwd s) p) = Ok (Some content)" by blast
  have ro: "fat32_new (m_disk m') = Ok (as_read m')"
    using boot_same_mount(2) [OF _ write_file_boot [OF m'(1)] assms(2)] assms(1) disk by simp
  obtain h where h: "os_write os img (m_disk m') (host s) = (True, h)"
    using assms(19) by (metis prod.collapse)
  let ?s = "s\<lparr>data := m_disk m', host := h, out := out s @ [Put_done src (resolve_path (cwd s) p)]\<rparr>"
  have "shell_command os pf img (bytes ''put'') [p, src] s = (Ok True, ?s)"
    using put_words assms(1,18) m'(1) h
    by (simp add: shell_command_def shell_action_def put_file_def put_content_def store_image_def say_def)
  moreover have "shell_command os pf img (bytes ''cat'') [p] ?s = (Ok True, ?s\<lparr>out := out ?s @ [Content content]\<rparr>)"
    using cat_words ro m'(2)
    by (simp add: shell_command_def shell_action_def with_volume_def run_cat_def say_def)
  ultimately show ?thesis using h by (intro exI [of _ ?s]) simp
qed

lemma put_then_cat_witness:
  "\<exists>s'. shell_command (host_with (bytes ''NEW!'')) Debug (bytes ''disk.img'') (bytes ''put'')
        [bytes ''NEW.TXT'', bytes ''new''] at_root = (Ok True, s')
    \<and> out s' = [Put_done (bytes ''new'') (bytes ''/NEW.TXT'')]
    \<and> shell_command (host_with (bytes ''NEW!'')) Debug (bytes ''disk.img'') (bytes ''cat'') [bytes ''NEW.TXT''] s'
      = (Ok True, s'\<lparr>out := out s' @ [Content (bytes ''NEW!'')]\<rparr>)"
proof -
  have r: "resolve_path [slash] (bytes ''NEW.TXT'') = bytes ''/NEW.TXT''" by code_simp
  have "components (bytes ''/'') = []" by code_simp
  then have w: "\<forall>d\<in>set (walk (as_read test_volume) (components (bytes ''/'')) (m_root_cluster test_volume)).
      \<exists>ds. chain_at test_volume d ds \<and> set ds \<inter> (set [] \<union> set [2]) = {}" by simp
  have s: "fat32_mut_new (data at_root) = Ok test_volume" "512 \<le> m_fat_start_byte test_volume"
    "split_parent (resolve_path (cwd at_root) (bytes ''NEW.TXT'')) = Ok (bytes ''/'', bytes ''NEW.TXT'')"
    "os_read (host_with (bytes ''NEW!'')) (bytes ''new'') (host at_root) = Some (bytes ''NEW!'')"
    "\<forall>bs. fst (os_write (host_with (bytes ''NEW!'')) (bytes ''disk.img'') bs (host at_root))"
    using mount_test_image new_txt(5) r by (simp_all add: at_root_def host_with_def)
  show ?thesis
    using put_then_cat [OF s(1,2) new_txt(2,3) s(3) new_txt(6-16) w s(4,5)] r by (simp add: at_root_def) blast
qed

subsection \<open>No panics\<close>

definition no_panic :: "('h, 'a) cli_prog \<Rightarrow> bool" where
  "no_panic p \<longleftrightarrow> (\<forall>s. fst (p s) \<noteq> Panic)"

lemma no_panic_simps [simp]: "no_panic (say m)" "no_panic (say_all ms)" "no_panic (sret x)"
  "no_panic (\<lambda>s. say (f s) s)" "no_panic (\<lambda>s. (Ok y, g s))"
  by (simp_all add: no_panic_def say_def say_all_def)

lemma no_panic_sbind: "no_panic p \<Longrightarrow> (\<And>x. no_panic (f x)) \<Longrightarrow> no_panic (sbind p f)"
  by (auto simp: no_panic_def sbind_def split: prod.splits res.splits) (metis fst_conv)

lemma no_panic_run [simp]: "no_panic (run_ls ro p)" "no_panic (run_cat ro p)" "no_panic (run_cd ro p)"
  by (simp_all add: run_ls_def run_cat_def run_cd_def split: res.split option.split)

lemma fat32_new_no_Panic [simp]: "fat32_new d \<noteq> Panic"
  by (simp add: fat32_new_def res_simps)

lemma no_panic_volume [simp]: "(\<And>ro. no_panic (f ro)) \<Longrightarrow> no_panic (with_volume f)"
  by (simp add: no_panic_def with_volume_def say_def split: res.split)

lemma fat32_mut_new_no_Panic [simp]: "fat32_mut_new d \<noteq> Panic"
  by (simp add: fat32_mut_new_def res_simps)

lemma no_panic_put [simp]:
  fixes os :: "'h os"
  shows "no_panic (put_file os Release img p src)"
proof -
  have "fst (store_image os img m s) \<noteq> Panic" for m and s :: "'h cli"
    by (simp add: store_image_def say_def split: prod.split bool.split)
  moreover have "fst (write_file_by_path Release p content rw) \<noteq> Panic" if "fat32_mut_new d = Ok rw" for d rw content
    using write_file_safe [OF fat32_mut_new_mounted [OF that, THEN conjunct1]] by (simp add: safe_at_def)
  ultimately show ?thesis
    by (auto simp: no_panic_def put_file_def put_content_def say_def
      split: option.split res.split prod.split) (metis fst_conv)+
qed

lemma no_panic_action: "no_panic (shell_action os Release img cur cmd parts)"
  by (simp add: shell_action_def split: list.split)

lemma no_panic_command: "no_panic (shell_command os Release img cmd parts)"
proof -
  have "no_panic (sbind (shell_action os Release img cur cmd parts) (\<lambda>_. sret True))" for cur
    by (intro no_panic_sbind no_panic_action) simp
  then show ?thesis by (simp add: shell_command_def no_panic_def)
qed

lemma no_panic_loop: "no_panic (shell_loop os Release img ts)"
proof (induction ts)
  case (Cons t ts)
  then show ?case
    by (auto intro!: no_panic_sbind no_panic_command split: turn.split list.split if_split)
qed simp

lemma no_panic_shell: "no_panic (run_shell os Release img ts)"
proof -
  have "no_panic (sbind (say Banner) (\<lambda>_. shell_loop os Release img ts))"
    by (intro no_panic_sbind no_panic_loop) simp
  then show ?thesis by (simp add: run_shell_def no_panic_def)
qed

lemma no_panic_main [unfolded no_panic_def, rule_format]: "no_panic (main_command os Release img ts a)"
  by (simp add: main_command_def no_panic_shell split: option.split command.split)

text \<open>The arguments up to the first that is not Unicode decide whether it is reached.\<close>

lemma parse_args_panics:
  "parse_args args a = Panic \<longleftrightarrow>
     \<not> list_all valid_utf8 args \<and> (\<forall>x. parse_args (takeWhile valid_utf8 args) a \<noteq> Err x)"
proof (induction args a rule: parse_args.induct)
  case (2 arg rest a)
  show ?case
  proof (cases rest)
    case Nil
    then show ?thesis by simp
  next
    case (Cons b r)
    with 2 show ?thesis by (cases r) auto
  qed
qed simp

text \<open>C34: a run of the tool in a release build panics for one reason only: it comes to an argument that is not
  valid Unicode, before it has met one that it does not know. Whatever the other arguments, the input, the image and
  the files of the host, it runs to its end (printing is taken to succeed).\<close>

theorem cli_panics_iff:
  "fst (run_main os Release argv ts s) = Panic \<longleftrightarrow>
     \<not> list_all valid_utf8 argv \<and> (\<forall>x. parse_args (tl (takeWhile valid_utf8 argv)) no_args \<noteq> Err x)"
proof -
  have "fst (run_main os Release argv ts s) = Panic \<longleftrightarrow> main_args argv = Panic"
    by (simp add: run_main_def no_panic_main say_def say_all_def split: res.split option.split)
  also have "\<dots> \<longleftrightarrow> \<not> list_all valid_utf8 argv \<and> (\<forall>x. parse_args (tl (takeWhile valid_utf8 argv)) no_args \<noteq> Err x)"
    by (cases argv) (simp_all add: main_args_def parse_args_panics)
  finally show ?thesis .
qed

subsection \<open>No way back to the root\<close>

lemma open_root: "open_path ro [slash] = Ok None"
  by (simp add: open_path_def starts_with_def)

text \<open>\<^verbatim>\<open>cd\<close> to the root fails. Whether the root is asked for without an argument or by any path that
  resolves to it, the shell reports that the directory is not found and stays where it is.\<close>

theorem cd_root_fails:
  assumes "fat32_new (data s) = Ok ro" "parts = [] \<or> (\<exists>p ps. parts = p # ps \<and> resolve_path (cwd s) p = [slash])"
  shows "shell_command os pf img (bytes ''cd'') parts s
    = (Ok True, s\<lparr>out := out s @ [Directory_not_found [slash]]\<rparr>)"
proof -
  have cmd: "bytes ''cd'' \<noteq> bytes ''exit''" "bytes ''cd'' \<noteq> bytes ''quit''" "bytes ''cd'' \<noteq> bytes ''help''"
    "bytes ''cd'' \<noteq> bytes ''pwd''" "bytes ''cd'' \<noteq> bytes ''ls''" "bytes ''cd'' \<noteq> bytes ''cat''"
    by code_simp+
  have "(case parts of p # _ \<Rightarrow> resolve_path (cwd s) p | [] \<Rightarrow> [slash]) = [slash]"
    using assms(2) by auto
  then show ?thesis
    using cmd assms(1) by (simp add: shell_command_def shell_action_def with_volume_def run_cd_def open_root say_def)
qed

definition in_dir :: "unit cli" where
  "in_dir = \<lparr>data = build_test_image, cwd = bytes ''/DIR'', out = [], host = ()\<rparr>"

lemma cd_root_fails_witness:
  "shell_command (host_with []) Debug (bytes ''disk.img'') (bytes ''cd'') [bytes ''..''] in_dir
    = (Ok True, in_dir\<lparr>out := [Directory_not_found [slash]]\<rparr>)"
proof -
  obtain ro where "fat32_new build_test_image = Ok ro"
    using mount_test_image by (auto simp: fat32_mut_new_def fat32_new_def res_simps)
  then have ro: "fat32_new (data in_dir) = Ok ro" by (simp add: in_dir_def)
  have "resolve_path (bytes ''/DIR'') (bytes ''..'') = [slash]" by code_simp
  then have "[bytes ''..''] = [] \<or> (\<exists>p ps. [bytes ''..''] = p # ps \<and> resolve_path (cwd in_dir) p = [slash])"
    by (simp add: in_dir_def)
  from cd_root_fails [OF ro this, of "host_with []" Debug "bytes ''disk.img''"] show ?thesis by (simp add: in_dir_def)
qed

end
