(* ===== verification/File_Tree.thy ===== *)
theory File_Tree
  imports Write_File "HOL-Library.Multiset"
begin

text \<open>
  A volume as a tree of files and directories, the abstract state the driver works on: what it means
  that a disk stores a tree, and that resolving paths, reading and listing are what they are on the tree.
\<close>

subsection \<open>File trees\<close>

text \<open>Names are upper case; a directory maps them to what it holds.\<close>

datatype node = File "u8 list" | Dir "rstr \<rightharpoonup> node"

fun lookup :: "node \<Rightarrow> rstr list \<Rightarrow> node option" where
  "lookup t [] = Some t"
| "lookup (File c) (x # xs) = None"
| "lookup (Dir f) (x # xs) = (case f x of None \<Rightarrow> None | Some t \<Rightarrow> lookup t xs)"

text \<open>Only the last name of the path may be new.\<close>

fun update :: "node \<Rightarrow> rstr list \<Rightarrow> node \<Rightarrow> node" where
  "update t [] n = n"
| "update (File c) (x # xs) n = File c"
| "update (Dir f) (x # xs) n =
     Dir (if xs = [] then f(x \<mapsto> n) else case f x of None \<Rightarrow> f | Some t \<Rightarrow> f(x \<mapsto> update t xs n))"

text \<open>A path that goes on after a file.\<close>

fun through_file :: "node \<Rightarrow> rstr list \<Rightarrow> bool" where
  "through_file t [] \<longleftrightarrow> False"
| "through_file (File c) (x # xs) \<longleftrightarrow> True"
| "through_file (Dir f) (x # xs) \<longleftrightarrow> (case f x of None \<Rightarrow> False | Some t \<Rightarrow> through_file t xs)"

lemma lookup_update_same:
  "lookup t p = Some (Dir f) \<Longrightarrow> lookup (update t (p @ [x]) n) (p @ [x]) = Some n"
  by (induction t p rule: lookup.induct) (auto split: option.splits)

lemma update_snoc:
  "lookup t p = Some (Dir f) \<Longrightarrow> update t (p @ [x]) n = update t p (Dir (f(x \<mapsto> n)))"
  by (induction t p rule: lookup.induct) (auto split: option.splits)

lemma lookup_update_other:
  "\<not> (\<exists>r. q = p @ r) \<Longrightarrow> \<not> (\<exists>r. p = q @ r) \<Longrightarrow> lookup (update t p n) q = lookup t q"
proof (induction t p n arbitrary: q rule: update.induct)
  case (3 f x xs n)
  then obtain y ys where q: "q = y # ys" by (cases q) auto
  show ?case
  proof (cases "y = x")
    case True
    with 3 q show ?thesis by (cases xs) (auto split: option.splits)
  next
    case False
    with q show ?thesis by (auto split: option.splits)
  qed
next
  case (2 c x xs n)
  then show ?case by (cases q) auto
qed simp

lemma through_update:
  "\<not> (\<exists>r. r \<noteq> [] \<and> q = p @ r) \<Longrightarrow> \<not> through_file t q \<Longrightarrow> \<not> through_file (update t p (File c)) q"
proof (induction t p "File c" arbitrary: q rule: update.induct)
  case (3 f x xs)
  then show ?case by (cases q; cases "tl q") (auto split: option.splits if_splits)
next
  case (2 d x xs)
  then show ?case by (cases q) auto
next
  case (1 t)
  then show ?case by (cases q) auto
qed

text \<open>A file written into a directory of the tree: the other paths lead to what they led to.\<close>

lemma lookup_above:
  "lookup t (q @ r) = Some (Dir f) \<Longrightarrow>
     \<exists>g h. lookup t q = Some (Dir g) \<and> lookup (update t (q @ r @ [x]) n) q = Some (Dir h)"
proof (induction t q rule: lookup.induct)
  case (1 t)
  then show ?case by (cases t; cases r) auto
next
  case (3 g y ys)
  then show ?case by (cases "g y") auto
qed simp

lemma lookup_update_dir:
  assumes "lookup t p = Some (Dir f)" "\<not> (\<exists>r. q = p @ x # r)"
  shows "case lookup t q of Some (Dir g) \<Rightarrow> \<exists>h. lookup (update t (p @ [x]) n) q = Some (Dir h)
    | v \<Rightarrow> lookup (update t (p @ [x]) n) q = v"
proof (cases "\<exists>r. p @ [x] = q @ r")
  case False
  with lookup_update_other [of q "p @ [x]" t n] assms(2) show ?thesis by (auto split: option.splits node.splits)
next
  case True
  then obtain r where r: "p @ [x] = q @ r" ..
  then have "r \<noteq> []" using assms(2) by auto
  then have "p = q @ butlast r" "r = butlast r @ [x]" using r by (metis butlast_append butlast_snoc, metis append_butlast_last_id last_appendR last_snoc)
  with lookup_above [of t q "butlast r" f x n] assms(1) show ?thesis by force
qed

subsection \<open>Layouts\<close>

text \<open>
  Where a tree is on the disk: for each file and directory its entry and the clusters it owns. The
  root has no entry; one is made up for it.
\<close>

datatype layout = LFile dir_entry "u32 list" | LDir dir_entry "u32 list" "layout list"

primrec entry_of :: "layout \<Rightarrow> dir_entry" where
  "entry_of (LFile en cs) = en"
| "entry_of (LDir en cs ks) = en"

definition key :: "layout \<Rightarrow> rstr" where
  "key L = normalize_name (e_name (entry_of L))"

primrec owned :: "layout \<Rightarrow> u32 multiset" where
  "owned (LFile en cs) = mset cs"
| "owned (LDir en cs ks) = mset cs + sum_list (map owned ks)"

text \<open>The entries \<^verbatim>\<open>.\<close> and \<^verbatim>\<open>..\<close> are no part of the tree.\<close>

definition special :: "rstr \<Rightarrow> bool" where
  "special s \<longleftrightarrow> s = [dot] \<or> s = [dot, dot]"

definition ordinary :: "dir_entry \<Rightarrow> bool" where
  "ordinary en \<longleftrightarrow> \<not> special (normalize_name (e_name en))"

text \<open>
  The disk holds a layout: a file has a chain that is long enough, a directory a chain of canonical
  slots in which no two ordinary entries have the same name.
\<close>

fun stored :: "fat32_mut \<Rightarrow> layout \<Rightarrow> bool" where
  "stored m (LFile en cs) \<longleftrightarrow> old_chain m (Some en) cs
     \<and> unat (e_size en) \<le> length cs * m_cluster_size m"
| "stored m (LDir en cs ks) \<longleftrightarrow> is_dir en \<and> chain_at m (e_first_cluster en) cs \<and> canonical_dir m cs
     \<and> filter ordinary (listing (dir_slots (as_read m) cs)) = map entry_of ks \<and> distinct (map key ks)
     \<and> (\<forall>k\<in>set ks. stored m k)"

text \<open>The tree it stands for.\<close>

primrec tree_of :: "fat32_mut \<Rightarrow> layout \<Rightarrow> node" where
  "tree_of m (LFile en cs) = File (take (unat (e_size en)) (chain_bytes (as_read m) cs))"
| "tree_of m (LDir en cs ks) = Dir (map_of (map (\<lambda>k. (key k, tree_of m k)) ks))"

text \<open>A whole volume: no cluster has two owners, and the root is a directory.\<close>

definition root_entry :: "fat32_mut \<Rightarrow> dir_entry" where
  "root_entry m = \<lparr>e_name = [], e_attrs = from_byte 0x10, e_first_cluster = m_root_cluster m, e_size = 0\<rparr>"

definition volume_tree :: "fat32_mut \<Rightarrow> layout \<Rightarrow> bool" where
  "volume_tree m L \<longleftrightarrow> mounted m \<and> stored m L \<and> (\<forall>c. count (owned L) c \<le> 1)
     \<and> (\<exists>cs ks. L = LDir (root_entry m) cs ks)"

text \<open>The part of a layout a path leads to.\<close>

fun sub :: "layout \<Rightarrow> rstr list \<Rightarrow> layout option" where
  "sub L [] = Some L"
| "sub (LFile en cs) (x # xs) = None"
| "sub (LDir en cs ks) (x # xs) = (case find (\<lambda>k. key k = x) ks of None \<Rightarrow> None | Some k \<Rightarrow> sub k xs)"

lemma map_of_keys: "map_of (map (\<lambda>k. (key k, g k)) ks) x = map_option g (find (\<lambda>k. key k = x) ks)"
  by (induction ks) auto

lemma lookup_sub: "lookup (tree_of m L) p = map_option (tree_of m) (sub L p)"
  by (induction L p rule: sub.induct) (auto simp: map_of_keys split: option.splits)

lemma find_in: "find P xs = Some x \<Longrightarrow> x \<in> set xs \<and> P x"
  by (auto simp: find_Some_iff)

lemma sub_stored: "stored m L \<Longrightarrow> sub L p = Some K \<Longrightarrow> stored m K"
  by (induction L p rule: sub.induct) (auto split: option.splits dest: find_in)

lemma sub_append: "sub L (p @ q) = (case sub L p of None \<Rightarrow> None | Some K \<Rightarrow> sub K q)"
  by (induction L p rule: sub.induct) (auto split: option.splits)

lemma special_normalize [simp]: "special (normalize_name s) = special s"
proof -
  have "ascii_upper b = dot \<longleftrightarrow> b = dot" for b by (auto simp: ascii_upper_def)
  then show ?thesis by (auto simp: special_def normalize_name_def map_eq_Cons_conv)
qed

lemma find_ordinary:
  assumes "\<not> special x"
  shows "find (\<lambda>e. normalize_name (e_name e) = x) es
    = find (\<lambda>e. normalize_name (e_name e) = x) (filter ordinary es)"
  using assms by (induction es) (auto simp: ordinary_def)

lemma find_append: "find P (xs @ ys) = (case find P xs of None \<Rightarrow> find P ys | Some x \<Rightarrow> Some x)"
  by (induction xs) auto

lemma find_map: "find P (map f xs) = map_option f (find (\<lambda>x. P (f x)) xs)"
  by (induction xs) auto

lemma stored_find:
  assumes "stored m (LDir en cs ks)" "\<not> special x"
  shows "find (\<lambda>e. normalize_name (e_name e) = x) (listing (dir_slots (as_read m) cs))
    = map_option entry_of (find (\<lambda>k. key k = x) ks)"
proof -
  have "filter ordinary (listing (dir_slots (as_read m) cs)) = map entry_of ks" using assms(1) by simp
  with find_ordinary [OF assms(2), of "listing (dir_slots (as_read m) cs)"] show ?thesis
    by (simp only: find_map key_def)
qed

subsection \<open>Reading\<close>

lemma open_loop_tree:
  "stored m L \<Longrightarrow> \<forall>c\<in>set ps. \<not> special c \<Longrightarrow> \<not> through_file (tree_of m L) (map normalize_name ps) \<Longrightarrow>
     open_loop (as_read m) ps (e_first_cluster (entry_of L)) found
       = Ok (case sub L (map normalize_name ps) of None \<Rightarrow> None
             | Some K \<Rightarrow> if ps = [] then found else Some (entry_of K))"
proof (induction ps arbitrary: L found)
  case (Cons p ps)
  then obtain en cs ks where L: "L = LDir en cs ks" by (cases L) auto
  have chain: "chain_at m (e_first_cluster en) cs" using Cons.prems(1) L by simp
  have found: "find (\<lambda>e. normalize_name (e_name e) = normalize_name p) (listing (dir_slots (as_read m) cs))
      = map_option entry_of (find (\<lambda>k. key k = normalize_name p) ks)"
    using stored_find [of m en cs ks "normalize_name p"] Cons.prems(1,2) L by simp
  show ?case
  proof (cases "find (\<lambda>k. key k = normalize_name p) ks")
    case None
    with found list_dir_chain [OF chain] L show ?thesis by (simp add: Let_def)
  next
    case (Some K)
    then have "stored m K" using Cons.prems(1) L by (auto dest: find_in)
    moreover have "\<not> through_file (tree_of m K) (map normalize_name ps)"
      using Cons.prems(3) Some L by (simp add: map_of_keys)
    ultimately show ?thesis
      using Cons.IH [of K "Some (entry_of K)"] Cons.prems(2) found Some list_dir_chain [OF chain] L
      by (auto simp: Let_def split: option.splits)
  qed
qed simp

lemma stored_read:
  "stored m (LFile en cs) \<Longrightarrow> read_file (as_read m) en = Ok (take (unat (e_size en)) (chain_bytes (as_read m) cs))"
proof (cases "e_size en = 0")
  case False
  assume st: "stored m (LFile en cs)"
  from False have "0 < unat (e_size en)" by (simp add: unat_gt_0)
  with st have "is_file en" "chain_at m (e_first_cluster en) cs"
    by (auto simp: old_chain_def split: if_splits)
  with read_file_chain \<open>0 < unat (e_size en)\<close> show ?thesis by blast
qed (simp add: read_file_def old_chain_def)

lemma length_stored_file:
  assumes "stored m (LFile en cs)"
  shows "length (take (unat (e_size en)) (chain_bytes (as_read m) cs)) = unat (e_size en)"
proof -
  have "\<forall>c\<in>set cs. in_data (as_read m) c"
    using assms by (auto simp: old_chain_def dest: chain_atD(5) split: if_splits)
  then have "length (chain_bytes (as_read m) cs) = length cs * m_cluster_size m"
    using length_chain_bytes [of cs "as_read m"] by simp
  with assms show ?thesis by simp
qed

lemma volume_open:
  assumes "volume_tree m L" "starts_with slash path" "\<forall>c\<in>set (components path). \<not> special c"
    and "\<not> through_file (tree_of m L) (map normalize_name (components path))"
  shows "open_path (as_read m) path = Ok (case sub L (map normalize_name (components path)) of None \<Rightarrow> None
    | Some K \<Rightarrow> if components path = [] then None else Some (entry_of K))"
proof -
  have "stored m L" "e_first_cluster (entry_of L) = m_root_cluster m"
    using assms(1) by (auto simp: volume_tree_def root_entry_def)
  from open_loop_tree [OF this(1) assms(3,4), of None] this(2) open_path_loop [OF assms(2), of "as_read m"]
  show ?thesis by simp
qed

lemma read_sub:
  assumes "volume_tree m L" "starts_with slash path" "\<forall>c\<in>set (components path). \<not> special c"
    and "\<not> through_file (tree_of m L) (map normalize_name (components path))"
  shows "read_file_by_path (as_read m) path =
    (case sub L (map normalize_name (components path)) of
       None \<Rightarrow> Ok None
     | Some (LFile en cs) \<Rightarrow> Ok (Some (take (unat (e_size en)) (chain_bytes (as_read m) cs)))
     | Some (LDir en cs ks) \<Rightarrow> if components path = [] then Ok None else Err NotAFile)"
proof (cases "sub L (map normalize_name (components path))")
  case None
  with volume_open [OF assms] show ?thesis by (simp add: read_file_by_path_def)
next
  case (Some K)
  have "stored m L" using assms(1) by (simp add: volume_tree_def)
  note K = sub_stored [OF this Some]
  show ?thesis
  proof (cases K)
    case (LFile en cs)
    have "components path \<noteq> []" using Some LFile assms(1) by (auto simp: volume_tree_def)
    moreover have "is_file en" using K LFile by (simp add: old_chain_def)
    moreover have "read_file (as_read m) en = Ok (take (unat (e_size en)) (chain_bytes (as_read m) cs))"
      using stored_read K LFile by blast
    ultimately show ?thesis using volume_open [OF assms] Some LFile by (simp add: read_file_by_path_def)
  next
    case (LDir en cs ks)
    have "\<not> is_file en" using K LDir by (auto simp: is_file_not_dir)
    then show ?thesis using volume_open [OF assms] Some LDir by (simp add: read_file_by_path_def)
  qed
qed

text \<open>A listing shows a directory of the tree: one entry for each name, with its kind and its size.\<close>

definition shows_dir :: "dir_entry list \<Rightarrow> (rstr \<rightharpoonup> node) \<Rightarrow> bool" where
  "shows_dir es f \<longleftrightarrow> distinct (map (\<lambda>e. normalize_name (e_name e)) (filter ordinary es))
     \<and> dom f = (\<lambda>e. normalize_name (e_name e)) ` set (filter ordinary es)
     \<and> (\<forall>e\<in>set (filter ordinary es). case f (normalize_name (e_name e)) of
          None \<Rightarrow> False
        | Some (File c) \<Rightarrow> is_file e \<and> unat (e_size e) = length c
        | Some (Dir g) \<Rightarrow> is_dir e)"

lemma stored_shows:
  assumes "stored m (LDir en cs ks)"
  shows "shows_dir (listing (dir_slots (as_read m) cs)) (map_of (map (\<lambda>k. (key k, tree_of m k)) ks))"
proof -
  let ?f = "map_of (map (\<lambda>k. (key k, tree_of m k)) ks)"
  have ents: "filter ordinary (listing (dir_slots (as_read m) cs)) = map entry_of ks" using assms by simp
  have dist: "distinct (map key ks)" using assms by simp
  have "?f (key k) = Some (tree_of m k)" if "k \<in> set ks" for k
    using that dist by (intro map_of_is_SomeI) (auto simp: comp_def)
  moreover have "case tree_of m k of File c \<Rightarrow> is_file (entry_of k) \<and> unat (e_size (entry_of k)) = length c
      | Dir g \<Rightarrow> is_dir (entry_of k)" if "k \<in> set ks" for k
  proof (cases k)
    case (LFile en' cs')
    then have "stored m (LFile en' cs')" using assms that by auto
    from length_stored_file [OF this] this LFile show ?thesis by (simp add: old_chain_def)
  next
    case (LDir en' cs' ks')
    then show ?thesis using assms that by auto
  qed
  ultimately have "\<forall>k\<in>set ks. case ?f (key k) of None \<Rightarrow> False
      | Some (File c) \<Rightarrow> is_file (entry_of k) \<and> unat (e_size (entry_of k)) = length c
      | Some (Dir g) \<Rightarrow> is_dir (entry_of k)"
    by simp
  moreover have "dom ?f = key ` set ks" by (simp add: dom_map_of_conv_image_fst image_image)
  ultimately show ?thesis
    unfolding shows_dir_def ents using dist by (simp add: comp_def key_def [abs_def] image_image)
qed

lemma list_sub:
  assumes "volume_tree m L" "starts_with slash path" "\<forall>c\<in>set (components path). \<not> special c"
    and "\<not> through_file (tree_of m L) (map normalize_name (components path))"
    and "components path = [] \<longrightarrow> path = [slash]"
  shows "list_dir_path (as_read m) path =
    (case sub L (map normalize_name (components path)) of
       None \<Rightarrow> Err PathNotFound
     | Some (LFile en cs) \<Rightarrow> Err NotADirectory
     | Some (LDir en cs ks) \<Rightarrow> Ok (listing (dir_slots (as_read m) cs)))"
proof -
  have st: "stored m L" and first: "e_first_cluster (entry_of L) = m_root_cluster m"
    using assms(1) by (auto simp: volume_tree_def root_entry_def)
  have none: "path \<noteq> [slash]" if "components path \<noteq> []"
    using that components_append [of "[]" "[]"] by auto
  show ?thesis
  proof (cases "sub L (map normalize_name (components path))")
    case None
    then have "components path \<noteq> []" by auto
    with None none volume_open [OF assms(1-4)] show ?thesis by (simp add: list_dir_path_def)
  next
    case (Some K)
    note K = sub_stored [OF st Some]
    show ?thesis
    proof (cases K)
      case (LFile en cs)
      have "components path \<noteq> []" using Some LFile assms(1) by (auto simp: volume_tree_def)
      moreover have "\<not> is_dir en" using K LFile by (simp add: old_chain_def is_file_not_dir)
      ultimately show ?thesis
        using none volume_open [OF assms(1-4)] Some LFile by (simp add: list_dir_path_def)
    next
      case (LDir en cs ks)
      have "list_dir_cluster (as_read m) (e_first_cluster en) = Ok (listing (dir_slots (as_read m) cs))" "is_dir en"
        using K LDir list_dir_chain by simp_all
      then show ?thesis
        using none volume_open [OF assms(1-4)] Some LDir assms(5) first
        by (cases "components path = []") (auto simp: list_dir_path_def list_root_def)
    qed
  qed
qed

end
