(* ===== verification/Tree_Write.thy ===== *)
theory Tree_Write
  imports File_Tree
begin

text \<open>
  Writing a file is updating the tree: on a volume that stores a tree, \<^verbatim>\<open>write_file_by_path\<close> leaves a volume
  that stores the updated tree. The clusters of everything else are untouched because no cluster has two
  owners.
\<close>

subsection \<open>Replacing a part of a layout\<close>

fun put :: "layout \<Rightarrow> rstr list \<Rightarrow> layout \<Rightarrow> layout" where
  "put L [] X = X"
| "put (LFile en cs) (x # xs) X = LFile en cs"
| "put (LDir en cs ks) (x # xs) X = LDir en cs (map (\<lambda>k. if key k = x then put k xs X else k) ks)"

lemma entry_put: "p = [] \<longrightarrow> entry_of X = entry_of L \<Longrightarrow> entry_of (put L p X) = entry_of L"
  by (cases "(L, p, X)" rule: put.cases) auto

lemma find_split:
  assumes "find (\<lambda>k. key k = x) ks = Some k" "distinct (map key ks)"
  obtains k1 k2 where "ks = k1 @ k # k2" "key k = x" "\<forall>j\<in>set k1 \<union> set k2. key j \<noteq> x"
proof -
  have k: "k \<in> set ks" "key k = x" using find_in [OF assms(1)] by simp_all
  then obtain k1 k2 where ks: "ks = k1 @ k # k2" by (meson split_list)
  have "\<forall>j\<in>set k1 \<union> set k2. key j \<noteq> x" using assms(2) k(2) ks by (auto simp: rev_image_eqI)
  with ks k(2) that show thesis by blast
qed

lemma find_unique: "k \<in> set ks \<Longrightarrow> distinct (map key ks) \<Longrightarrow> find (\<lambda>j. key j = key k) ks = Some k"
  by (induction ks) auto

lemma put_split:
  assumes "ks = k1 @ k # k2" "key k = x" "\<forall>j\<in>set k1 \<union> set k2. key j \<noteq> x"
  shows "put (LDir en cs ks) (x # xs) X = LDir en cs (k1 @ put k xs X # k2)"
  using assms by (auto intro: map_idI)

lemma owned_sub: "sub L p = Some Y \<Longrightarrow> count (owned Y) c \<le> count (owned L) c"
proof (induction L p rule: sub.induct)
  case (3 en cs ks x xs)
  then obtain k where k: "find (\<lambda>k. key k = x) ks = Some k" "sub k xs = Some Y" by (auto split: option.splits)
  then obtain k1 k2 where "ks = k1 @ k # k2" by (meson find_in split_list)
  with 3 k show ?case by fastforce
qed simp_all

lemma owned_put:
  "sub L p = Some Y \<Longrightarrow> stored m L \<Longrightarrow> owned (put L p X) + owned Y = owned L + owned X"
proof (induction L p rule: sub.induct)
  case (3 en cs ks x xs)
  then obtain k where k: "find (\<lambda>k. key k = x) ks = Some k" "sub k xs = Some Y" by (auto split: option.splits)
  have "distinct (map key ks)" using "3.prems"(2) by simp
  from find_split [OF k(1) this] obtain k1 k2 where
    ks: "ks = k1 @ k # k2" "key k = x" "\<forall>j\<in>set k1 \<union> set k2. key j \<noteq> x" .
  have "owned (put k xs X) + owned Y = owned k + owned X"
    using "3.IH" [OF k(1,2)] "3.prems"(2) ks(1) by simp
  then show ?case unfolding put_split [OF ks] by (simp add: ks(1))
qed simp_all

text \<open>Clusters in use are not free.\<close>

lemma old_chain_used: "old_chain m old fs \<Longrightarrow> c \<in> set fs \<Longrightarrow> fat_val m c \<noteq> 0"
  by (auto simp: old_chain_def dest: chain_atD(7) split: option.splits if_splits)

lemma in_owned_list: "c \<in># sum_list (map owned ks) \<longleftrightarrow> (\<exists>k\<in>set ks. c \<in># owned k)"
  by (induction ks) auto

lemma stored_used: "stored m L \<Longrightarrow> c \<in># owned L \<Longrightarrow> fat_val m c \<noteq> 0"
proof (induction m L rule: stored.induct)
  case (2 m en cs ks)
  then show ?case by (auto simp: chain_atD(7) in_owned_list)
qed (auto dest: old_chain_used)

subsection \<open>What a write leaves alone\<close>

lemma old_chain_frame:
  assumes "same_but K m m'" "old_chain m old fs" "set fs \<inter> K = {}"
  shows "old_chain m' old fs \<and> chain_bytes (as_read m') fs = chain_bytes (as_read m) fs"
  using assms same_but_chain(1,2) [OF assms(1)]
  by (auto simp: old_chain_def chain_bytes_def split: option.splits if_splits)

lemma stored_frame:
  "stored m L \<Longrightarrow> same_but K m m' \<Longrightarrow> \<forall>c\<in>K. c \<notin># owned L \<Longrightarrow>
     stored m' L \<and> tree_of m' L = tree_of m L"
proof (induction m L rule: stored.induct)
  case (1 m en cs)
  have "set cs \<inter> K = {}" using "1.prems"(3) by auto
  with "1.prems" old_chain_frame [of K m m' "Some en" cs] show ?case
    by (auto simp: same_shapeD(2) [OF same_but_shape [OF "1.prems"(2)]])
next
  case (2 m en cs ks)
  have chain: "chain_at m (e_first_cluster en) cs" "set cs \<inter> K = {}" using "2.prems"(1,3) by auto
  note kept = same_but_chain [OF "2.prems"(2) chain]
  have "stored m' k \<and> tree_of m' k = tree_of m k" if "k \<in> set ks" for k
    using that "2.IH" [OF that] "2.prems" by (auto simp: in_owned_list)
  with "2.prems"(1) kept(1,3) show ?case by (auto simp: canonical_dir_def cong: map_cong)
qed

lemma map_of_replaced:
  assumes "\<forall>j\<in>set k1 \<union> set k2. key j \<noteq> x" "\<forall>j\<in>set old. key j = x" "key k' = x"
    and "\<forall>j\<in>set k1 \<union> set k2. g' j = g j"
  shows "map_of (map (\<lambda>j. (key j, g' j)) (k1 @ k' # k2))
    = (map_of (map (\<lambda>j. (key j, g j)) (k1 @ old @ k2)))(x \<mapsto> g' k')"
proof -
  have k1: "map (\<lambda>j. (key j, g' j)) k1 = map (\<lambda>j. (key j, g j)) k1"
    and k2: "map (\<lambda>j. (key j, g' j)) k2 = map (\<lambda>j. (key j, g j)) k2"
    using assms(4) by simp_all
  have none: "map_of (map (\<lambda>j. (key j, g j)) k1) x = None"
    using assms(1) by (auto simp: map_of_eq_None_iff)
  have other: "map_of (map (\<lambda>j. (key j, g j)) old) y = None" if "y \<noteq> x" for y
    using assms(2) that by (auto simp: map_of_eq_None_iff)
  show ?thesis
    unfolding map_append list.map k1 k2 using assms(3) none other
    by (intro ext) (auto simp: map_add_def split: option.splits)
qed

text \<open>Replacing the part at a path, when everything outside of it is left alone.\<close>

lemma stored_put:
  "sub L p = Some Y \<Longrightarrow> stored m L \<Longrightarrow> same_but K m m' \<Longrightarrow> \<forall>c\<in>K. count (owned L) c \<le> count (owned Y) c \<Longrightarrow>
     stored m' X \<Longrightarrow> entry_of X = entry_of Y \<Longrightarrow>
     stored m' (put L p X) \<and> entry_of (put L p X) = entry_of L
       \<and> tree_of m' (put L p X) = update (tree_of m L) p (tree_of m' X)"
proof (induction L p rule: sub.induct)
  case (3 en cs ks x xs)
  then obtain k where k: "find (\<lambda>k. key k = x) ks = Some k" "sub k xs = Some Y" by (auto split: option.splits)
  have st: "stored m (LDir en cs ks)" "distinct (map key ks)" using "3.prems"(2) by simp_all
  from find_split [OF k(1) st(2)] obtain k1 k2 where
    ks: "ks = k1 @ k # k2" "key k = x" "\<forall>j\<in>set k1 \<union> set k2. key j \<noteq> x" .
  have zero: "c \<notin> set cs \<and> (\<forall>j\<in>set k1 \<union> set k2. c \<notin># owned j) \<and> count (owned k) c \<le> count (owned Y) c"
    if "c \<in> K" for c
  proof -
    have "count (owned (LDir en cs ks)) c \<le> count (owned Y) c" using "3.prems"(4) that by blast
    then have "count (mset cs) c + count (sum_list (map owned k1)) c + count (owned k) c
        + count (sum_list (map owned k2)) c \<le> count (owned Y) c"
      by (simp add: ks(1))
    moreover have "count (owned Y) c \<le> count (owned k) c" by (rule owned_sub [OF k(2)])
    ultimately have "count (mset cs) c = 0" "count (sum_list (map owned k1)) c = 0"
      "count (sum_list (map owned k2)) c = 0" "count (owned k) c \<le> count (owned Y) c"
      by linarith+
    then have "c \<notin># mset cs" "c \<notin># sum_list (map owned k1)" "c \<notin># sum_list (map owned k2)"
      "count (owned k) c \<le> count (owned Y) c"
      by (simp_all only: not_in_iff)
    then show ?thesis unfolding in_owned_list by auto
  qed
  have new: "stored m' (put k xs X)" "entry_of (put k xs X) = entry_of k"
    "tree_of m' (put k xs X) = update (tree_of m k) xs (tree_of m' X)"
    using "3.IH" [OF k(1,2)] "3.prems"(3,5,6) st(1) ks(1) zero by auto
  have rest: "stored m' j \<and> tree_of m' j = tree_of m j" if "j \<in> set k1 \<union> set k2" for j
    using that st(1) zero ks(1) by (intro stored_frame [OF _ "3.prems"(3)]) auto
  have chain: "chain_at m (e_first_cluster en) cs" "set cs \<inter> K = {}" using st(1) zero by auto
  note kept = same_but_chain [OF "3.prems"(3) chain]
  have keys: "key (put k xs X) = x" using new(2) ks(2) by (simp add: key_def)
  have "stored m' (LDir en cs (k1 @ put k xs X # k2))"
    using st kept(1,3) new(1,2) rest keys ks by (auto simp: canonical_dir_def)
  moreover have "map_of (map (\<lambda>j. (key j, tree_of m' j)) (k1 @ put k xs X # k2))
      = (map_of (map (\<lambda>j. (key j, tree_of m j)) (k1 @ k # k2)))(x \<mapsto> tree_of m' (put k xs X))"
    using map_of_replaced [of k1 k2 x "[k]" "put k xs X" "tree_of m'" "tree_of m"] rest keys ks by simp
  moreover have "map_of (map (\<lambda>j. (key j, tree_of m j)) ks) x = Some (tree_of m k)"
    by (simp add: map_of_keys k(1))
  ultimately show ?case
    unfolding put_split [OF ks] using new(3) k(2) by (auto simp: ks(1) [symmetric])
qed simp_all

subsection \<open>The name in its directory\<close>

text \<open>No volume label or long name takes the raw name of the file.\<close>

definition unlabelled :: "fat32_mut \<Rightarrow> u32 list \<Rightarrow> u8 list \<Rightarrow> u8 list \<Rightarrow> bool" where
  "unlabelled m cls n e \<longleftrightarrow>
     (\<forall>s\<in>set (takeWhile live (dir_slots (as_read m) cls)). matches n e s \<longrightarrow> parse s \<noteq> None)"

lemma in_listing: "x \<in> set (listing ss) \<longleftrightarrow> (\<exists>s\<in>set (takeWhile live ss). parse s = Some x)"
  by (force simp: listing_def List.map_filter_def)

lemma find_name:
  assumes dir: "chain_at m d cls" and can: "canonical_dir m cls"
    and enc: "encode_short_name_8_3 nm = Ok (n, e)" and plain: "plain_name nm" and un: "unlabelled m cls n e"
  shows "\<exists>off old. find_dir_entry_offset_by_short_name m d n e = Ok (off, old)
    \<and> (case old of
         None \<Rightarrow> off = None \<and> (\<forall>x\<in>set (listing (dir_slots (as_read m) cls)). \<not> names nm x)
       | Some x \<Rightarrow> off \<noteq> None \<and> x \<in> set (listing (dir_slots (as_read m) cls)) \<and> names nm x)"
proof -
  note ch = chain_atD [OF dir]
  let ?ps = "slot_places m cls"
  have slots: "dir_slots (as_read m) cls = map (slot m) ?ps" by (rule dir_slots_places [OF ch(5)])
  have tw: "takeWhile live (dir_slots (as_read m) cls) = map (slot m) (takeWhile (\<lambda>p. live (slot m p)) ?ps)"
    unfolding slots by (simp add: takeWhile_map comp_def)
  have f: "find_dir_entry_offset_by_short_name m d n e
      = Ok (case find_slot m n e ?ps of None \<Rightarrow> (None, None) | Some r \<Rightarrow> r)"
    using ch(1) find_entry_loop_spec [of cls m n e, OF ch(5)] by (simp add: find_dir_entry_offset_by_short_name_def)
  have absent: "\<not> names nm x" if none: "find_slot m n e ?ps = None \<or> find_slot m n e ?ps = Some (None, pe)"
    and x: "x \<in> set (listing (dir_slots (as_read m) cls))" for x pe
  proof
    assume named: "names nm x"
    obtain p where p: "p \<in> set (takeWhile (\<lambda>p. live (slot m p)) ?ps)" "parse (slot m p) = Some x"
      using x unfolding in_listing tw by auto
    have "canonical (slot m p)" using can p unfolding canonical_dir_def tw by auto
    from no_alias [OF enc plain this p(2)] named have "matches n e (slot m p)" by (simp add: names_def)
    with find_slot_None [OF none p(1)] show False by simp
  qed
  consider (none) "find_slot m n e ?ps = None" | (ended) pe where "find_slot m n e ?ps = Some (None, pe)"
    | (found) off pe where "find_slot m n e ?ps = Some (Some off, pe)"
    by (cases "find_slot m n e ?ps") (auto, metis option.exhaust)
  then show ?thesis
  proof cases
    case none
    with f absent show ?thesis by simp
  next
    case ended
    with f absent find_slot_offset_None [OF ended] show ?thesis by auto
  next
    case found
    from find_slot_Some [OF found] obtain pre p post where p: "?ps = pre @ p # post" "pe = parse (slot m p)"
      "live (slot m p)" "matches n e (slot m p)" "\<forall>q\<in>set pre. live (slot m q)" by blast
    then have mem: "slot m p \<in> set (takeWhile live (dir_slots (as_read m) cls))"
      unfolding tw by (simp add: takeWhile_append)
    with un p(4) obtain x where x: "parse (slot m p) = Some x" by (auto simp: unlabelled_def)
    have "e_name x = normalize_name nm"
      using parse_name [OF x] p(4) encode_short_name [OF enc plain] by (simp add: matches_def)
    then have "names nm x" by (simp add: names_def)
    with f found p(2) x mem show ?thesis by (auto simp: in_listing)
  qed
qed

subsection \<open>Tidy directories\<close>

text \<open>
  The directories of a layout, by their clusters. All of them are tidy when each has a clear end and no
  label in it takes a name that a file could have; writes keep them so.
\<close>

primrec dirs :: "layout \<Rightarrow> u32 list set" where
  "dirs (LFile en cs) = {}"
| "dirs (LDir en cs ks) = insert cs (\<Union> (set (map dirs ks)))"

definition orderly :: "fat32_mut \<Rightarrow> u32 list \<Rightarrow> bool" where
  "orderly m cs \<longleftrightarrow> clear_end m cs \<and> (\<forall>nm n e. encode_short_name_8_3 nm = Ok (n, e) \<longrightarrow> unlabelled m cs n e)"

definition tidy :: "fat32_mut \<Rightarrow> layout \<Rightarrow> bool" where
  "tidy m L \<longleftrightarrow> (\<forall>cs\<in>dirs L. orderly m cs)"

lemma tidy_simps [simp]: "tidy m (LFile en cs)" "tidy m (LDir en cs ks) \<longleftrightarrow> orderly m cs \<and> (\<forall>k\<in>set ks. tidy m k)"
  by (auto simp: tidy_def)

lemma tidy_sub: "sub L p = Some K \<Longrightarrow> tidy m L \<Longrightarrow> tidy m K"
  by (induction L p rule: sub.induct) (auto split: option.splits dest: find_in)

lemma stored_dirs: "stored m L \<Longrightarrow> cs \<in> dirs L \<Longrightarrow> (\<exists>d. chain_at m d cs) \<and> (\<forall>c\<in>set cs. c \<in># owned L)"
proof (induction m L rule: stored.induct)
  case (2 m en cs' ks)
  then show ?case by (fastforce simp: in_owned_list)
qed simp

lemma orderly_frame:
  "same_but K m m' \<Longrightarrow> chain_at m d cs \<Longrightarrow> set cs \<inter> K = {} \<Longrightarrow> orderly m cs \<Longrightarrow> orderly m' cs"
  using same_but_chain(3) [of K m m' d cs] by (simp add: orderly_def clear_end_def unlabelled_def)

lemma tidy_frame:
  assumes "stored m L" "same_but K m m'" "\<forall>c\<in>K. c \<notin># owned L" "tidy m L"
  shows "tidy m' L"
  unfolding tidy_def
proof
  fix cs
  assume cs: "cs \<in> dirs L"
  obtain d where d: "chain_at m d cs" "\<forall>c\<in>set cs. c \<in># owned L" using stored_dirs [OF assms(1) cs] by blast
  then have "set cs \<inter> K = {}" using assms(3) by blast
  with assms(2,4) d(1) cs show "orderly m' cs" by (auto simp: tidy_def intro: orderly_frame)
qed

text \<open>A directory of the layout after a part is replaced is one of the new part or lies outside the old one.\<close>

lemma dirs_put:
  "sub L p = Some Y \<Longrightarrow> stored m L \<Longrightarrow> cs \<in> dirs (put L p X) \<Longrightarrow>
     cs \<in> dirs X \<or> cs \<in> dirs L \<and> (\<forall>c\<in>set cs. count (owned Y) c < count (owned L) c)"
proof (induction L p rule: sub.induct)
  case (3 en ds ks x xs)
  then obtain k where k: "find (\<lambda>k. key k = x) ks = Some k" "sub k xs = Some Y" by (auto split: option.splits)
  have "distinct (map key ks)" using "3.prems"(2) by simp
  from find_split [OF k(1) this] obtain k1 k2 where
    ks: "ks = k1 @ k # k2" "key k = x" "\<forall>j\<in>set k1 \<union> set k2. key j \<noteq> x" .
  have st: "stored m k" "\<forall>j\<in>set k1 \<union> set k2. stored m j" using "3.prems"(2) ks(1) by auto
  have sum: "count (owned (LDir en ds ks)) c = count (mset ds) c + count (sum_list (map owned k1)) c
      + count (owned k) c + count (sum_list (map owned k2)) c" for c by (simp add: ks(1))
  have part: "count (owned Y) c \<le> count (owned k) c" for c by (rule owned_sub [OF k(2)])
  consider "cs = ds" | j where "j \<in> set k1 \<union> set k2" "cs \<in> dirs j" | "cs \<in> dirs (put k xs X)"
    using "3.prems"(3) unfolding put_split [OF ks] by auto
  then show ?case
  proof cases
    case 1
    have "count (owned Y) c < count (owned (LDir en ds ks)) c" if "c \<in> set cs" for c
    proof -
      have "0 < count (mset ds) c" using that 1 by (simp only: count_greater_zero_iff set_mset_mset)
      with sum [of c] part [of c] show ?thesis by linarith
    qed
    with 1 show ?thesis by simp
  next
    case 2
    have "count (owned Y) c < count (owned (LDir en ds ks)) c" if "c \<in> set cs" for c
    proof -
      have "c \<in># owned j" using stored_dirs [of m j cs] st(2) 2 that by blast
      then have "c \<in># sum_list (map owned k1) \<or> c \<in># sum_list (map owned k2)" using 2(1) unfolding in_owned_list by blast
      then have "0 < count (sum_list (map owned k1)) c + count (sum_list (map owned k2)) c"
        by (simp only: count_greater_zero_iff [symmetric] add_gr_0)
      with sum [of c] part [of c] show ?thesis by linarith
    qed
    with 2 ks(1) show ?thesis by auto
  next
    case 3
    have "cs \<in> dirs X \<or> cs \<in> dirs k \<and> (\<forall>c\<in>set cs. count (owned Y) c < count (owned k) c)"
      by (rule "3.IH" [OF k st(1) 3])
    moreover have "count (owned k) c \<le> count (owned (LDir en ds ks)) c" for c using sum [of c] by linarith
    ultimately show ?thesis using ks(1) by (fastforce intro: less_le_trans)
  qed
qed simp_all

lemma encoded_ordinary:
  assumes "encode_short_name_8_3 nm = Ok (n, e)"
  shows "\<not> special nm"
  using encode_first [OF assms] by (auto simp: special_def)

subsection \<open>Writing into a directory of the tree\<close>

text \<open>The children before and after the one that is replaced.\<close>

lemma children_split:
  assumes "stored m (LDir en cls ks)" "listing (dir_slots (as_read m) cls) = A @ shown old @ B"
    and "case old of None \<Rightarrow> \<forall>x\<in>set (A @ B). normalize_name (e_name x) \<noteq> y | Some x \<Rightarrow> normalize_name (e_name x) = y"
    and "\<not> special y" "\<forall>k\<in>set ks. key k = y \<longrightarrow> (\<exists>x fs. k = LFile x fs)"
  obtains k1 k2 fs where "ks = k1 @ (case old of None \<Rightarrow> [] | Some x \<Rightarrow> [LFile x fs]) @ k2"
    "map entry_of k1 = filter ordinary A" "map entry_of k2 = filter ordinary B"
    "\<forall>j\<in>set k1 \<union> set k2. key j \<noteq> y" "old_chain m old fs" "old = None \<Longrightarrow> fs = []"
proof -
  have ents: "map entry_of ks = filter ordinary (A @ shown old @ B)" and dist: "distinct (map key ks)"
    and st: "\<forall>k\<in>set ks. stored m k"
    using assms(1,2) by simp_all
  show thesis
  proof (cases old)
    case None
    then have "map entry_of ks = filter ordinary A @ filter ordinary B" using ents by (simp add: shown_def)
    then obtain k1 k2 where k: "ks = k1 @ k2" "map entry_of k1 = filter ordinary A" "map entry_of k2 = filter ordinary B"
      by (auto simp: map_eq_append_conv)
    have "entry_of j \<in> set (A @ B)" if "j \<in> set k1 \<union> set k2" for j
    proof -
      have "entry_of j \<in> set (map entry_of k1) \<union> set (map entry_of k2)" using that by auto
      then show ?thesis unfolding k(2,3) by auto
    qed
    then have "\<forall>j\<in>set k1 \<union> set k2. key j \<noteq> y" using assms(3) None by (auto simp: key_def)
    with k None that [of k1 "[]" k2] show ?thesis by (simp add: old_chain_def)
  next
    case (Some x)
    have x: "normalize_name (e_name x) = y" using assms(3) Some by simp
    then have "ordinary x" using assms(4) by (simp add: ordinary_def)
    then have "map entry_of ks = filter ordinary A @ x # filter ordinary B" using ents Some by (simp add: shown_def)
    then obtain k1 k k2 where k: "ks = k1 @ k # k2" "map entry_of k1 = filter ordinary A" "entry_of k = x"
      "map entry_of k2 = filter ordinary B"
      by (auto simp: map_eq_append_conv map_eq_Cons_conv)
    have ky: "key k = y" using k(3) x by (simp add: key_def)
    then obtain x' fs where "k = LFile x' fs" using assms(5) k(1) by auto
    with k(3) have k': "k = LFile x fs" by simp
    have "\<forall>j\<in>set k1 \<union> set k2. key j \<noteq> y" using dist ky k(1) by (auto simp: rev_image_eqI)
    moreover have "old_chain m old fs" using st k(1) k' Some by simp
    ultimately show ?thesis using k k' Some that [of k1 fs k2] by simp
  qed
qed

lemma stored_new_file:
  assumes "content = [] \<longrightarrow> fc = 0 \<and> ks = []" "length content < 2 ^ 32"
    and "content \<noteq> [] \<longrightarrow> chain_at m fc ks \<and> take (length content) (chain_bytes (as_read m) ks) = content"
  shows "stored m (LFile (file_entry n e fc (word_of_nat (length content))) ks)"
    and "tree_of m (LFile (file_entry n e fc (word_of_nat (length content))) ks) = File content"
proof -
  let ?sz = "word_of_nat (length content) :: u32"
  have sz: "unat ?sz = length content" using assms(2) by (simp add: unat_of_nat)
  have "length content \<le> length ks * m_cluster_size m" if ne: "content \<noteq> []"
  proof -
    have chain: "chain_at m fc ks" and tk: "take (length content) (chain_bytes (as_read m) ks) = content"
      using assms(3) ne by blast+
    have "length (chain_bytes (as_read m) ks) = length ks * m_cluster_size m"
      using length_chain_bytes [of ks "as_read m"] chain_atD(5) [OF chain] by simp
    with tk show ?thesis by (metis length_take min.cobounded1)
  qed
  moreover have "old_chain m (Some (file_entry n e fc ?sz)) ks"
    using assms(1,3) chain_atD(3) [of m fc ks] by (cases "content = []") (auto simp: old_chain_def)
  ultimately show "stored m (LFile (file_entry n e fc ?sz) ks)"
    using sz by (cases "content = []") simp_all
  show "tree_of m (LFile (file_entry n e fc ?sz) ks) = File content"
    using assms(3) sz by (cases "content = []") simp_all
qed

text \<open>The entry the write finds under the name, and the chain it releases.\<close>

lemma old_in_dir:
  assumes st: "stored m (LDir en cls ks)" "\<forall>c. count (owned (LDir en cls ks)) c \<le> 1"
    and name: "encode_short_name_8_3 nm = Ok (n, e)" "plain_name nm" "unlabelled m cls n e"
    and plain_file: "\<forall>k\<in>set ks. key k = normalize_name nm \<longrightarrow> (\<exists>x fs. k = LFile x fs)"
  obtains off old fs where
    "find_dir_entry_offset_by_short_name m (e_first_cluster en) n e = Ok (off, old)"
    "case old of None \<Rightarrow> \<forall>x\<in>set (listing (dir_slots (as_read m) cls)). \<not> names nm x | Some x \<Rightarrow> names nm x"
    "old_chain m old fs" "set fs \<inter> set cls = {}" "old = None \<Longrightarrow> fs = []" "\<And>x. old = Some x \<Longrightarrow> LFile x fs \<in> set ks"
    "off = None \<Longrightarrow> old = None"
proof -
  let ?es = "listing (dir_slots (as_read m) cls)" and ?y = "normalize_name nm"
  have dir: "chain_at m (e_first_cluster en) cls" "canonical_dir m cls" using st(1) by simp_all
  obtain off old where found: "find_dir_entry_offset_by_short_name m (e_first_cluster en) n e = Ok (off, old)"
    and old: "case old of None \<Rightarrow> off = None \<and> (\<forall>x\<in>set ?es. \<not> names nm x) | Some x \<Rightarrow> off \<noteq> None \<and> x \<in> set ?es \<and> names nm x"
    using find_name [OF dir name] by blast
  have "\<exists>A B. ?es = A @ shown old @ B" using old by (cases old) (auto simp: shown_def dest: split_list)
  then obtain A B where ab: "?es = A @ shown old @ B" by blast
  have named: "case old of None \<Rightarrow> \<forall>x\<in>set (A @ B). normalize_name (e_name x) \<noteq> ?y | Some x \<Rightarrow> normalize_name (e_name x) = ?y"
    using old ab by (auto simp: names_def split: option.splits)
  have y: "\<not> special ?y" using encoded_ordinary [OF name(1)] by simp
  obtain fs where fs: "old_chain m old fs" "old = None \<Longrightarrow> fs = []" "\<And>x. old = Some x \<Longrightarrow> LFile x fs \<in> set ks"
    by (rule children_split [OF st(1) ab named y plain_file]) (auto split: option.splits)
  have "c \<notin> set cls" if "c \<in> set fs" for c
  proof -
    have "\<exists>x. LFile x fs \<in> set ks" using fs(2,3) that by (cases old) auto
    then obtain x where "LFile x fs \<in> set ks" ..
    then have "c \<in># sum_list (map owned ks)"
      using that unfolding in_owned_list by (intro bexI [of _ "LFile x fs"]) simp_all
    then have "0 < count (sum_list (map owned ks)) c" by (simp only: count_greater_zero_iff)
    moreover have "count (mset cls) c + count (sum_list (map owned ks)) c \<le> 1" using st(2) by simp
    ultimately have "count (mset cls) c = 0" by linarith
    then show ?thesis by (simp add: count_eq_zero_iff)
  qed
  with that [OF found _ fs(1)] fs(2,3) old show thesis by (auto split: option.splits)
qed

text \<open>One file of a directory gives up its clusters and takes others that were free or its own.\<close>

lemma unshared_swap:
  fixes A B :: "u32 multiset"
  assumes own: "\<forall>c. count (A + mset fs + B) c \<le> 1" and new: "distinct nks" "\<forall>c\<in>set nks. c \<in> set fs \<or> c \<notin># A + mset fs + B"
  shows "count (A + mset nks + B) c \<le> 1" and "c \<in> set fs \<union> (set nks \<union> set_mset A) \<Longrightarrow> c \<notin># B"
proof -
  have one: "count A c + count (mset fs) c + count B c \<le> 1" using own by simp
  have nks: "count A c = 0 \<and> count B c = 0" if "c \<in> set nks"
  proof (cases "c \<in> set fs")
    case True
    then have "0 < count (mset fs) c" by simp
    with one show ?thesis by linarith
  next
    case False
    with new(2) that show ?thesis by (auto simp: not_in_iff)
  qed
  show "count (A + mset nks + B) c \<le> 1"
    using nks one new(1) by (cases "c \<in> set nks") (auto simp: distinct_count_atmost_1)
  show "c \<notin># B" if "c \<in> set fs \<union> (set nks \<union> set_mset A)"
  proof -
    have "c \<in> set nks \<or> 0 < count A c + count (mset fs) c"
      using that by (auto simp only: count_greater_zero_iff Un_iff set_mset_mset add_gr_0)
    then have "count B c = 0" using nks one by linarith
    then show ?thesis by (simp only: not_in_iff)
  qed
qed

text \<open>The directory with the new file in place of the old one.\<close>

lemma swap_file:
  assumes st: "stored m (LDir en cls (k1 @ ks @ k2))" "\<forall>c. count (owned (LDir en cls (k1 @ ks @ k2))) c \<le> 1"
    and old: "sum_list (map owned ks) = mset fs" "\<forall>j\<in>set ks. key j = key (LFile x nks)"
    and others: "\<forall>j\<in>set k1 \<union> set k2. key j \<noteq> key (LFile x nks)"
    and run: "same_but (set fs \<union> (set nks \<union> set cls)) m m'" "\<forall>c\<in>set nks. fat_val m c = 0 \<or> c \<in> set fs" "distinct nks"
    and dir: "chain_at m' (e_first_cluster en) cls" "canonical_dir m' cls"
      "filter ordinary (listing (dir_slots (as_read m') cls)) = map entry_of (k1 @ LFile x nks # k2)"
    and new: "stored m' (LFile x nks)"
  defines "X \<equiv> LDir en cls (k1 @ LFile x nks # k2)"
  shows "stored m' X" and "\<forall>c. count (owned X) c \<le> 1"
    and "tidy m (LDir en cls (k1 @ ks @ k2)) \<Longrightarrow> orderly m' cls \<Longrightarrow> tidy m' X"
    and "tree_of m' X = Dir ((map_of (map (\<lambda>j. (key j, tree_of m j)) (k1 @ ks @ k2)))(key (LFile x nks) \<mapsto> tree_of m' (LFile x nks)))"
    and "\<forall>c\<in>set fs \<union> (set nks \<union> set cls) \<union> set_mset (owned X). c \<in># owned (LDir en cls (k1 @ ks @ k2)) \<or> fat_val m c = 0"
    and "c \<notin># owned X \<Longrightarrow> c \<notin> set nks \<and> (c \<in># owned (LDir en cls (k1 @ ks @ k2)) \<longrightarrow> c \<in> set fs)"
proof -
  let ?B = "sum_list (map owned k1) + sum_list (map owned k2)" and ?Y = "LDir en cls (k1 @ ks @ k2)"
  have Y: "owned ?Y = mset cls + mset fs + ?B" using old(1) by (simp add: ac_simps)
  have own: "\<forall>c. count (mset cls + mset fs + ?B) c \<le> 1" using st(2) unfolding Y .
  have "c \<in> set fs \<or> c \<notin># mset cls + mset fs + ?B" if "c \<in> set nks" for c
    using run(2) that stored_used [OF st(1), of c] unfolding Y by blast
  then have nks: "\<forall>c\<in>set nks. c \<in> set fs \<or> c \<notin># mset cls + mset fs + ?B" by blast
  note swap = unshared_swap [OF own run(3) nks]
  have X: "owned X = mset cls + mset nks + ?B" by (simp add: X_def ac_simps)
  then show "\<forall>c. count (owned X) c \<le> 1" using swap(1) by simp
  have rest: "(stored m' j \<and> tree_of m' j = tree_of m j) \<and> (tidy m j \<longrightarrow> tidy m' j)" if j: "j \<in> set k1 \<union> set k2" for j
  proof -
    have "stored m j" using st(1) j by auto
    moreover have "\<forall>c\<in>set fs \<union> (set nks \<union> set cls). c \<notin># owned j"
      using swap(2) j by (auto simp: in_owned_list)
    ultimately show ?thesis using stored_frame [OF _ run(1)] tidy_frame [OF _ run(1)] by blast
  qed
  then show "tidy m ?Y \<Longrightarrow> orderly m' cls \<Longrightarrow> tidy m' X" by (auto simp: X_def)
  have "distinct (map key (k1 @ LFile x nks # k2))" using st(1) others by auto
  with st(1) dir new rest show "stored m' X" by (auto simp: X_def)
  have "map_of (map (\<lambda>j. (key j, tree_of m' j)) (k1 @ LFile x nks # k2))
      = (map_of (map (\<lambda>j. (key j, tree_of m j)) (k1 @ ks @ k2)))(key (LFile x nks) \<mapsto> tree_of m' (LFile x nks))"
    using others old(2) rest by (intro map_of_replaced) auto
  then show "tree_of m' X = Dir ((map_of (map (\<lambda>j. (key j, tree_of m j)) (k1 @ ks @ k2)))(key (LFile x nks) \<mapsto> tree_of m' (LFile x nks)))"
    by (simp add: X_def)
  show "\<forall>c\<in>set fs \<union> (set nks \<union> set cls) \<union> set_mset (owned X). c \<in># owned ?Y \<or> fat_val m c = 0"
    using run(2) unfolding X Y by auto
  show "c \<notin> set nks \<and> (c \<in># owned ?Y \<longrightarrow> c \<in> set fs)" if "c \<notin># owned X" using that unfolding X Y by auto
qed

text \<open>
  The part \<open>Y\<close> of a layout has become \<open>X\<close>: only clusters of \<open>Y\<close> and free ones have changed, and those that \<open>X\<close>
  does not own are free.
\<close>

definition swaps :: "fat32_mut \<Rightarrow> fat32_mut \<Rightarrow> layout \<Rightarrow> layout \<Rightarrow> bool" where
  "swaps m m' Y X \<longleftrightarrow>
     (\<exists>K. same_but K m m' \<and> (\<forall>c\<in>K \<union> set_mset (owned X). c \<in># owned Y \<or> fat_val m c = 0))
     \<and> stored m' X \<and> entry_of X = entry_of Y \<and> (\<forall>c. count (owned X) c \<le> 1) \<and> (tidy m Y \<longrightarrow> tidy m' X)
     \<and> (\<forall>c. has_entry m c \<longrightarrow> c \<notin># owned X \<longrightarrow> c \<in># owned Y \<or> fat_val m c = 0 \<longrightarrow> fat_val m' c = 0)"

text \<open>The file at a path is new: it has the clusters its content needs, instead of what was there; an
  empty one starts nowhere.\<close>

definition owned_at :: "layout \<Rightarrow> rstr list \<Rightarrow> u32 multiset" where
  "owned_at L p = (case sub L p of None \<Rightarrow> {#} | Some K \<Rightarrow> owned K)"

definition new_file :: "fat32_mut \<Rightarrow> layout \<Rightarrow> layout \<Rightarrow> rstr list \<Rightarrow> u8 list \<Rightarrow> bool" where
  "new_file m Y X p content \<longleftrightarrow> (\<exists>x nks. sub X p = Some (LFile x nks)
     \<and> length nks = div_ceil (length content) (m_cluster_size m) \<and> owned X + owned_at Y p = owned Y + mset nks
     \<and> (content = [] \<longrightarrow> e_first_cluster x = 0))"

text \<open>What writing the file \<open>nm\<close> does to the directory \<open>LDir en cls ks\<close> that it goes to.\<close>

lemma write_in_dir:
  assumes vol: "mounted m" "max_cluster_number pf m = Ok mx" "mx < 0x0FFFFFF8"
    and path: "starts_with slash path" "split_parent path = Ok (pp, nm)"
      "encode_short_name_8_3 nm = Ok (n, e)" "plain_name nm" "parent_cluster pp m = Ok (e_first_cluster en)"
    and st: "stored m (LDir en cls ks)" "\<forall>c. count (owned (LDir en cls ks)) c \<le> 1"
    and plain_file: "\<forall>k\<in>set ks. key k = normalize_name nm \<longrightarrow> (\<exists>x fs. k = LFile x fs)"
    and un: "unlabelled m cls n e"
    and slot: "(\<forall>k\<in>set ks. key k \<noteq> normalize_name nm) \<longrightarrow>
      roomy_end m cls \<and> (\<exists>s\<in>set (dir_slots (as_read m) cls). \<not> used s)"
    and room: "div_ceil (length content) (m_cluster_size m) \<le> min 4096 (length (usable m mx (set_mset (owned_at (LDir en cls ks) [normalize_name nm]))))"
      "length content < 2 ^ 32"
  shows "\<exists>m' ks' f. write_file_by_path pf path content m = (Ok (), m')
    \<and> swaps m m' (LDir en cls ks) (LDir en cls ks') \<and> (\<forall>n e. unlabelled m cls n e \<longrightarrow> unlabelled m' cls n e)
    \<and> tree_of m (LDir en cls ks) = Dir f
    \<and> tree_of m' (LDir en cls ks') = Dir (f(normalize_name nm \<mapsto> File content))
    \<and> new_file m (LDir en cls ks) (LDir en cls ks') [normalize_name nm] content
    \<and> length (free_clusters m mx) \<le> length (free_clusters m' mx) + div_ceil (length content) (m_cluster_size m)"
proof -
  have chain: "chain_at m (e_first_cluster en) cls" and can: "canonical_dir m cls"
    and dist: "distinct (map key ks)" using st(1) by simp_all
  let ?es = "listing (dir_slots (as_read m) cls)" and ?y = "normalize_name nm"
  obtain off old fs where found: "find_dir_entry_offset_by_short_name m (e_first_cluster en) n e = Ok (off, old)"
    and old: "case old of None \<Rightarrow> \<forall>x\<in>set ?es. \<not> names nm x | Some x \<Rightarrow> names nm x"
    and fs: "old_chain m old fs" "set fs \<inter> set cls = {}" "old = None \<Longrightarrow> fs = []" "\<And>x. old = Some x \<Longrightarrow> LFile x fs \<in> set ks"
      "off = None \<Longrightarrow> old = None"
    by (rule old_in_dir [OF st path(3,4) un plain_file]) blast
  have ents: "filter ordinary ?es = map entry_of ks" using st(1) by simp
  have absent: "key k \<noteq> ?y" if none: "old = None" and k: "k \<in> set ks" for k
  proof -
    have "entry_of k \<in> set (filter ordinary ?es)" unfolding ents using k by simp
    with old none show ?thesis by (simp add: key_def names_def)
  qed
  have slots: "off = None \<longrightarrow> (\<exists>s\<in>set (dir_slots (as_read m) cls). \<not> used s)" "off = None \<longrightarrow> roomy_end m cls"
    using slot absent fs(5) by blast+
  have "set_mset (owned_at (LDir en cls ks) [?y]) = set fs"
  proof (cases old)
    case None
    then have "find (\<lambda>k. key k = ?y) ks = None" using absent by (simp add: find_None_iff)
    with None fs(3) show ?thesis by (simp add: owned_at_def)
  next
    case (Some x)
    then have "key (LFile x fs) = ?y" using old by (simp add: key_def names_def)
    from find_unique [OF fs(4) [OF Some] dist, unfolded this] show ?thesis by (simp add: owned_at_def)
  qed
  then have room': "div_ceil (length content) (m_cluster_size m) \<le> min 4096 (length (usable m mx (set fs)))"
    using room(1) by simp
  let ?fe = "\<lambda>fc. file_entry n e fc (word_of_nat (length content))"
  obtain m' es fc nks where "write_file_by_path pf path content m = (Ok (), m')
    \<and> same_but (set fs \<union> (set nks \<union> set cls)) m m' \<and> (\<forall>c\<in>set nks. fat_val m c = 0 \<or> c \<in> set fs)
    \<and> list_dir_cluster (as_read m') (e_first_cluster en) = Ok es
    \<and> find (names nm) es = Some (?fe fc)
    \<and> chain_at m' (e_first_cluster en) cls
    \<and> ((off = None \<longrightarrow> roomy_end m cls) \<longrightarrow> dir_updated m m' cls off old (?fe fc))
    \<and> (content = [] \<longrightarrow> fc = 0 \<and> nks = [])
    \<and> (content \<noteq> [] \<longrightarrow> chain_at m' fc nks \<and> take (length content) (chain_bytes (as_read m') nks) = content)
    \<and> (\<forall>d. has_entry m d \<longrightarrow> d \<notin> set nks \<longrightarrow> fat_val m' d = (if d \<in> set fs then 0 else fat_val m d))
    \<and> length nks = div_ceil (length content) (m_cluster_size m)"
    using write_file_run [OF vol path chain can found fs(1,2) slots(1) room'] by (elim exE) (rule that)
  then have run: "write_file_by_path pf path content m = (Ok (), m')"
    "same_but (set fs \<union> (set nks \<union> set cls)) m m'" "\<forall>c\<in>set nks. fat_val m c = 0 \<or> c \<in> set fs"
    "chain_at m' (e_first_cluster en) cls" "dir_updated m m' cls off old (?fe fc)"
    "content = [] \<longrightarrow> fc = 0 \<and> nks = []"
    "content \<noteq> [] \<longrightarrow> chain_at m' fc nks \<and> take (length content) (chain_bytes (as_read m') nks) = content"
    "\<forall>d. has_entry m d \<longrightarrow> d \<notin> set nks \<longrightarrow> fat_val m' d = (if d \<in> set fs then 0 else fat_val m d)"
    "length nks = div_ceil (length content) (m_cluster_size m)"
    using slots(2) by blast+
  obtain A B where ab: "?es = A @ shown old @ B" and es: "listing (dir_slots (as_read m') cls) = A @ ?fe fc # B"
    using run(5) by (auto simp: dir_updated_def)
  have y: "\<not> special ?y" using encoded_ordinary [OF path(3)] by simp
  have named: "case old of None \<Rightarrow> \<forall>x\<in>set (A @ B). normalize_name (e_name x) \<noteq> ?y | Some x \<Rightarrow> normalize_name (e_name x) = ?y"
    using old ab by (auto simp: names_def shown_def split: option.splits)
  obtain k1 k2 fs' where ks': "ks = k1 @ (case old of None \<Rightarrow> [] | Some x \<Rightarrow> [LFile x fs']) @ k2"
    and sides: "map entry_of k1 = filter ordinary A" "map entry_of k2 = filter ordinary B"
      "\<forall>j\<in>set k1 \<union> set k2. key j \<noteq> ?y"
    by (rule children_split [OF st(1) ab named y plain_file]) blast
  have "LFile x fs' = LFile x fs" if "old = Some x" for x
  proof -
    have "key (LFile x fs) = ?y" using named that by (simp add: key_def)
    with fs(4) [OF that] ks' that sides(3) show ?thesis by auto
  qed
  then obtain mid where mid: "ks = k1 @ mid @ k2" "sum_list (map owned mid) = mset fs" "\<forall>j\<in>set mid. key j = ?y"
    and one: "mid = [] \<or> (\<exists>x. mid = [LFile x fs])"
    using ks' fs(3) named that by (cases old) (auto simp: key_def)
  let ?new = "LFile (?fe fc) nks" and ?X = "LDir en cls (k1 @ LFile (?fe fc) nks # k2)"
  have new: "stored m' ?new" "tree_of m' ?new = File content"
    using run(6,7) room(2) by (intro stored_new_file; simp)+
  have new_key: "key ?new = ?y" "ordinary (?fe fc)"
    using y encode_short_name [OF path(3,4)] by (simp_all add: key_def ordinary_def)
  have listed: "filter ordinary (listing (dir_slots (as_read m') cls)) = map entry_of (k1 @ ?new # k2)"
    using sides(1,2) new_key(2) by (simp add: es)
  have unshared: "distinct nks" using run(6,7) chain_atD(2) by (cases "content = []") auto
  note X = swap_file [OF st [unfolded mid(1)] mid(2) mid(3) [folded new_key(1)] sides(3) [folded new_key(1)]
      run(2,3) unshared run(4) dir_updated_canonical [OF run(5) can] listed new(1)]
  have "fat_val m' c = 0" if "has_entry m c" "c \<notin># owned ?X" "c \<in># owned (LDir en cls ks) \<or> fat_val m c = 0" for c
    using run(8) that X(6) [OF that(2)] unfolding mid(1) by auto
  moreover have "tidy m' ?X" if "tidy m (LDir en cls ks)"
  proof (rule X(3))
    show "tidy m (LDir en cls (k1 @ mid @ k2))" using that by (simp add: mid(1))
    then show "orderly m' cls" using run(5) by (auto simp: orderly_def dir_updated_def unlabelled_def)
  qed
  ultimately have swap: "swaps m m' (LDir en cls ks) ?X"
    using run(2) X(1,2,5) unfolding swaps_def mid(1) [symmetric] by auto
  have "find (\<lambda>k. key k = ?y) k1 = None" "find (\<lambda>k. key k = ?y) k2 = None"
    using sides(3) by (simp_all add: find_None_iff)
  then have "find (\<lambda>k. key k = ?y) (k1 @ ?new # k2) = Some ?new" "find (\<lambda>k. key k = ?y) ks = (if mid = [] then None else Some (hd mid))"
    using new_key(1) mid(3) one unfolding mid(1) by (auto simp: find_append)
  then have "new_file m (LDir en cls ks) ?X [?y] content"
    using run(6,9) one mid(1,2) by (auto simp: new_file_def owned_at_def)
  moreover have "\<forall>n e. unlabelled m cls n e \<longrightarrow> unlabelled m' cls n e"
    using run(5) by (auto simp: unlabelled_def dir_updated_def)
  moreover have "length (free_clusters m mx) \<le> length (free_clusters m' mx) + div_ceil (length content) (m_cluster_size m)"
    unfolding run(9) [symmetric] using run(8) by (intro free_clusters_taken [OF vol(2,1)]) auto
  ultimately show ?thesis
    using run(1) swap X(4) new(2) unfolding mid(1) [symmetric] new_key(1)
    by (intro exI [of _ m'] exI [of _ "k1 @ ?new # k2"] exI [of _ "map_of (map (\<lambda>j. (key j, tree_of m j)) ks)"] conjI) simp_all
qed

subsection \<open>Writing into the tree\<close>

lemma sub_not_through: "sub L p = Some K \<Longrightarrow> \<not> through_file (tree_of m L) p"
  by (induction L p rule: sub.induct) (auto simp: map_of_keys split: option.splits)

lemma same_shape_root: "same_shape m m' \<Longrightarrow> root_entry m' = root_entry m"
  by (simp add: root_entry_def same_shapeD(7))

text \<open>
  What a write asks for: the path splits into a directory of the tree, named without \<^verbatim>\<open>.\<close> and \<^verbatim>\<open>..\<close>, and a
  plain 8.3 name in it that no directory and no label has; if the name is new, the directory has a slot
  left and room for its end mark; and the volume has clusters for the content, those of a replaced file
  included.
\<close>

definition accepts :: "profile \<Rightarrow> fat32_mut \<Rightarrow> layout \<Rightarrow> rstr \<Rightarrow> u8 list \<Rightarrow> bool" where
  "accepts pf m L path content \<longleftrightarrow> (\<exists>pp nm n e en cls ks mx.
     starts_with slash path \<and> split_parent path = Ok (pp, nm)
     \<and> (\<forall>c\<in>set (components pp). \<not> special c) \<and> (components pp = [] \<longrightarrow> pp = [slash])
     \<and> encode_short_name_8_3 nm = Ok (n, e) \<and> plain_name nm
     \<and> sub L (map normalize_name (components pp)) = Some (LDir en cls ks)
     \<and> (\<forall>f. lookup (tree_of m L) (map normalize_name (components path)) \<noteq> Some (Dir f))
     \<and> unlabelled m cls n e
     \<and> (lookup (tree_of m L) (map normalize_name (components path)) = None \<longrightarrow>
          roomy_end m cls \<and> (\<exists>s\<in>set (dir_slots (as_read m) cls). \<not> used s))
     \<and> max_cluster_number pf m = Ok mx \<and> mx < 0x0FFFFFF8
     \<and> div_ceil (length content) (m_cluster_size m)
         \<le> min 4096 (length (usable m mx (set_mset (owned_at L (map normalize_name (components path))))))
     \<and> length content < 2 ^ 32)"

lemma acceptsI:
  assumes "starts_with slash path" "split_parent path = Ok (pp, nm)"
    "\<forall>c\<in>set (components pp). \<not> special c" "components pp = [] \<longrightarrow> pp = [slash]"
    "encode_short_name_8_3 nm = Ok (n, e)" "plain_name nm"
    "sub L (map normalize_name (components pp)) = Some (LDir en cls ks)"
    "\<forall>f. lookup (tree_of m L) (map normalize_name (components path)) \<noteq> Some (Dir f)"
    "unlabelled m cls n e"
    "lookup (tree_of m L) (map normalize_name (components path)) = None \<longrightarrow>
      roomy_end m cls \<and> (\<exists>s\<in>set (dir_slots (as_read m) cls). \<not> used s)"
    "max_cluster_number pf m = Ok mx" "mx < 0x0FFFFFF8"
    "div_ceil (length content) (m_cluster_size m) \<le> min 4096 (length (free_clusters m mx))"
    "length content < 2 ^ 32"
  shows "accepts pf m L path content"
proof -
  have "div_ceil (length content) (m_cluster_size m)
      \<le> min 4096 (length (usable m mx (set_mset (owned_at L (map normalize_name (components path))))))"
    using assms(13) free_usable [of m mx "set_mset (owned_at L (map normalize_name (components path)))"] by simp
  with assms show ?thesis unfolding accepts_def by (intro exI conjI)
qed

text \<open>The clusters that are in use but belong to nothing in the layout.\<close>

definition unowned :: "fat32_mut \<Rightarrow> layout \<Rightarrow> u32 set" where
  "unowned m L = {c. has_entry m c \<and> fat_val m c \<noteq> 0 \<and> c \<notin># owned L}"

lemma volume_put:
  assumes vol: "volume_tree m L" and part: "sub L p = Some Y" and swap: "swaps m m' Y X"
    and kind: "\<exists>en cs ks. X = LDir en cs ks"
  shows "volume_tree m' (put L p X) \<and> tree_of m' (put L p X) = update (tree_of m L) p (tree_of m' X)
    \<and> unowned m' (put L p X) = unowned m L \<and> (tidy m L \<longrightarrow> tidy m' (put L p X))"
proof -
  obtain K where new: "same_but K m m'" "stored m' X" "entry_of X = entry_of Y" "\<forall>c. count (owned X) c \<le> 1"
      "tidy m Y \<longrightarrow> tidy m' X"
    and mine: "\<forall>c\<in>K \<union> set_mset (owned X). c \<in># owned Y \<or> fat_val m c = 0"
    and freed: "\<forall>c. has_entry m c \<longrightarrow> c \<notin># owned X \<longrightarrow> c \<in># owned Y \<or> fat_val m c = 0 \<longrightarrow> fat_val m' c = 0"
    using swap unfolding swaps_def by (elim exE conjE) (rule that)
  have m: "mounted m" "stored m L" "\<And>c. count (owned L) c \<le> 1" and root: "\<exists>cs js. L = LDir (root_entry m) cs js"
    using vol by (simp_all add: volume_tree_def)
  have free: "count (owned L) c = 0" if "fat_val m c = 0" for c
    using stored_used [OF m(2)] that by (auto simp: count_eq_zero_iff)
  have part_one: "count (owned Y) c = count (owned L) c" if "c \<in># owned Y" for c
  proof -
    have "0 < count (owned Y) c" using that by (simp only: count_greater_zero_iff)
    with owned_sub [OF part, of c] m(3) [of c] show ?thesis by linarith
  qed
  have inside: "count (owned L) c \<le> count (owned Y) c" if "c \<in> K \<union> set_mset (owned X)" for c
  proof (cases "c \<in># owned Y")
    case False
    with mine that have "fat_val m c = 0" by blast
    then show ?thesis by (simp add: free)
  qed (simp add: part_one)
  have put: "stored m' (put L p X)" "entry_of (put L p X) = entry_of L"
    "tree_of m' (put L p X) = update (tree_of m L) p (tree_of m' X)"
    using stored_put [OF part m(2) new(1) _ new(2,3)] inside by blast+
  have sum: "count (owned (put L p X)) c + count (owned Y) c = count (owned L) c + count (owned X) c" for c
    using arg_cong [OF owned_put [OF part m(2), of X], of "\<lambda>M. count M c"] by simp
  have "count (owned (put L p X)) c \<le> 1" for c
  proof -
    show ?thesis
    proof (cases "c \<in># owned X")
      case True
      then have "count (owned L) c \<le> count (owned Y) c" by (intro inside) simp
      moreover have "count (owned X) c \<le> 1" using new(4) by blast
      ultimately show ?thesis using sum [of c] by linarith
    next
      case False
      then have "count (owned X) c = 0" by (simp only: not_in_iff)
      with sum [of c] m(3) [of c] show ?thesis by linarith
    qed
  qed
  moreover have "\<exists>cs ks. put L p X = LDir (root_entry m') cs ks"
    using root kind put(2) same_shape_root [OF same_but_shape [OF new(1)]] by (cases p) auto
  moreover have "mounted m'" by (rule mounted_same_shape [OF same_but_shape [OF new(1)] m(1)])
  moreover have "c \<in> unowned m' (put L p X) \<longleftrightarrow> c \<in> unowned m L" for c
  proof (cases "c \<in># owned Y \<or> c \<in># owned X \<or> fat_val m c = 0")
    case True
    have in_Y: "c \<in># owned L" if "c \<in># owned Y" using part_one [OF that] that by (simp only: count_greater_zero_iff [symmetric])
    have in_X: "c \<in># owned (put L p X)" if "c \<in># owned X"
    proof -
      have "0 < count (owned X) c" using that by (simp only: count_greater_zero_iff)
      with sum [of c] owned_sub [OF part, of c] have "0 < count (owned (put L p X)) c" by linarith
      then show ?thesis by (simp only: count_greater_zero_iff)
    qed
    have "c \<notin> unowned m L" using True in_Y mine unfolding unowned_def by blast
    moreover have "c \<notin> unowned m' (put L p X)"
      using True freed in_X has_entry_same_shape [OF same_but_shape [OF new(1)], of c] unfolding unowned_def by blast
    ultimately show ?thesis by blast
  next
    case False
    then have "count (owned Y) c = 0" "count (owned X) c = 0" by (simp_all only: de_Morgan_disj not_in_iff)
    moreover have "c \<notin> K" using False mine by blast
    ultimately have "c \<notin># owned (put L p X) \<longleftrightarrow> c \<notin># owned L" "c \<notin> K" using sum [of c] unfolding not_in_iff by simp_all
    then show ?thesis
      using new(1) has_entry_same_shape [OF same_but_shape [OF new(1)], of c] by (auto simp: unowned_def same_but_def)
  qed
  moreover have "tidy m' (put L p X)" if tidy: "tidy m L"
    unfolding tidy_def
  proof
    fix cs
    assume cs: "cs \<in> dirs (put L p X)"
    from dirs_put [OF part m(2) cs] consider "cs \<in> dirs X"
      | "cs \<in> dirs L" "\<And>c. c \<in> set cs \<Longrightarrow> count (owned Y) c < count (owned L) c" by blast
    then show "orderly m' cs"
    proof cases
      case 1
      then show ?thesis using new(5) tidy_sub [OF part tidy] by (simp add: tidy_def)
    next
      case 2
      obtain d where d: "chain_at m d cs" "\<forall>c\<in>set cs. c \<in># owned L" using stored_dirs [OF m(2) 2(1)] by blast
      have "c \<notin> K" if "c \<in> set cs" for c
      proof -
        have "count (owned Y) c = 0" using 2(2) [OF that] m(3) [of c] by linarith
        then have "c \<notin># owned Y" by (simp only: not_in_iff)
        moreover have "fat_val m c \<noteq> 0" using stored_used [OF m(2)] d(2) that by blast
        ultimately show ?thesis using mine by blast
      qed
      then have "set cs \<inter> K = {}" by blast
      with tidy 2(1) show ?thesis by (auto simp: tidy_def intro: orderly_frame [OF new(1) d(1)])
    qed
  qed
  ultimately show ?thesis using put(1,3) by (simp add: volume_tree_def set_eq_iff)
qed

lemma sub_put:
  "sub L p = Some Y \<Longrightarrow> entry_of X = entry_of Y \<Longrightarrow> sub (put L p X) (p @ q) = sub X q"
proof (induction L p rule: sub.induct)
  case (3 en cs ks x xs)
  then obtain k where k: "find (\<lambda>k. key k = x) ks = Some k" "sub k xs = Some Y" by (auto split: option.splits)
  have "key (put j xs X) = x" if "key j = x" for j
    using k "3.prems"(2) that find_in [OF k(1)] by (cases xs) (auto simp: key_def entry_put)
  then have "find (\<lambda>k. key k = x) (map (\<lambda>k. if key k = x then put k xs X else k) js)
      = map_option (\<lambda>k. put k xs X) (find (\<lambda>k. key k = x) js)" for js
    by (induction js) auto
  then show ?case using k "3.IH" [OF k] "3.prems"(2) by simp
qed simp_all

lemma new_file_put:
  assumes "sub L p = Some Y" "stored m L" "entry_of X = entry_of Y" "new_file m Y X q content"
  shows "new_file m L (put L p X) (p @ q) content"
proof -
  obtain x nks where new: "sub X q = Some (LFile x nks)" "length nks = div_ceil (length content) (m_cluster_size m)"
    "owned X + owned_at Y q = owned Y + mset nks" "content = [] \<longrightarrow> e_first_cluster x = 0"
    using assms(4) unfolding new_file_def by (elim exE conjE) (rule that)
  have at: "owned_at L (p @ q) = owned_at Y q" using assms(1) by (simp add: owned_at_def sub_append)
  have "count (owned (put L p X) + owned_at L (p @ q)) c = count (owned L + mset nks) c" for c
    using arg_cong [OF owned_put [OF assms(1,2), of X], of "\<lambda>M. count M c"]
      arg_cong [OF new(3), of "\<lambda>M. count M c"] by (simp add: at)
  then have "owned (put L p X) + owned_at L (p @ q) = owned L + mset nks" by (rule multiset_eqI)
  with new(1,2,4) sub_put [OF assms(1,3)] show ?thesis by (auto simp: new_file_def)
qed

text \<open>The directory a path names as its parent.\<close>

lemma parent_in_tree:
  assumes vol: "volume_tree m L" and path: "starts_with slash pp" "\<forall>c\<in>set (components pp). \<not> special c"
      "components pp = [] \<longrightarrow> pp = [slash]"
    and seen: "\<not> through_file (tree_of m L) (map normalize_name (components pp))"
  shows "parent_cluster pp m = (case sub L (map normalize_name (components pp)) of
      None \<Rightarrow> Err PathNotFound | Some (LFile en cs) \<Rightarrow> Err NotADirectory | Some (LDir en cs ks) \<Rightarrow> Ok (e_first_cluster en))"
proof (cases "components pp = []")
  case True
  with path(3) vol show ?thesis by (auto simp: volume_tree_def parent_cluster_def root_entry_def)
next
  case False
  have st: "stored m L" using vol by (simp add: volume_tree_def)
  have "pp \<noteq> [slash]" using False components_append [of "[]" "[]"] by auto
  moreover have "\<not> is_dir en" if "sub L (map normalize_name (components pp)) = Some (LFile en cs)" for en cs
    using sub_stored [OF st that] by (simp add: old_chain_def is_file_not_dir)
  moreover have "is_dir en" if "sub L (map normalize_name (components pp)) = Some (LDir en cs ks)" for en cs ks
    using sub_stored [OF st that] by simp
  ultimately show ?thesis
    using volume_open [OF vol path(1,2) seen] False by (auto simp: parent_cluster_def split: option.splits layout.splits)
qed

lemma write_in_tree:
  assumes vol: "volume_tree m L"
    and path: "starts_with slash path" "split_parent path = Ok (pp, nm)"
      "\<forall>c\<in>set (components pp). \<not> special c" "components pp = [] \<longrightarrow> pp = [slash]"
      "encode_short_name_8_3 nm = Ok (n, e)" "plain_name nm"
    and dir: "sub L (map normalize_name (components pp)) = Some (LDir en cls ks)"
    and no_dir: "\<forall>f. lookup (tree_of m L) (map normalize_name (components path)) \<noteq> Some (Dir f)"
    and un: "unlabelled m cls n e"
    and slot: "lookup (tree_of m L) (map normalize_name (components path)) = None \<longrightarrow>
      roomy_end m cls \<and> (\<exists>s\<in>set (dir_slots (as_read m) cls). \<not> used s)"
    and mx: "max_cluster_number pf m = Ok mx" "mx < 0x0FFFFFF8"
    and room: "div_ceil (length content) (m_cluster_size m)
      \<le> min 4096 (length (usable m mx (set_mset (owned_at L (map normalize_name (components path))))))"
      "length content < 2 ^ 32"
  shows "\<exists>m' L'. write_file_by_path pf path content m = (Ok (), m') \<and> volume_tree m' L'
    \<and> tree_of m' L' = update (tree_of m L) (map normalize_name (components path)) (File content)
    \<and> unowned m' L' = unowned m L \<and> new_file m L L' (map normalize_name (components path)) content
    \<and> (\<forall>c. div_ceil (length c) (m_cluster_size m) \<le> min 4096 (length (free_clusters m' mx)) \<longrightarrow>
         length c < 2 ^ 32 \<longrightarrow> accepts pf m' L' path c)
    \<and> (tidy m L \<longrightarrow> tidy m' L')
    \<and> length (free_clusters m mx) \<le> length (free_clusters m' mx) + div_ceil (length content) (m_cluster_size m)"
proof -
  let ?p = "map normalize_name (components pp)" and ?Y = "LDir en cls ks"
  have m: "mounted m" "stored m L" "\<And>c. count (owned L) c \<le> 1" and root: "\<exists>cs js. L = LDir (root_entry m) cs js"
    using vol by (simp_all add: volume_tree_def)
  have comps: "map normalize_name (components path) = ?p @ [normalize_name nm]"
    using split_parent_components [OF path(2)] by simp
  note Y = sub_stored [OF m(2) dir]
  have small: "\<forall>c. count (owned ?Y) c \<le> 1" using owned_sub [OF dir] m(3) le_trans by blast
  have parent: "parent_cluster pp m = Ok (e_first_cluster en)"
    using parent_in_tree [OF vol split_parent_absolute [OF path(1,2)] path(3,4) sub_not_through [OF dir]] dir by simp
  have files: "\<forall>k\<in>set ks. key k = normalize_name nm \<longrightarrow> (\<exists>x fs. k = LFile x fs)"
  proof (intro ballI impI)
    fix k
    assume k: "k \<in> set ks" "key k = normalize_name nm"
    have "find (\<lambda>k. key k = normalize_name nm) ks = Some k"
      using k Y by (cases "find (\<lambda>k. key k = normalize_name nm) ks")
        (auto simp: find_None_iff dest!: find_in simp: distinct_map inj_on_def)
    then have "lookup (tree_of m L) (?p @ [normalize_name nm]) = Some (tree_of m k)"
      by (simp add: lookup_sub sub_append dir)
    then show "\<exists>x fs. k = LFile x fs" using no_dir comps by (cases k) auto
  qed
  have new_name: "lookup (tree_of m L) (map normalize_name (components path)) = None"
    if "\<forall>k\<in>set ks. key k \<noteq> normalize_name nm"
  proof -
    have "find (\<lambda>k. key k = normalize_name nm) ks = None" using that by (simp add: find_None_iff)
    then show ?thesis unfolding comps by (simp add: lookup_sub sub_append dir)
  qed
  have slot': "(\<forall>k\<in>set ks. key k \<noteq> normalize_name nm) \<longrightarrow>
      roomy_end m cls \<and> (\<exists>s\<in>set (dir_slots (as_read m) cls). \<not> used s)"
  proof
    assume "\<forall>k\<in>set ks. key k \<noteq> normalize_name nm"
    from new_name [OF this] slot
    show "roomy_end m cls \<and> (\<exists>s\<in>set (dir_slots (as_read m) cls). \<not> used s)" by simp
  qed
  have "owned_at L (map normalize_name (components path)) = owned_at ?Y [normalize_name nm]"
    by (simp add: comps owned_at_def sub_append dir)
  with room(1) have room': "div_ceil (length content) (m_cluster_size m)
      \<le> min 4096 (length (usable m mx (set_mset (owned_at ?Y [normalize_name nm]))))" by simp
  obtain m' ks' f where w: "write_file_by_path pf path content m = (Ok (), m')"
    "swaps m m' ?Y (LDir en cls ks')" "\<forall>n e. unlabelled m cls n e \<longrightarrow> unlabelled m' cls n e"
    "tree_of m ?Y = Dir f" "tree_of m' (LDir en cls ks') = Dir (f(normalize_name nm \<mapsto> File content))"
    "new_file m ?Y (LDir en cls ks') [normalize_name nm] content"
    "length (free_clusters m mx) \<le> length (free_clusters m' mx) + div_ceil (length content) (m_cluster_size m)"
    using write_in_dir [OF m(1) mx path(1,2,5,6) parent Y small files un slot' room' room(2)]
    by (elim exE conjE) (rule that)
  let ?X = "LDir en cls ks'" and ?L = "put L ?p (LDir en cls ks')"
  have put: "volume_tree m' ?L" "tree_of m' ?L = update (tree_of m L) ?p (tree_of m' ?X)" "unowned m' ?L = unowned m L"
    "tidy m L \<longrightarrow> tidy m' ?L"
    using volume_put [OF vol dir w(2)] by blast+
  have parent_dir: "lookup (tree_of m L) ?p = Some (Dir f)" using dir w(4) by (simp add: lookup_sub)
  have tree: "tree_of m' ?L = update (tree_of m L) (?p @ [normalize_name nm]) (File content)"
    unfolding put(2) w(5) update_snoc [OF parent_dir] ..
  have part: "sub ?L (?p @ q) = sub ?X q" for q by (rule sub_put [OF dir]) simp
  have fresh: "new_file m L ?L (?p @ [normalize_name nm]) content"
    by (rule new_file_put [OF dir m(2) _ w(6)]) simp
  have shape: "same_shape m m'" using w(2) by (auto simp: swaps_def dest: same_but_shape)
  have again: "accepts pf m' ?L path c"
    if room': "div_ceil (length c) (m_cluster_size m) \<le> min 4096 (length (free_clusters m' mx))"
      "length c < 2 ^ 32" for c
  proof (rule acceptsI [OF path _ _ _ _ _ mx(2) _ room'(2)])
    have now: "lookup (tree_of m' ?L) (map normalize_name (components path)) = Some (File content)"
      unfolding tree comps by (rule lookup_update_same [OF parent_dir])
    show "sub ?L (map normalize_name (components pp)) = Some ?X" using part [of "[]"] by simp
    show "\<forall>f. lookup (tree_of m' ?L) (map normalize_name (components path)) \<noteq> Some (Dir f)"
      "lookup (tree_of m' ?L) (map normalize_name (components path)) = None \<longrightarrow>
        roomy_end m' cls \<and> (\<exists>s\<in>set (dir_slots (as_read m') cls). \<not> used s)"
      unfolding now by simp_all
    show "unlabelled m' cls n e" using w(3) un by blast
    show "max_cluster_number pf m' = Ok mx" using mx(1) max_cluster_number_same_shape [OF shape] by simp
    show "div_ceil (length c) (m_cluster_size m') \<le> min 4096 (length (free_clusters m' mx))"
      using room'(1) same_shapeD(2) [OF shape] by simp
  qed
  show ?thesis unfolding comps
    by (intro exI [of _ m'] exI [of _ ?L] conjI w(1) put(1,3,4) tree fresh w(7)) (use again in blast)
qed

lemma accepted_write:
  assumes "volume_tree m L" "accepts pf m L path content"
  shows "\<exists>m' L'. write_file_by_path pf path content m = (Ok (), m') \<and> volume_tree m' L'
       \<and> tree_of m' L' = update (tree_of m L) (map normalize_name (components path)) (File content)
       \<and> unowned m' L' = unowned m L \<and> new_file m L L' (map normalize_name (components path)) content
       \<and> (\<forall>c mx. max_cluster_number pf m = Ok mx \<longrightarrow>
            div_ceil (length c) (m_cluster_size m) \<le> min 4096 (length (free_clusters m' mx)) \<longrightarrow>
            length c < 2 ^ 32 \<longrightarrow> accepts pf m' L' path c)
       \<and> (tidy m L \<longrightarrow> tidy m' L')
       \<and> (\<forall>mx. max_cluster_number pf m = Ok mx \<longrightarrow>
            length (free_clusters m mx) \<le> length (free_clusters m' mx) + div_ceil (length content) (m_cluster_size m))"
proof -
  obtain pp nm n e en cls ks mx where a: "starts_with slash path" "split_parent path = Ok (pp, nm)"
    "\<forall>c\<in>set (components pp). \<not> special c" "components pp = [] \<longrightarrow> pp = [slash]"
    "encode_short_name_8_3 nm = Ok (n, e)" "plain_name nm"
    "sub L (map normalize_name (components pp)) = Some (LDir en cls ks)"
    "\<forall>f. lookup (tree_of m L) (map normalize_name (components path)) \<noteq> Some (Dir f)" "unlabelled m cls n e"
    "lookup (tree_of m L) (map normalize_name (components path)) = None \<longrightarrow>
      roomy_end m cls \<and> (\<exists>s\<in>set (dir_slots (as_read m) cls). \<not> used s)"
    "max_cluster_number pf m = Ok mx" "mx < 0x0FFFFFF8"
    "div_ceil (length content) (m_cluster_size m)
      \<le> min 4096 (length (usable m mx (set_mset (owned_at L (map normalize_name (components path))))))"
    "length content < 2 ^ 32"
    using assms(2) unfolding accepts_def by (elim exE conjE) (rule that)
  have "mx' = mx" if "max_cluster_number pf m = Ok mx'" for mx' using a(11) that by simp
  with write_in_tree [OF assms(1) a] show ?thesis by blast
qed

lemma accepts_parent:
  assumes "accepts pf m L path content"
  obtains p x f where "map normalize_name (components path) = p @ [x]" "lookup (tree_of m L) p = Some (Dir f)"
proof -
  obtain pp nm en cls ks where "split_parent path = Ok (pp, nm)"
    "sub L (map normalize_name (components pp)) = Some (LDir en cls ks)"
    using assms unfolding accepts_def by (elim exE conjE) (rule that)
  then show thesis
    using split_parent_components [of path pp nm] that [of "map normalize_name (components pp)"] by (simp add: lookup_sub)
qed

end
