(* ===== verification/Tree_Facts.thy ===== *)
theory Tree_Facts
  imports Tree_Write Test_Volume
begin

text \<open>
  The driver as a file system: on a volume that stores a tree, reading, listing and writing by path are
  lookup and update of the tree. The test volume stores one.
\<close>

subsection \<open>The tree of the test volume\<close>

definition test_layout :: layout where
  "test_layout = LDir (root_entry test_volume) [2]
     [LFile \<lparr>e_name = bytes ''HELLO.TXT'', e_attrs = from_byte 0x20, e_first_cluster = 3, e_size = 5\<rparr> [3],
      LDir \<lparr>e_name = bytes ''DIR'', e_attrs = from_byte 0x10, e_first_cluster = 4, e_size = 0\<rparr> [4] []]"

lemma test_dir_slots: "dir_slots (as_read test_volume) [4] = replicate 16 (replicate 32 0)"
proof -
  have upt: "[0..<16] = [0, 1, 2, 3, 4, 5, 6, 7, 8, 9, 10, 11, 12, 13, 14, 15 :: nat]"
    by (simp add: upt_rec)
  have sixteen: "replicate 16 z = [z, z, z, z, z, z, z, z, z, z, z, z, z, z, z, z]" for z :: "u8 list"
    by (simp add: numeral_eq_Suc)
  have r: "(0 :: u8) # replicate 31 0 = replicate 32 0" by (simp flip: replicate_Suc)
  have zero: "window build_test_image a 32 = replicate 32 0" if "a \<in> {2048, 2080, 2112, 2144, 2176, 2208, 2240, 2272,
      2304, 2336, 2368, 2400, 2432, 2464, 2496, 2528}" for a
    using that by (auto simp: window_image image_eval patch_def r)
  show ?thesis
    using dir_slots_places [of "[4]" test_volume, OF chain_atD(5) [OF chain_at_test_volume(3)]]
    by (simp add: slot_places_def cluster_places_def cluster_at_def upt slot_def sixteen zero)
qed

lemma takeWhile_test_dir: "takeWhile live (dir_slots (as_read test_volume) [4]) = []"
  by (simp add: test_dir_slots live_def numeral_eq_Suc)

lemma test_names: "normalize_name (bytes ''HELLO.TXT'') = bytes ''HELLO.TXT''" "normalize_name (bytes ''DIR'') = bytes ''DIR''"
  "\<not> special (bytes ''HELLO.TXT'')" "\<not> special (bytes ''DIR'')" "bytes ''HELLO.TXT'' \<noteq> bytes ''DIR''"
  by code_simp+

lemma volume_tree_test: "volume_tree test_volume test_layout"
proof -
  have root: "is_dir (root_entry test_volume)" by (simp add: root_entry_def is_dir_def from_byte_def)
  have kinds: "is_file \<lparr>e_name = x, e_attrs = from_byte 0x20, e_first_cluster = c, e_size = s\<rparr>"
    "is_dir \<lparr>e_name = x, e_attrs = from_byte 0x10, e_first_cluster = c, e_size = s\<rparr>" for x c s
    by (simp_all add: is_file_def is_dir_def from_byte_def)
  have listed: "listing (dir_slots (as_read test_volume) [2]) = map entry_of
      [LFile \<lparr>e_name = bytes ''HELLO.TXT'', e_attrs = from_byte 0x20, e_first_cluster = 3, e_size = 5\<rparr> [3],
       LDir \<lparr>e_name = bytes ''DIR'', e_attrs = from_byte 0x10, e_first_cluster = 4, e_size = 0\<rparr> [4] []]"
    using list_test_root list_dir_chain [OF chain_at_test_volume(1)] by simp
  have empty: "listing (dir_slots (as_read test_volume) [4]) = []" "canonical_dir test_volume [4]"
    by (simp_all add: listing_def canonical_dir_def takeWhile_test_dir List.map_filter_simps)
  have "stored test_volume test_layout"
    unfolding test_layout_def stored.simps listed
    using root kinds chain_at_test_volume canonical_test_root empty test_names
    by (simp add: old_chain_def root_entry_def ordinary_def key_def)
  moreover have "\<forall>c. count (owned test_layout) c \<le> 1" by (simp add: test_layout_def)
  ultimately show ?thesis by (simp add: volume_tree_def test_layout_def)
qed

lemma tree_test:
  "tree_of test_volume test_layout
    = Dir [bytes ''HELLO.TXT'' \<mapsto> File (bytes ''HELLO''), bytes ''DIR'' \<mapsto> Dir Map.empty]"
proof -
  have "take 5 (chain_bytes (as_read test_volume) [3]) = bytes ''HELLO''"
    using cluster_bytes_test_volume by (simp add: chain_bytes_def)
  then show ?thesis using test_names by (auto simp: test_layout_def key_def fun_eq_iff)
qed

text \<open>Paths of the witnesses.\<close>

lemma hello_path:
  "starts_with slash (bytes ''/hello.txt'')" "map normalize_name (components (bytes ''/hello.txt'')) = [bytes ''HELLO.TXT'']"
  "\<forall>c\<in>set (components (bytes ''/hello.txt'')). \<not> special c"
  "\<not> through_file (tree_of test_volume test_layout) (map normalize_name (components (bytes ''/hello.txt'')))"
proof -
  have comps: "components (bytes ''/hello.txt'') = [bytes ''hello.txt'']" by code_simp
  show "starts_with slash (bytes ''/hello.txt'')" by code_simp
  have up: "normalize_name (bytes ''hello.txt'') = bytes ''HELLO.TXT''" by code_simp
  then show norm: "map normalize_name (components (bytes ''/hello.txt'')) = [bytes ''HELLO.TXT'']" by (simp add: comps)
  show "\<forall>c\<in>set (components (bytes ''/hello.txt'')). \<not> special c" unfolding comps by code_simp
  show "\<not> through_file (tree_of test_volume test_layout) (map normalize_name (components (bytes ''/hello.txt'')))"
    unfolding norm tree_test by simp
qed

lemma root_path: "starts_with slash [slash]" "components [slash] = []" "\<forall>c\<in>set (components [slash]). \<not> special c"
  by code_simp+

lemma new_path:
  "map normalize_name (components (bytes ''/NEW.TXT'')) = [bytes ''NEW.TXT'']"
  "bytes ''NEW.TXT'' \<noteq> bytes ''HELLO.TXT''" "bytes ''NEW.TXT'' \<noteq> bytes ''DIR''"
  by code_simp+

lemma unlabelled_test_root: "unlabelled test_volume [2] n e"
  by (simp add: unlabelled_def takeWhile_test_root parse_image_entries)

lemma tidy_test: "tidy test_volume test_layout"
proof -
  have live: "live hello_entry" "live subdir_entry" unfolding hello_entry_eq subdir_entry_eq by code_simp+
  have "dropWhile live (replicate k (replicate 32 0)) = replicate k (replicate 32 (0 :: u8))" for k
    by (cases k) (simp_all add: live_def)
  then have "clear_end test_volume [2]" "clear_end test_volume [4]"
    using live by (simp_all add: clear_end_def test_root_slots test_dir_slots) (simp_all add: live_def)
  moreover have "unlabelled test_volume [4] n e" for n e by (simp add: unlabelled_def takeWhile_test_dir)
  ultimately show ?thesis by (simp add: test_layout_def orderly_def unlabelled_test_root)
qed

lemma accepts_test: "accepts Debug test_volume test_layout (bytes ''/NEW.TXT'') (bytes ''NEW!'')"
proof (rule acceptsI [OF new_txt(4,5) _ _ new_txt(6,7) _ _ unlabelled_test_root _
      test_volume_max_cluster new_ready(1,6,7)])
  show "\<forall>c\<in>set (components (bytes ''/'')). \<not> special c" "components (bytes ''/'') = [] \<longrightarrow> bytes ''/'' = [slash]"
    by (simp_all add: new_name(5) root_path(2))
  show "sub test_layout (map normalize_name (components (bytes ''/''))) = Some (LDir (root_entry test_volume) [2]
     [LFile \<lparr>e_name = bytes ''HELLO.TXT'', e_attrs = from_byte 0x20, e_first_cluster = 3, e_size = 5\<rparr> [3],
      LDir \<lparr>e_name = bytes ''DIR'', e_attrs = from_byte 0x10, e_first_cluster = 4, e_size = 0\<rparr> [4] []])"
    by (simp add: new_name(5) root_path(2) test_layout_def)
  show "\<forall>f. lookup (tree_of test_volume test_layout) (map normalize_name (components (bytes ''/NEW.TXT''))) \<noteq> Some (Dir f)"
    using new_path by (simp add: tree_test)
  show "lookup (tree_of test_volume test_layout) (map normalize_name (components (bytes ''/NEW.TXT''))) = None \<longrightarrow>
      roomy_end test_volume [2] \<and> (\<exists>s\<in>set (dir_slots (as_read test_volume) [2]). \<not> used s)"
    using roomy_test_root by (simp add: test_root_slots used_def)
qed

subsection \<open>Properties\<close>

text \<open>C2: reading a file is looking it up in the tree. On a volume that stores a tree, and for a path without
  \<^verbatim>\<open>.\<close> and \<^verbatim>\<open>..\<close> that does not go on after a file, \<^verbatim>\<open>read_file_by_path\<close> returns the content of the file
  at that path, finds nothing where the tree has nothing, and refuses a directory with \<open>NotAFile\<close>; but the root, which
  no entry lists, is not refused: there it finds nothing.\<close>

theorem read_refines_tree:
  assumes "volume_tree m L" "starts_with slash path" "\<forall>c\<in>set (components path). \<not> special c"
    and "\<not> through_file (tree_of m L) (map normalize_name (components path))"
  shows "read_file_by_path (as_read m) path =
    (case lookup (tree_of m L) (map normalize_name (components path)) of
       None \<Rightarrow> Ok None
     | Some (File c) \<Rightarrow> Ok (Some c)
     | Some (Dir f) \<Rightarrow> if components path = [] then Ok None else Err NotAFile)"
  unfolding read_sub [OF assms] lookup_sub by (auto split: option.splits layout.splits)

theorem read_refines_tree_witness:
  "read_file_by_path (as_read test_volume) (bytes ''/hello.txt'') = Ok (Some (bytes ''HELLO''))"
  using read_refines_tree [OF volume_tree_test hello_path(1,3,4)] hello_path(2) test_names(5) by (simp add: tree_test)

text \<open>C3: listing a directory shows what the tree holds there; a path to nothing or to a file is an error.\<close>

theorem list_refines_tree:
  assumes "volume_tree m L" "starts_with slash path" "\<forall>c\<in>set (components path). \<not> special c"
    and "\<not> through_file (tree_of m L) (map normalize_name (components path))"
    and "components path = [] \<longrightarrow> path = [slash]"
  shows "case lookup (tree_of m L) (map normalize_name (components path)) of
      None \<Rightarrow> list_dir_path (as_read m) path = Err PathNotFound
    | Some (File c) \<Rightarrow> list_dir_path (as_read m) path = Err NotADirectory
    | Some (Dir f) \<Rightarrow> \<exists>es. list_dir_path (as_read m) path = Ok es \<and> shows_dir es f"
proof -
  have st: "stored m L" using assms(1) by (simp add: volume_tree_def)
  show ?thesis
  proof (cases "sub L (map normalize_name (components path))")
    case None
    then show ?thesis using list_sub [OF assms] by (simp add: lookup_sub)
  next
    case (Some K)
    show ?thesis
    proof (cases K)
      case (LFile en cs)
      then show ?thesis using list_sub [OF assms] Some by (simp add: lookup_sub)
    next
      case (LDir en cs ks)
      then show ?thesis using list_sub [OF assms] Some stored_shows sub_stored [OF st Some] by (auto simp: lookup_sub)
    qed
  qed
qed

theorem list_refines_tree_witness:
  "\<exists>es. list_dir_path (as_read test_volume) [slash] = Ok es
    \<and> shows_dir es [bytes ''HELLO.TXT'' \<mapsto> File (bytes ''HELLO''), bytes ''DIR'' \<mapsto> Dir Map.empty]"
  using list_refines_tree [OF volume_tree_test root_path(1,3)] root_path(2) by (simp add: tree_test)

text \<open>C1: writing a file is updating the tree. When a volume stores a tree and accepts the write,
  \<^verbatim>\<open>write_file_by_path\<close> succeeds and the volume it leaves stores, in an unshared layout again, the same tree
  with the content at that path: a new file, or the replaced one, and everything else as it was. The file
  has exactly the clusters its content needs, and those of the replaced one are given back; the
  clusters that are in use but belong to nothing are the same as before: a write loses no cluster.\<close>

theorem write_refines_tree:
  assumes "volume_tree m L" "accepts pf m L path content"
  shows "\<exists>m' L'. write_file_by_path pf path content m = (Ok (), m') \<and> volume_tree m' L'
    \<and> tree_of m' L' = update (tree_of m L) (map normalize_name (components path)) (File content)
    \<and> unowned m' L' = unowned m L \<and> new_file m L L' (map normalize_name (components path)) content"
  using accepted_write [OF assms] by (elim exE conjE) (intro exI conjI)

theorem write_refines_tree_witness:
  "\<exists>m' L'. write_file_by_path Debug (bytes ''/NEW.TXT'') (bytes ''NEW!'') test_volume = (Ok (), m')
    \<and> volume_tree m' L' \<and> tree_of m' L' = Dir [bytes ''HELLO.TXT'' \<mapsto> File (bytes ''HELLO''),
        bytes ''DIR'' \<mapsto> Dir Map.empty, bytes ''NEW.TXT'' \<mapsto> File (bytes ''NEW!'')]
    \<and> unowned m' L' = unowned test_volume test_layout
    \<and> new_file test_volume test_layout L' [bytes ''NEW.TXT''] (bytes ''NEW!'')"
  using write_refines_tree [OF volume_tree_test accepts_test] by (simp add: tree_test new_path(1))

text \<open>C4: reading after a write. When a volume stores a tree and accepts the write of a file, then afterwards its
  path reads as the content, and every other path reads as before: the other files, the directories, and
  what is not there.\<close>

theorem reads_after_write:
  assumes vol: "volume_tree m L" and acc: "accepts pf m L path content"
    and other: "starts_with slash q" "\<forall>c\<in>set (components q). \<not> special c"
      "\<not> through_file (tree_of m L) (map normalize_name (components q))"
      "\<not> (\<exists>r. r \<noteq> [] \<and> map normalize_name (components q) = map normalize_name (components path) @ r)"
  shows "\<exists>m'. write_file_by_path pf path content m = (Ok (), m')
    \<and> read_file_by_path (as_read m') q =
        (if map normalize_name (components q) = map normalize_name (components path) then Ok (Some content)
         else read_file_by_path (as_read m) q)"
proof -
  let ?p = "map normalize_name (components path)" and ?q = "map normalize_name (components q)"
  obtain m' L' where w: "write_file_by_path pf path content m = (Ok (), m')" "volume_tree m' L'"
    "tree_of m' L' = update (tree_of m L) ?p (File content)"
    using accepted_write [OF vol acc] by blast
  obtain p x f where p: "?p = p @ [x]" "lookup (tree_of m L) p = Some (Dir f)" by (rule accepts_parent [OF acc])
  have "\<not> through_file (tree_of m' L') ?q" unfolding w(3) by (rule through_update [OF other(4,3)])
  note reads = read_sub [OF w(2) other(1,2) this] read_sub [OF vol other(1-3)]
  have "read_file_by_path (as_read m') q = (if ?q = ?p then Ok (Some content) else read_file_by_path (as_read m) q)"
  proof (cases "?q = ?p")
    case True
    then have "lookup (tree_of m' L') ?q = Some (File content)" unfolding w(3) p(1) using lookup_update_same [OF p(2)] by simp
    then show ?thesis unfolding reads using True by (auto simp: lookup_sub split: option.splits layout.splits)
  next
    case False
    have "\<not> (\<exists>r. ?q = p @ x # r)" using other(4) False p(1) by auto
    from lookup_update_dir [OF p(2) this, of "File content"]
    have "case lookup (tree_of m L) ?q of Some (Dir g) \<Rightarrow> \<exists>h. lookup (tree_of m' L') ?q = Some (Dir h)
      | v \<Rightarrow> lookup (tree_of m' L') ?q = v"
      unfolding w(3) p(1) .
    then show ?thesis
      unfolding reads if_not_P [OF False] lookup_sub by (auto split: option.splits layout.splits)
  qed
  with w(1) show ?thesis by blast
qed

theorem reads_after_write_witness:
  "\<exists>m'. write_file_by_path Debug (bytes ''/NEW.TXT'') (bytes ''NEW!'') test_volume = (Ok (), m')
    \<and> read_file_by_path (as_read m') (bytes ''/hello.txt'') = read_file_by_path (as_read test_volume) (bytes ''/hello.txt'')"
  using reads_after_write [OF volume_tree_test accepts_test hello_path(1,3,4)] hello_path(2) new_path by simp

subsection \<open>Paths through files\<close>

text \<open>C17: a path may go on after a file. When a path opens a file, the path with one more name opens whatever entry
  of that name the content of the file spells, read as a directory: \<^verbatim>\<open>open_path\<close> does not check
  that what it goes through is a directory.\<close>

theorem open_through_file:
  assumes "open_path (as_read m) path = Ok (Some en)" "is_file en" "chain_at m (e_first_cluster en) cs"
    and "nm \<noteq> []" "slash \<notin> set nm"
  shows "open_path (as_read m) (path @ slash # nm)
    = Ok (find (\<lambda>e. normalize_name (e_name e) = normalize_name nm) (listing (dir_slots (as_read m) cs)))"
proof -
  have start: "starts_with slash path" using assms(1) by (auto simp: open_path_def split: if_splits)
  then have start': "starts_with slash (path @ slash # nm)" by (cases path) (simp_all add: starts_with_def)
  have loop: "open_loop (as_read m) (components path) (m_root_cluster m) None = Ok (Some en)"
    using assms(1) open_path_loop [OF start, of "as_read m"] by simp
  then have "components path \<noteq> []" by auto
  from open_loop_snoc [OF loop this, of nm] open_path_loop [OF start', of "as_read m"] list_dir_chain [OF assms(3)]
  show ?thesis
    by (simp add: components_append components_single assms(4,5) Let_def split: option.split)
qed

lemma open_through_file_witness:
  "\<exists>en. open_path (as_read test_volume) (bytes ''/hello.txt'' @ slash # (bytes ''HELLO'' @ [0, 0, 0, dot, 0, 0, 0])) = Ok (Some en)"
proof -
  define nm where "nm = bytes ''HELLO'' @ [0, 0, 0, dot, 0, 0, 0]"
  obtain en where en: "open_path (as_read test_volume) (bytes ''/hello.txt'') = Ok (Some en)" "is_file en" "e_first_cluster en = 3"
    using volume_open [OF volume_tree_test hello_path(1,3,4)] hello_path(2) test_names(1)
    by (auto simp: test_layout_def key_def is_file_def from_byte_def)
  have "slot_places test_volume [3] = map (\<lambda>i. (1536 + 32 * i, 2048)) [0..<16]"
    by (simp add: slot_places_def cluster_places_def cluster_at_def)
  then obtain ps where ps: "slot_places test_volume [3] = (1536, 2048) # ps" by (simp add: upt_rec)
  have "window build_test_image 1536 32 = bytes ''HELLO'' @ replicate 27 0"
    by (simp add: window_image image_eval patch_def image_bytes)
  moreover have "live (bytes ''HELLO'' @ replicate 27 0)" by code_simp
  moreover have "map_option e_name (parse (bytes ''HELLO'' @ replicate 27 0)) = Some nm" unfolding nm_def by code_simp
  ultimately obtain x xs where "listing (dir_slots (as_read test_volume) [3]) = x # xs" "e_name x = nm"
    using dir_slots_places [of "[3]" test_volume, OF chain_atD(5) [OF chain_at_test_volume(2)]] ps
    by (auto simp: listing_def slot_def List.map_filter_simps)
  moreover have "nm \<noteq> []" "slash \<notin> set nm" unfolding nm_def by code_simp+
  moreover have "chain_at test_volume (e_first_cluster en) [3]" using chain_at_test_volume(2) en(3) by simp
  ultimately show ?thesis
    using open_through_file [OF en(1,2), of "[3]" nm] unfolding nm_def [symmetric] by simp
qed

end
