(* ===== verification/Shell_Tree.thy ===== *)
theory Shell_Tree
  imports Cli_Facts Tree_Facts
begin

text \<open>
  The shell as a user sees it: a session on an image that stores a tree is a session on the tree. The
  current directory is always an absolute path without empty, \<^verbatim>\<open>.\<close> and \<^verbatim>\<open>..\<close> components.
\<close>

subsection \<open>The current directory\<close>

definition shell_path :: "rstr \<Rightarrow> bool" where
  "shell_path p \<longleftrightarrow> (\<exists>cs. normal cs \<and> p = slash # join [slash] cs)"

lemma shell_path_resolve [simp]: "shell_path (resolve_path cur p)"
  using target_normal by (auto simp: shell_path_def resolve_path_eq)

lemma shell_path_root [simp]: "shell_path [slash]"
  by (auto simp: shell_path_def normal_def intro: exI [of _ "[]"])

lemma shell_pathD:
  assumes "shell_path p"
  shows "starts_with slash p" "\<forall>c\<in>set (components p). \<not> special c" "components p = [] \<longrightarrow> p = [slash]"
proof -
  obtain cs where cs: "normal cs" "p = slash # join [slash] cs" using assms by (auto simp: shell_path_def)
  then have comps: "components p = cs" by (simp add: components_slash components_join)
  show "starts_with slash p" using cs(2) by (simp add: starts_with_def)
  show "\<forall>c\<in>set (components p). \<not> special c" using cs(1) by (simp add: comps normal_def special_def)
  show "components p = [] \<longrightarrow> p = [slash]" unfolding comps using cs(2) by simp
qed

text \<open>The programs after which the current directory satisfies \<open>P\<close> when it did before.\<close>

definition keeps_cwd :: "(rstr \<Rightarrow> bool) \<Rightarrow> ('h, 'a) cli_prog \<Rightarrow> bool" where
  "keeps_cwd P p \<longleftrightarrow> (\<forall>s. P (cwd s) \<longrightarrow> P (cwd (snd (p s))))"

lemma keeps_cwd_simps [simp]: "keeps_cwd P (say m)" "keeps_cwd P (say_all ms)" "keeps_cwd P (Pair r)"
  "keeps_cwd P (sret x)" "keeps_cwd P (\<lambda>s. say (f s) s)"
  by (simp_all add: keeps_cwd_def say_def say_all_def)

lemma keeps_cwd_sbind: "keeps_cwd P p \<Longrightarrow> (\<And>x. keeps_cwd P (f x)) \<Longrightarrow> keeps_cwd P (sbind p f)"
  unfolding keeps_cwd_def sbind_def by (auto split: prod.splits res.splits; metis snd_conv)

lemma keeps_cwd_read [simp]: "keeps_cwd P (run_ls ro p)" "keeps_cwd P (run_cat ro p)"
  by (simp_all add: run_ls_def run_cat_def split: res.split option.split)

lemma keeps_cwd_volume [simp]: "(\<And>ro. keeps_cwd P (f ro)) \<Longrightarrow> keeps_cwd P (with_volume f)"
  by (simp add: keeps_cwd_def with_volume_def say_def split: res.split)

lemma keeps_cwd_put [simp]: "keeps_cwd P (put_file os pf img p src)"
  by (auto simp: keeps_cwd_def put_file_def put_content_def store_image_def say_def
      split: option.split res.split prod.split bool.split)

text \<open>\<^verbatim>\<open>cd\<close> goes to a resolved path, and never to the root.\<close>

lemma keeps_cwd_cd: "P p \<or> p = [slash] \<Longrightarrow> keeps_cwd P (run_cd ro p)"
  by (auto simp: keeps_cwd_def run_cd_def say_def open_root split: res.split option.split)

lemma keeps_cwd_command:
  fixes os :: "'h os"
  assumes "\<And>cur p. resolve_path cur p = [slash] \<or> P (resolve_path cur p)"
  shows "keeps_cwd P (shell_command os pf img cmd parts)"
proof -
  have "keeps_cwd P (run_cd ro (resolve_path cur p) :: ('h, unit) cli_prog)"
    "keeps_cwd P (run_cd ro [slash] :: ('h, unit) cli_prog)" for ro cur p
    using assms [of cur p] by (auto intro!: keeps_cwd_cd)
  then have "keeps_cwd P (shell_action os pf img cur cmd parts)" for cur
    unfolding shell_action_def by (simp add: keeps_cwd_volume split: list.split)
  then have "keeps_cwd P (sbind (shell_action os pf img cur cmd parts) (\<lambda>_. sret True))" for cur
    by (intro keeps_cwd_sbind) simp_all
  then show ?thesis by (simp add: shell_command_def keeps_cwd_def)
qed

lemma keeps_cwd_loop:
  assumes "\<And>cur p. resolve_path cur p = [slash] \<or> P (resolve_path cur p)"
  shows "keeps_cwd P (shell_loop os pf img ts)"
proof (induction ts)
  case (Cons t ts)
  then show ?case
    by (auto intro!: keeps_cwd_sbind keeps_cwd_command [OF assms] split: turn.split list.split if_split)
qed simp

text \<open>C36: the current directory. In every session, whatever the input, the image and the host, it stays an
  absolute path whose components are not empty, \<^verbatim>\<open>.\<close> or \<^verbatim>\<open>..\<close>; and once it is not the root it never is
  again, since \<^verbatim>\<open>cd\<close> to the root fails.\<close>

theorem shell_directory_invariant:
  assumes "shell_path (cwd s)"
  shows "shell_path (cwd (snd (shell_loop os pf img ts s)))
    \<and> (cwd s \<noteq> [slash] \<longrightarrow> cwd (snd (shell_loop os pf img ts s)) \<noteq> [slash])"
  using keeps_cwd_loop [of shell_path os pf img ts] keeps_cwd_loop [of "\<lambda>p. p \<noteq> [slash]" os pf img ts] assms
  by (simp add: keeps_cwd_def)

lemma shell_directory_invariant_witness:
  "shell_path (cwd in_dir) \<and> cwd (snd (shell_loop (host_with []) Debug (bytes ''disk.img'')
     [Line (bytes ''cd ..''), Line (bytes ''cd'')] in_dir)) \<noteq> [slash]"
proof -
  have dir: "cwd in_dir = slash # join [slash] [bytes ''DIR'']" "normal [bytes ''DIR'']" "cwd in_dir \<noteq> [slash]"
    unfolding in_dir_def cli.simps by code_simp+
  then have "shell_path (cwd in_dir)" unfolding shell_path_def by blast
  with shell_directory_invariant [OF this] dir(3) show ?thesis by blast
qed

subsection \<open>A shell on a tree\<close>

definition node_at :: "node \<Rightarrow> rstr \<Rightarrow> node option" where
  "node_at t path = lookup t (map normalize_name (components path))"

definition blind :: "node \<Rightarrow> rstr \<Rightarrow> bool" where
  "blind t path \<longleftrightarrow> through_file t (map normalize_name (components path))"

text \<open>What \<^verbatim>\<open>cat\<close>, \<^verbatim>\<open>ls\<close> and \<^verbatim>\<open>cd\<close> say of a node; the order of a listing is left open. \<^verbatim>\<open>cd\<close> gives the new
  directory, too.\<close>

fun cat_says :: "rstr \<Rightarrow> node option \<Rightarrow> message" where
  "cat_says path None = File_not_found path"
| "cat_says path (Some (File c)) = Content c"
| "cat_says path (Some (Dir f)) =
     (if components path = [] then File_not_found path else Cat_failed path NotAFile)"

definition entry_line :: "dir_entry \<Rightarrow> message" where
  "entry_line e = Entry (is_dir e) (e_name e) (e_size e)"

fun ls_says :: "rstr \<Rightarrow> node option \<Rightarrow> message list \<Rightarrow> bool" where
  "ls_says path None ms \<longleftrightarrow> ms = [Ls_failed path PathNotFound]"
| "ls_says path (Some (File c)) ms \<longleftrightarrow> ms = [Ls_failed path NotADirectory]"
| "ls_says path (Some (Dir f)) ms \<longleftrightarrow> (\<exists>es. shows_dir es f \<and> ms = Listing path # map entry_line es)"

fun cd_says :: "rstr \<Rightarrow> rstr \<Rightarrow> node option \<Rightarrow> message list \<times> rstr" where
  "cd_says cur path None = ([Directory_not_found path], cur)"
| "cd_says cur path (Some (File c)) = ([Not_a_directory path], cur)"
| "cd_says cur path (Some (Dir f)) =
     (if components path = [] then ([Directory_not_found path], cur) else ([], path))"

text \<open>
  A step of the shell on a tree: the command and its words, the messages, the directory after. Nothing is
  promised about a path that goes on after a file (see \<open>open_through_file\<close>), but that the tree is not changed.
\<close>

inductive tree_step :: "node \<Rightarrow> rstr \<Rightarrow> rstr \<Rightarrow> rstr list \<Rightarrow> message list \<Rightarrow> rstr \<Rightarrow> bool"
  for t :: node and cur :: rstr where
  help_step: "tree_step t cur (bytes ''help'') ps [Shell_help] cur"
| pwd_step: "tree_step t cur (bytes ''pwd'') ps [Directory cur] cur"
| ls: "\<not> blind t cur \<Longrightarrow> ls_says cur (node_at t cur) ms \<Longrightarrow> tree_step t cur (bytes ''ls'') [] ms cur"
| ls_path: "\<not> blind t (resolve_path cur p) \<Longrightarrow> ls_says (resolve_path cur p) (node_at t (resolve_path cur p)) ms \<Longrightarrow>
    tree_step t cur (bytes ''ls'') (p # ps) ms cur"
| cat: "\<not> blind t (resolve_path cur p) \<Longrightarrow> msg = cat_says (resolve_path cur p) (node_at t (resolve_path cur p)) \<Longrightarrow>
    tree_step t cur (bytes ''cat'') (p # ps) [msg] cur"
| cat_usage: "tree_step t cur (bytes ''cat'') [] [Cat_usage] cur"
| cd: "\<not> blind t (resolve_path cur p) \<Longrightarrow>
    (ms, cur') = cd_says cur (resolve_path cur p) (node_at t (resolve_path cur p)) \<Longrightarrow>
    tree_step t cur (bytes ''cd'') (p # ps) ms cur'"
| cd_root: "tree_step t cur (bytes ''cd'') [] [Directory_not_found [slash]] cur"
| ls_blind: "blind t (case ps of [] \<Rightarrow> cur | p # _ \<Rightarrow> resolve_path cur p) \<Longrightarrow> tree_step t cur (bytes ''ls'') ps ms cur"
| cat_blind: "blind t (resolve_path cur p) \<Longrightarrow> tree_step t cur (bytes ''cat'') (p # ps) [msg] cur"
| cd_blind: "blind t (resolve_path cur p) \<Longrightarrow> cur' = cur \<or> cur' = resolve_path cur p \<Longrightarrow>
    tree_step t cur (bytes ''cd'') (p # ps) ms cur'"
| unknown: "cmd \<notin> set (map bytes [''help'', ''pwd'', ''ls'', ''cat'', ''cd'', ''put'']) \<Longrightarrow>
    tree_step t cur cmd ps [Unknown_command cmd] cur"

text \<open>A session without \<^verbatim>\<open>put\<close>: the turns, and what is printed.\<close>

inductive tree_session :: "node \<Rightarrow> rstr \<Rightarrow> turn list \<Rightarrow> message list \<Rightarrow> bool" for t :: node where
  waiting: "tree_session t cur [] [Prompt cur]"
| ended: "t0 \<in> {Flush_error, Read_error, End_of_input} \<Longrightarrow> tree_session t cur (t0 # ts) [Prompt cur]"
| blank: "split_whitespace line = [] \<Longrightarrow> tree_session t cur ts ms \<Longrightarrow>
    tree_session t cur (Line line # ts) (Prompt cur # ms)"
| left: "split_whitespace line = cmd # ps \<Longrightarrow> cmd \<in> {bytes ''exit'', bytes ''quit''} \<Longrightarrow>
    tree_session t cur (Line line # ts) [Prompt cur]"
| step: "split_whitespace line = cmd # ps \<Longrightarrow> cmd \<notin> {bytes ''exit'', bytes ''quit''} \<Longrightarrow>
    tree_step t cur cmd ps ms cur' \<Longrightarrow> tree_session t cur' ts ms' \<Longrightarrow>
    tree_session t cur (Line line # ts) (Prompt cur # ms @ ms')"

subsection \<open>The session refines it\<close>

text \<open>The image holds a tree, and its boot sector lies before its tables.\<close>

definition image_tree :: "u8 list \<Rightarrow> fat32_mut \<Rightarrow> layout \<Rightarrow> bool" where
  "image_tree d m L \<longleftrightarrow> fat32_mut_new d = Ok m \<and> 512 \<le> m_fat_start_byte m \<and> volume_tree m L"

lemma cat_tree:
  assumes "volume_tree m L" "shell_path path" "\<not> blind (tree_of m L) path"
  shows "run_cat (as_read m) path s = (Ok (), s\<lparr>out := out s @ [cat_says path (node_at (tree_of m L) path)]\<rparr>)"
  using read_sub [OF assms(1) shell_pathD(1,2) [OF assms(2)]] assms(3)
  by (auto simp: run_cat_def say_def blind_def node_at_def lookup_sub split: option.splits layout.splits)

lemma entry_lines: "map (\<lambda>e. Entry (is_dir e) (e_name e) (e_size e)) es = map entry_line es"
  by (simp add: entry_line_def)

lemma ls_tree:
  assumes "volume_tree m L" "shell_path path" "\<not> blind (tree_of m L) path"
  shows "\<exists>ms. run_ls (as_read m) path s = (Ok (), s\<lparr>out := out s @ ms\<rparr>) \<and> ls_says path (node_at (tree_of m L) path) ms"
proof -
  have st: "stored m L" using assms(1) by (simp add: volume_tree_def)
  let ?K = "sub L (map normalize_name (components path))"
  note list = list_sub [OF assms(1) shell_pathD(1,2) [OF assms(2)] assms(3) [unfolded blind_def] shell_pathD(3) [OF assms(2)]]
  consider (none) "?K = None" | (leaf) en cs where "?K = Some (LFile en cs)"
    | (dir) en cs ks where "?K = Some (LDir en cs ks)" by (metis layout.exhaust option.exhaust)
  then show ?thesis
  proof cases
    case dir
    with list sub_stored [OF st dir] stored_shows [of m en cs ks] show ?thesis
      by (auto simp: run_ls_def say_all_def node_at_def lookup_sub entry_lines)
  qed (use list in \<open>simp_all add: run_ls_def say_def node_at_def lookup_sub\<close>)
qed

lemma cd_tree:
  assumes "volume_tree m L" "shell_path path" "\<not> blind (tree_of m L) path"
    and "(ms, cur') = cd_says (cwd s) path (node_at (tree_of m L) path)"
  shows "run_cd (as_read m) path s = (Ok (), s\<lparr>out := out s @ ms, cwd := cur'\<rparr>)"
proof -
  have st: "stored m L" using assms(1) by (simp add: volume_tree_def)
  let ?K = "sub L (map normalize_name (components path))"
  note opened = volume_open [OF assms(1) shell_pathD(1,2) [OF assms(2)] assms(3) [unfolded blind_def]]
  consider (none) "?K = None" | (leaf) en cs where "?K = Some (LFile en cs)"
    | (dir) en cs ks where "?K = Some (LDir en cs ks)" by (metis layout.exhaust option.exhaust)
  then show ?thesis
  proof cases
    case none
    with opened assms(4) show ?thesis by (simp add: run_cd_def say_def node_at_def lookup_sub)
  next
    case leaf
    then have "\<not> is_dir en" using sub_stored [OF st leaf] by (simp add: old_chain_def is_file_not_dir)
    moreover have "components path \<noteq> []" using leaf assms(1) by (auto simp: volume_tree_def)
    ultimately show ?thesis using opened assms(4) leaf by (simp add: run_cd_def say_def node_at_def lookup_sub)
  next
    case dir
    then have "is_dir en" using sub_stored [OF st dir] by simp
    then show ?thesis using opened assms(4) dir
      by (cases "components path = []") (simp_all add: run_cd_def say_def node_at_def lookup_sub)
  qed
qed

text \<open>Where nothing is promised, something is still printed.\<close>

lemma run_blind:
  "\<exists>msg. run_cat ro path s = (Ok (), s\<lparr>out := out s @ [msg]\<rparr>)"
  "\<exists>ms. run_ls ro path s = (Ok (), s\<lparr>out := out s @ ms\<rparr>)"
  "\<exists>ms cur'. (cur' = cwd s \<or> cur' = path) \<and> run_cd ro path s = (Ok (), s\<lparr>out := out s @ ms, cwd := cur'\<rparr>)"
proof -
  show "\<exists>msg. run_cat ro path s = (Ok (), s\<lparr>out := out s @ [msg]\<rparr>)"
    by (cases "read_file_by_path ro path") (auto simp: run_cat_def say_def split: option.split)
  show "\<exists>ms. run_ls ro path s = (Ok (), s\<lparr>out := out s @ ms\<rparr>)"
    by (cases "list_dir_path ro path") (auto simp: run_ls_def say_def say_all_def)
  show "\<exists>ms cur'. (cur' = cwd s \<or> cur' = path) \<and> run_cd ro path s = (Ok (), s\<lparr>out := out s @ ms, cwd := cur'\<rparr>)"
  proof -
    have said: "\<exists>ms cur'. (cur' = cwd s \<or> cur' = path) \<and> say msg s = (Ok (), s\<lparr>out := out s @ ms, cwd := cur'\<rparr>)" for msg
      by (intro exI [of _ "[msg]"] exI [of _ "cwd s"]) (simp add: say_def)
    have gone: "\<exists>ms cur'. (cur' = cwd s \<or> cur' = path) \<and> s\<lparr>cwd := path\<rparr> = s\<lparr>out := out s @ ms, cwd := cur'\<rparr>"
      by (intro exI [of _ "[]"] exI [of _ path]) simp
    show ?thesis
    proof (cases "open_path ro path")
      case (Ok r)
      then show ?thesis using said gone by (cases r) (simp_all add: run_cd_def)
    qed (use said in \<open>simp_all add: run_cd_def\<close>)
  qed
qed

text \<open>One command.\<close>

lemma command_words:
  "cmd \<notin> set (map bytes [''help'', ''pwd'', ''ls'', ''cat'', ''cd'', ''put'']) \<longleftrightarrow>
     cmd \<noteq> bytes ''help'' \<and> cmd \<noteq> bytes ''pwd'' \<and> cmd \<noteq> bytes ''ls'' \<and> cmd \<noteq> bytes ''cat''
     \<and> cmd \<noteq> bytes ''cd'' \<and> cmd \<noteq> bytes ''put''"
  by simp

lemma words_differ:
  "distinct (map bytes [''help'', ''pwd'', ''ls'', ''cat'', ''cd'', ''put'', ''exit'', ''quit''])"
  "distinct (map bytes [''quit'', ''exit'', ''put'', ''cd'', ''cat'', ''ls'', ''pwd'', ''help''])"
  by code_simp+

lemma shell_action_tree:
  assumes img: "fat32_mut_new (data s) = Ok m" "volume_tree m L" and cur: "shell_path (cwd s)"
    and cmd: "cmd \<noteq> bytes ''put''"
  shows "\<exists>ms cur'. shell_action os pf img (cwd s) cmd parts s = (Ok (), s\<lparr>out := out s @ ms, cwd := cur'\<rparr>)
    \<and> tree_step (tree_of m L) (cwd s) cmd parts ms cur'"
proof -
  let ?t = "tree_of m L"
  have vol: "with_volume f s = f (as_read m) s" for f :: "fat32 \<Rightarrow> ('a, unit) cli_prog"
    using fat32_mut_new_as_read [of "data s"] img(1) by (simp add: with_volume_def)
  note diff = words_differ [simplified]
  have stay: "s\<lparr>out := out s @ ms, cwd := cwd s\<rparr> = s\<lparr>out := out s @ ms\<rparr>" for ms by simp
  consider "cmd = bytes ''help''" | "cmd = bytes ''pwd''" | "cmd = bytes ''ls''" | "cmd = bytes ''cat''"
    | "cmd = bytes ''cd''" | "cmd \<notin> set (map bytes [''help'', ''pwd'', ''ls'', ''cat'', ''cd'', ''put''])"
    using cmd unfolding command_words by blast
  then show ?thesis
  proof cases
    case 1
    then have "shell_action os pf img (cwd s) cmd parts s = (Ok (), s\<lparr>out := out s @ [Shell_help], cwd := cwd s\<rparr>)"
      by (simp add: shell_action_def say_def)
    then show ?thesis unfolding 1 using help_step by blast
  next
    case 2
    then have "shell_action os pf img (cwd s) cmd parts s = (Ok (), s\<lparr>out := out s @ [Directory (cwd s)], cwd := cwd s\<rparr>)"
      using diff by (simp add: shell_action_def say_def)
    then show ?thesis unfolding 2 using pwd_step by blast
  next
    case 3
    let ?p = "case parts of p # _ \<Rightarrow> resolve_path (cwd s) p | [] \<Rightarrow> cwd s"
    have path: "shell_path ?p" using cur by (simp split: list.split)
    have act: "shell_action os pf img (cwd s) (bytes ''ls'') parts s = run_ls (as_read m) ?p s"
      using diff by (simp add: shell_action_def vol)
    show ?thesis
    proof (cases "blind ?t ?p")
      case True
      obtain ms where "run_ls (as_read m) ?p s = (Ok (), s\<lparr>out := out s @ ms, cwd := cwd s\<rparr>)"
        using run_blind(2) [of "as_read m" ?p s] by auto
      then show ?thesis unfolding act 3 using ls_blind [OF True] by blast
    next
      case False
      obtain ms where ms: "run_ls (as_read m) ?p s = (Ok (), s\<lparr>out := out s @ ms, cwd := cwd s\<rparr>)"
        "ls_says ?p (node_at ?t ?p) ms"
        using ls_tree [OF img(2) path False, of s] by auto
      have "tree_step ?t (cwd s) (bytes ''ls'') parts ms (cwd s)"
        using False ms(2) by (cases parts) (auto intro: ls ls_path)
      then show ?thesis unfolding act 3 using ms(1) by blast
    qed
  next
    case 4
    show ?thesis
    proof (cases parts)
      case Nil
      then have "shell_action os pf img (cwd s) cmd parts s = (Ok (), s\<lparr>out := out s @ [Cat_usage], cwd := cwd s\<rparr>)"
        using 4 diff by (simp add: shell_action_def vol say_def)
      then show ?thesis unfolding 4 Nil using cat_usage by blast
    next
      case (Cons p ps)
      let ?p = "resolve_path (cwd s) p"
      have act: "shell_action os pf img (cwd s) (bytes ''cat'') (p # ps) s = run_cat (as_read m) ?p s"
        using diff by (simp add: shell_action_def vol)
      show ?thesis
      proof (cases "blind ?t ?p")
        case True
        obtain msg where "run_cat (as_read m) ?p s = (Ok (), s\<lparr>out := out s @ [msg], cwd := cwd s\<rparr>)"
          using run_blind(1) [of "as_read m" ?p s] by auto
        then show ?thesis unfolding act 4 Cons using cat_blind [OF True] by blast
      next
        case False
        from cat_tree [OF img(2) shell_path_resolve this, of s]
        have "run_cat (as_read m) ?p s = (Ok (), s\<lparr>out := out s @ [cat_says ?p (node_at ?t ?p)], cwd := cwd s\<rparr>)" by simp
        then show ?thesis unfolding act 4 Cons using cat [OF False refl] by blast
      qed
    qed
  next
    case 5
    show ?thesis
    proof (cases parts)
      case Nil
      then have "shell_action os pf img (cwd s) cmd parts s
          = (Ok (), s\<lparr>out := out s @ [Directory_not_found [slash]], cwd := cwd s\<rparr>)"
        using 5 diff by (simp add: shell_action_def vol run_cd_def open_root say_def)
      then show ?thesis unfolding 5 Nil using cd_root by blast
    next
      case (Cons p ps)
      let ?p = "resolve_path (cwd s) p"
      have act: "shell_action os pf img (cwd s) (bytes ''cd'') (p # ps) s = run_cd (as_read m) ?p s"
        using diff by (simp add: shell_action_def vol)
      show ?thesis
      proof (cases "blind ?t ?p")
        case True
        obtain ms cur' where "cur' = cwd s \<or> cur' = ?p" "run_cd (as_read m) ?p s = (Ok (), s\<lparr>out := out s @ ms, cwd := cur'\<rparr>)"
          using run_blind(3) by blast
        then show ?thesis unfolding act 5 Cons using cd_blind [OF True] by blast
      next
        case False
        obtain ms cur' where says: "(ms, cur') = cd_says (cwd s) ?p (node_at ?t ?p)" by (metis prod.exhaust)
        from cd_tree [OF img(2) shell_path_resolve False this]
        show ?thesis unfolding act 5 Cons using cd [OF False says] by blast
      qed
    qed
  next
    case 6
    then have "shell_action os pf img (cwd s) cmd parts s = (Ok (), s\<lparr>out := out s @ [Unknown_command cmd], cwd := cwd s\<rparr>)"
      unfolding command_words by (simp add: shell_action_def say_def)
    then show ?thesis using unknown [OF 6] by blast
  qed
qed

lemma shell_command_tree:
  assumes "fat32_mut_new (data s) = Ok m" "volume_tree m L" "shell_path (cwd s)"
    and "cmd \<noteq> bytes ''put''" "cmd \<notin> {bytes ''exit'', bytes ''quit''}"
  shows "\<exists>ms cur'. shell_command os pf img cmd parts s = (Ok True, s\<lparr>out := out s @ ms, cwd := cur'\<rparr>)
    \<and> tree_step (tree_of m L) (cwd s) cmd parts ms cur' \<and> shell_path cur'"
proof -
  obtain ms cur' where run: "shell_action os pf img (cwd s) cmd parts s = (Ok (), s\<lparr>out := out s @ ms, cwd := cur'\<rparr>)"
    "tree_step (tree_of m L) (cwd s) cmd parts ms cur'"
    using shell_action_tree [OF assms(1-4)] by blast
  have command: "shell_command os pf img cmd parts s = (Ok True, s\<lparr>out := out s @ ms, cwd := cur'\<rparr>)"
    using assms(5) run(1) by (simp add: shell_command_def)
  have "keeps_cwd shell_path (shell_command os pf img cmd parts)" by (rule keeps_cwd_command) simp
  then have "shell_path cur'" using assms(3) command by (auto simp: keeps_cwd_def)
  with run(2) command show ?thesis by blast
qed

lemma shell_loop_tree:
  assumes "fat32_mut_new (data s) = Ok m" "volume_tree m L" "shell_path (cwd s)" "\<forall>t\<in>set ts. \<not> is_put t"
  shows "\<exists>ms s'. shell_loop os pf img ts s = (Ok (), s') \<and> out s' = out s @ ms
    \<and> data s' = data s \<and> host s' = host s \<and> tree_session (tree_of m L) (cwd s) ts ms"
  using assms
proof (induction ts arbitrary: s)
  case Nil
  then show ?case by (auto simp: say_def intro: waiting)
next
  case (Cons t ts)
  let ?s = "s\<lparr>out := out s @ [Prompt (cwd s)]\<rparr>"
  show ?case
  proof (cases "\<exists>line. t = Line line")
    case False
    then have "t \<in> {Flush_error, Read_error, End_of_input}" by (cases t) auto
    moreover from this have "shell_loop os pf img (t # ts) s = (Ok (), ?s)" by (auto simp: say_def)
    ultimately show ?thesis by (auto intro!: exI [of _ "[Prompt (cwd s)]"] ended)
  next
    case True
    then obtain line where t: "t = Line line" ..
    show ?thesis
    proof (cases "split_whitespace line")
      case Nil
      from Cons.IH [of ?s] Cons.prems obtain ms s' where "shell_loop os pf img ts ?s = (Ok (), s')"
        "out s' = out s @ Prompt (cwd s) # ms" "data s' = data s" "host s' = host s"
        "tree_session (tree_of m L) (cwd s) ts ms" by auto
      with t Nil show ?thesis by (auto simp: say_def intro!: exI [of _ "Prompt (cwd s) # ms"] blank)
    next
      case (Cons cmd ps)
      show ?thesis
      proof (cases "cmd \<in> {bytes ''exit'', bytes ''quit''}")
        case True
        then have "shell_loop os pf img (t # ts) s = (Ok (), ?s)"
          using t Cons by (auto simp: say_def shell_command_def sbind_def)
        with t left [OF Cons True] show ?thesis by (auto intro!: exI [of _ "[Prompt (cwd s)]"])
      next
        case False
        have "cmd \<noteq> bytes ''put''" using Cons.prems(4) t Cons by simp
        with shell_command_tree [of ?s m L cmd] Cons.prems(1-3) False obtain ms cur' where
          run: "shell_command os pf img cmd ps ?s = (Ok True, ?s\<lparr>out := out ?s @ ms, cwd := cur'\<rparr>)"
            "tree_step (tree_of m L) (cwd s) cmd ps ms cur'" "shell_path cur'" by auto blast
        let ?u = "?s\<lparr>out := out ?s @ ms, cwd := cur'\<rparr>"
        from Cons.IH [of ?u] Cons.prems run(3) obtain ms' s' where rest: "shell_loop os pf img ts ?u = (Ok (), s')"
          "out s' = out ?u @ ms'" "data s' = data s" "host s' = host s"
          "tree_session (tree_of m L) cur' ts ms'" by auto
        have "shell_loop os pf img (t # ts) s = (Ok (), s')" using t Cons run(1) rest(1) by (simp add: say_def)
        with rest(2-4) t step [OF Cons False run(2) rest(5)] show ?thesis
          by (intro exI [of _ "Prompt (cwd s) # ms @ ms'"] exI [of _ s']) simp
      qed
    qed
  qed
qed

text \<open>A session is a session on the tree. On an image that stores a tree, every session without \<^verbatim>\<open>put\<close>
  runs to its end and prints what a shell on the tree prints: \<^verbatim>\<open>cat\<close> the content of the file, \<^verbatim>\<open>ls\<close> the
  directory, \<^verbatim>\<open>cd\<close> goes to directories only; the image and the host stay as they are.\<close>

theorem shell_session_refines_tree:
  assumes "image_tree (data s) m L" "\<forall>t\<in>set ts. \<not> is_put t"
  shows "\<exists>ms s'. run_shell os pf img ts s = (Ok (), s') \<and> out s' = out s @ Banner # ms
    \<and> data s' = data s \<and> host s' = host s \<and> tree_session (tree_of m L) [slash] ts ms"
proof -
  let ?s = "s\<lparr>cwd := [slash], out := out s @ [Banner]\<rparr>"
  have "fat32_mut_new (data ?s) = Ok m" "volume_tree m L" using assms(1) by (simp_all add: image_tree_def)
  from shell_loop_tree [OF this _ assms(2), of os pf img]
  obtain ms s' where "shell_loop os pf img ts ?s = (Ok (), s')" "out s' = out ?s @ ms"
    "data s' = data s" "host s' = host s" "tree_session (tree_of m L) [slash] ts ms" by auto
  then show ?thesis by (intro exI [of _ ms] exI [of _ s']) (simp add: run_shell_def say_def)
qed

lemma image_tree_test: "image_tree build_test_image test_volume test_layout"
  using mount_test_image volume_tree_test by (simp add: image_tree_def)

lemma shell_session_refines_tree_witness:
  "\<exists>ms s'. run_shell (host_with []) Debug (bytes ''disk.img'') [Line (bytes ''cat hello.txt''), End_of_input] at_root = (Ok (), s')
    \<and> out s' = Banner # ms
    \<and> tree_session (Dir [bytes ''HELLO.TXT'' \<mapsto> File (bytes ''HELLO''), bytes ''DIR'' \<mapsto> Dir Map.empty]) [slash]
        [Line (bytes ''cat hello.txt''), End_of_input] ms"
proof -
  have "\<forall>t\<in>set [Line (bytes ''cat hello.txt''), End_of_input]. \<not> is_put t" by code_simp
  moreover have "image_tree (data at_root) test_volume test_layout" using image_tree_test by (simp add: at_root_def)
  ultimately show ?thesis
    using shell_session_refines_tree [of at_root test_volume test_layout _ "host_with []" Debug "bytes ''disk.img''"]
    by (fastforce simp: tree_test at_root_def)
qed

text \<open>\<^verbatim>\<open>put\<close> updates the tree. On an image that stores a tree and accepts the write, \<^verbatim>\<open>put\<close> of a host file that
  can be read reports success; the image in memory, which is exactly what the host is given to write,
  then stores the tree with the file in it.\<close>

theorem put_updates_tree:
  assumes "image_tree (data s) m L" "accepts pf m L (resolve_path (cwd s) p) content"
    and "os_read os src (host s) = Some content" "\<forall>bs. fst (os_write os img bs (host s))"
  shows "\<exists>s' m' L'. shell_command os pf img (bytes ''put'') [p, src] s = (Ok True, s')
    \<and> out s' = out s @ [Put_done src (resolve_path (cwd s) p)]
    \<and> os_write os img (data s') (host s) = (True, host s')
    \<and> image_tree (data s') m' L'
    \<and> tree_of m' L' = update (tree_of m L) (map normalize_name (target_components (cwd s) p)) (File content)"
proof -
  have img: "fat32_mut_new (data s) = Ok m" "512 \<le> m_fat_start_byte m" "volume_tree m L"
    using assms(1) by (simp_all add: image_tree_def)
  have disk: "m_disk m = data s" using fat32_mut_new_mounted [OF img(1)] by simp
  obtain m' L' where w: "write_file_by_path pf (resolve_path (cwd s) p) content m = (Ok (), m')" "volume_tree m' L'"
    "tree_of m' L' = update (tree_of m L) (map normalize_name (target_components (cwd s) p)) (File content)"
    using accepted_write [OF img(3) assms(2)] by (auto simp: components_resolve)
  note boot = write_file_boot [OF w(1)]
  have new: "fat32_mut_new (m_disk m') = Ok m'" using boot_same_mount(1) [OF _ boot img(2)] img(1) disk by simp
  have "same_shape m m'" using boot by (simp add: boot_same_def)
  then have "image_tree (m_disk m') m' L'" using new w(2) img(2) by (simp add: image_tree_def same_shapeD)
  moreover obtain h where h: "os_write os img (m_disk m') (host s) = (True, h)"
    using assms(4) by (metis prod.collapse)
  let ?s = "s\<lparr>data := m_disk m', host := h, out := out s @ [Put_done src (resolve_path (cwd s) p)]\<rparr>"
  have "shell_command os pf img (bytes ''put'') [p, src] s = (Ok True, ?s)"
    using put_words img(1) assms(3) w(1) h
    by (simp add: shell_command_def shell_action_def put_file_def put_content_def store_image_def say_def)
  ultimately show ?thesis using h w(3) by (intro exI [of _ ?s] exI [of _ m'] exI [of _ L']) simp
qed

lemma put_updates_tree_witness:
  "\<exists>s' m' L'. shell_command (host_with (bytes ''NEW!'')) Debug (bytes ''disk.img'') (bytes ''put'')
        [bytes ''NEW.TXT'', bytes ''new''] at_root = (Ok True, s') \<and> image_tree (data s') m' L'
    \<and> tree_of m' L' = Dir [bytes ''HELLO.TXT'' \<mapsto> File (bytes ''HELLO''),
        bytes ''DIR'' \<mapsto> Dir Map.empty, bytes ''NEW.TXT'' \<mapsto> File (bytes ''NEW!'')]"
proof -
  have r: "resolve_path [slash] (bytes ''NEW.TXT'') = bytes ''/NEW.TXT''"
    "map normalize_name (target_components [slash] (bytes ''NEW.TXT'')) = [bytes ''NEW.TXT'']" by code_simp+
  have s: "image_tree (data at_root) test_volume test_layout"
    "accepts Debug test_volume test_layout (resolve_path (cwd at_root) (bytes ''NEW.TXT'')) (bytes ''NEW!'')"
    "os_read (host_with (bytes ''NEW!'')) (bytes ''new'') (host at_root) = Some (bytes ''NEW!'')"
    "\<forall>bs. fst (os_write (host_with (bytes ''NEW!'')) (bytes ''disk.img'') bs (host at_root))"
    using image_tree_test accepts_test r(1) by (simp_all add: at_root_def host_with_def)
  have "cwd at_root = [slash]" by (simp add: at_root_def)
  with put_updates_tree [OF s] r(2) show ?thesis by (simp add: tree_test) blast
qed

end
