(* ===== verification/Write_Outcome.thy ===== *)
theory Write_Outcome
  imports Tree_Facts
begin

text \<open>
  Every outcome of a write on a volume that stores a tree: which requests are refused and with which error,
  when the volume is full and what is left of it then, and when the write goes through.
\<close>

subsection \<open>What a request asks for\<close>

text \<open>
  A proper path has no \<^verbatim>\<open>.\<close> or \<^verbatim>\<open>..\<close> in it, and its last name, when it has the form of an 8.3 name, is shown as
  it is written. The parent of a single name after three slashes or more is not written \<^verbatim>\<open>/\<close>, and no
  directory is found there.
\<close>

definition proper :: "rstr \<Rightarrow> bool" where
  "proper path \<longleftrightarrow> (\<forall>c\<in>set (components path). \<not> special c)
     \<and> (components path \<noteq> [] \<and> valid_8_3 (last (components path)) \<longrightarrow> plain_name (last (components path)))"

definition odd_root :: "rstr \<Rightarrow> bool" where
  "odd_root path \<longleftrightarrow> length (components path) = 1 \<and> take 3 path = [slash, slash, slash]"

definition parent_names :: "rstr \<Rightarrow> rstr list" where
  "parent_names path = map normalize_name (butlast (components path))"

text \<open>The requests that are refused for what they ask, by the tree.\<close>

definition refusal :: "node \<Rightarrow> rstr \<Rightarrow> fat_error option" where
  "refusal t path =
     (if \<not> starts_with slash path \<or> components path = [] then Some Other
      else if \<not> valid_8_3 (last (components path)) then Some InvalidName
      else if odd_root path then Some PathNotFound
      else case lookup t (parent_names path) of
        None \<Rightarrow> Some PathNotFound
      | Some (File c) \<Rightarrow> Some NotADirectory
      | Some (Dir f) \<Rightarrow>
          (case f (normalize_name (last (components path))) of Some (Dir g) \<Rightarrow> Some NotAFile | _ \<Rightarrow> None))"

lemma names_snoc:
  "components path \<noteq> [] \<Longrightarrow>
     map normalize_name (components path) = parent_names path @ [normalize_name (last (components path))]"
  by (cases "components path" rule: rev_cases) (simp_all add: parent_names_def)

lemma no_components: "components s = [] \<longleftrightarrow> set s \<subseteq> {slash}"
proof
  assume none: "components s = []"
  show "set s \<subseteq> {slash}"
  proof (rule ccontr)
    assume "\<not> set s \<subseteq> {slash}"
    with none show False
    proof (induction s)
      case (Cons c s)
      show ?case
      proof (cases "c = slash")
        case True
        then show ?thesis using Cons components_append [of "[]" s] by auto
      next
        case False
        then show ?thesis using Cons.prems(1) by (auto simp: components_def split: list.splits if_splits)
      qed
    qed simp
  qed
next
  assume "set s \<subseteq> {slash}"
  then have "s = replicate (length s) slash" by (induction s) auto
  then show "components s = []" using components_slashes [of "[]" "length s"] by simp
qed

lemma odd_root_parent:
  assumes "split_parent path = Ok (pp, nm)"
  shows "odd_root path \<longleftrightarrow> components pp = [] \<and> pp \<noteq> [slash]"
proof -
  obtain pre where pre: "trim_end_matches slash path = pre @ slash # nm" "slash \<notin> set nm" "nm \<noteq> []"
    "pp = (if pre = [] then [slash] else pre)"
    by (rule split_parent_cases [OF assms])
  obtain k where path: "path = (pre @ slash # nm) @ replicate k slash"
    using trim_end_matches_split [of path slash] pre(1) by auto
  have one: "length (components path) = 1 \<longleftrightarrow> components pp = []" using split_parent_components [OF assms] by simp
  have nm: "hd nm \<noteq> slash" using pre(2,3) by (cases nm) auto
  show ?thesis
  proof (cases "components pp = []")
    case True
    then have "set pre \<subseteq> {slash}" using pre(4) no_components [of pp] by (auto split: if_splits)
    then have slashes: "pre = replicate (length pre) slash" by (induction pre) auto
    consider "length pre = 0" | "length pre = 1" | j where "length pre = Suc (Suc j)"
      by (metis One_nat_def not0_implies_Suc)
    then have "take 3 path = [slash, slash, slash] \<longleftrightarrow> pp \<noteq> [slash]"
    proof cases
      case 1
      then show ?thesis using pre(3,4) path nm by (cases nm) auto
    next
      case 2
      then show ?thesis using pre(3,4) path nm slashes by (cases nm) (auto simp: numeral_eq_Suc)
    next
      case (3 j)
      then have "pre = slash # slash # replicate j slash" using slashes by simp
      then show ?thesis using pre(4) path by (cases j) (auto simp: numeral_eq_Suc)
    qed
    with True one show ?thesis by (simp add: odd_root_def)
  next
    case False
    with one show ?thesis unfolding odd_root_def by simp
  qed
qed

lemma split_proper:
  assumes "proper path" "starts_with slash path" "components path \<noteq> []"
  obtains pp where "split_parent path = Ok (pp, last (components path))" "starts_with slash pp"
    "map normalize_name (components pp) = parent_names path"
    "\<forall>c\<in>set (components pp). \<not> special c" "odd_root path \<longleftrightarrow> components pp = [] \<and> pp \<noteq> [slash]"
proof -
  obtain pp nm where s: "split_parent path = Ok (pp, nm)" "components path = components pp @ [nm]"
  proof (cases "split_parent path")
    case (Ok r)
    then show thesis using that split_parent_components by (cases r) blast
  next
    case (Err e)
    with split_parent_spec [OF assms(2)] assms(3) show thesis by simp
  next
    case Panic
    then show thesis by (auto simp: split_parent_def Let_def res_simps split: if_splits)
  qed
  then show thesis
    using that [of pp] split_parent_absolute [OF assms(2) s(1)] odd_root_parent [OF s(1)] assms(1)
    by (auto simp: proper_def parent_names_def)
qed

lemma encode_valid: "valid_8_3 nm \<longleftrightarrow> (\<exists>n e. encode_short_name_8_3 nm = Ok (n, e))"
  by (simp add: encode_eq)

text \<open>What the search finds: the child of that name.\<close>

lemma find_child:
  assumes st: "stored m (LDir en cls ks)" and enc: "encode_short_name_8_3 nm = Ok (n, e)" and plain: "plain_name nm"
    and un: "unlabelled m cls n e"
  defines "k \<equiv> find (\<lambda>k. key k = normalize_name nm) ks"
  obtains off where "find_dir_entry_offset_by_short_name m (e_first_cluster en) n e = Ok (off, map_option entry_of k)"
    "off = None \<longleftrightarrow> k = None"
proof -
  let ?es = "listing (dir_slots (as_read m) cls)" and ?y = "normalize_name nm"
  have dir: "chain_at m (e_first_cluster en) cls" "canonical_dir m cls"
    and ents: "filter ordinary ?es = map entry_of ks" and dist: "distinct (map key ks)" using st by simp_all
  have y: "\<not> special ?y" using encoded_ordinary [OF enc] by simp
  have search: "find (\<lambda>e. normalize_name (e_name e) = ?y) ?es = map_option entry_of k"
    unfolding k_def by (rule stored_find [OF st y])
  obtain off old where found: "find_dir_entry_offset_by_short_name m (e_first_cluster en) n e = Ok (off, old)"
    and old: "case old of None \<Rightarrow> off = None \<and> (\<forall>x\<in>set ?es. \<not> names nm x) | Some x \<Rightarrow> off \<noteq> None \<and> x \<in> set ?es \<and> names nm x"
    using find_name [OF dir enc plain un] by blast
  have "old = map_option entry_of k \<and> (off = None \<longleftrightarrow> k = None)"
  proof (cases old)
    case None
    then have "find (\<lambda>e. normalize_name (e_name e) = ?y) ?es = None"
      using old by (auto simp: find_None_iff names_def)
    with search None old show ?thesis by simp
  next
    case (Some x)
    then have x: "x \<in> set ?es" "normalize_name (e_name x) = ?y" "off \<noteq> None" using old by (simp_all add: names_def)
    have "special (e_name x) = special nm" using special_normalize x(2) by metis
    then have "x \<in> set (filter ordinary ?es)" using x(1) y by (simp add: ordinary_def)
    then obtain k' where k': "k' \<in> set ks" "entry_of k' = x" unfolding ents by auto
    then have "key k' = ?y" using x(2) by (simp add: key_def)
    from find_unique [OF k'(1) dist, unfolded this] show ?thesis using Some k'(2) x(3) by (simp add: k_def)
  qed
  with found that show thesis by blast
qed

text \<open>From the directory on the run depends on the old entry only.\<close>

lemma write_from_dir:
  assumes "starts_with slash path" "split_parent path = Ok (pp, nm)" "encode_short_name_8_3 nm = Ok (n, e)"
    "parent_cluster pp m = Ok dir" "find_dir_entry_offset_by_short_name m dir n e = Ok (off, old)"
  shows "write_file_by_path pf path content m =
    sbind (release_existing old) (\<lambda>_. sbind (store_content pf content) (\<lambda>fc.
      update_entry dir off n e fc (word_of_nat (length content)))) m"
proof -
  have "path \<noteq> [slash]" using assms(2) by (auto simp: split_parent_def trim_end_matches_def res_simps)
  with assms show ?thesis by (simp add: write_file_by_path_def Let_def)
qed

subsection \<open>Requests that are refused\<close>

lemma write_refused:
  assumes vol: "volume_tree m L" "tidy m L" and path: "proper path"
    and seen: "\<not> through_file (tree_of m L) (parent_names path)"
    and no: "refusal (tree_of m L) path = Some err"
  shows "write_file_by_path pf path content m = (Err err, m)"
proof (cases "starts_with slash path")
  case start: True
  have st: "stored m L" using vol(1) by (simp add: volume_tree_def)
  show ?thesis
  proof (cases "components path = []")
    case True
    then have "err = Other" using no by (simp add: refusal_def)
    moreover have "split_parent path = Err Other"
      using split_parent_spec [OF start] True
      by (cases "split_parent path") (auto split: prod.splits)
    ultimately show ?thesis by (simp add: write_file_by_path_def)
  next
    case False
    let ?nm = "last (components path)"
    from split_proper [OF path start False] obtain pp where pp: "split_parent path = Ok (pp, ?nm)" "starts_with slash pp"
      "map normalize_name (components pp) = parent_names path"
      "\<forall>c\<in>set (components pp). \<not> special c" "odd_root path \<longleftrightarrow> components pp = [] \<and> pp \<noteq> [slash]" .
    have ne: "path \<noteq> [slash]" using pp(1) by (auto simp: split_parent_def trim_end_matches_def res_simps)
    have parent: "parent_cluster pp m = (case sub L (parent_names path) of
        None \<Rightarrow> Err PathNotFound | Some (LFile en cs) \<Rightarrow> Err NotADirectory | Some (LDir en cs ks) \<Rightarrow> Ok (e_first_cluster en))"
      if "\<not> odd_root path"
      using parent_in_tree [OF vol(1) pp(2,4)] pp(5) that seen by (simp add: pp(3))
    have lost: "parent_cluster pp m = Err PathNotFound" if "odd_root path"
      using that pp(2,5) by (simp add: parent_cluster_def open_path_def components_def [symmetric])
    show ?thesis
    proof (cases "encode_short_name_8_3 ?nm")
      case (Ok ne8)
      obtain n e where enc: "encode_short_name_8_3 ?nm = Ok (n, e)" using Ok by (cases ne8) simp
      then have valid: "valid_8_3 ?nm" by (auto simp: encode_valid)
      show ?thesis
      proof (cases "odd_root path")
        case True
        with no valid False start have "err = PathNotFound" by (simp add: refusal_def)
        then show ?thesis using lost [OF True] enc pp(1) start ne by (simp add: write_file_by_path_def)
      next
        case root: False
        note parent = parent [OF root]
        show ?thesis
      proof (cases "sub L (parent_names path)")
        case None
        with no valid False start root have "err = PathNotFound" by (simp add: refusal_def lookup_sub)
        then show ?thesis using None parent enc pp(1) start ne by (simp add: write_file_by_path_def)
      next
        case (Some K)
        show ?thesis
        proof (cases K)
          case (LFile en cs)
          with no valid False start root Some have "err = NotADirectory" by (simp add: refusal_def lookup_sub)
          then show ?thesis using Some LFile parent enc pp(1) start ne by (simp add: write_file_by_path_def)
        next
          case (LDir en cls ks)
          note Y = sub_stored [OF st Some, unfolded LDir]
          have un: "unlabelled m cls n e"
            using tidy_sub [OF Some vol(2)] enc by (auto simp: LDir orderly_def)
          obtain off where found: "find_dir_entry_offset_by_short_name m (e_first_cluster en) n e
              = Ok (off, map_option entry_of (find (\<lambda>k. key k = normalize_name ?nm) ks))"
            using find_child [OF Y enc _ un] path False valid by (auto simp: proper_def)
          from no valid False start root Some LDir obtain k where k: "find (\<lambda>k. key k = normalize_name ?nm) ks = Some k"
            "err = NotAFile" "\<exists>x cs js. k = LDir x cs js"
            by (auto simp: refusal_def lookup_sub map_of_keys split: option.splits node.splits)
              (metis layout.exhaust node.distinct(1) tree_of.simps(1))
          have "is_dir (entry_of k)" using Y find_in [OF k(1)] k(3) by auto
          then show ?thesis
            using write_from_dir [OF start pp(1) enc _ found] parent Some LDir k(1,2)
            by (simp add: release_existing_def)
        qed
      qed
      qed
    next
      case (Err x)
      then have "\<not> valid_8_3 ?nm" "x = InvalidName" by (auto simp: encode_eq split: if_splits)
      with no False start have "err = InvalidName" by (simp add: refusal_def)
      then show ?thesis using Err \<open>x = _\<close> pp(1) start ne by (simp add: write_file_by_path_def)
    next
      case Panic
      then show ?thesis by (simp add: encode_eq split: if_splits)
    qed
  qed
next
  case False
  then show ?thesis using no by (simp add: refusal_def write_file_by_path_def)
qed

subsection \<open>Requests that are not\<close>

text \<open>
  The directory has a slot left; the file was written; the directory had no slot and the clusters of the
  content are lost; there were too few clusters and those of the old file have been released.
\<close>

definition has_slot :: "fat32_mut \<Rightarrow> layout \<Rightarrow> rstr list \<Rightarrow> bool" where
  "has_slot m L p \<longleftrightarrow> (case sub L p of
      Some (LDir en cs ks) \<Rightarrow> (\<exists>s\<in>set (dir_slots (as_read m) cs). \<not> used s) | _ \<Rightarrow> False)"

definition written :: "fat32_mut \<Rightarrow> layout \<Rightarrow> rstr list \<Rightarrow> u8 list \<Rightarrow> fat32_mut \<Rightarrow> layout \<Rightarrow> bool" where
  "written m L p content m' L' \<longleftrightarrow> volume_tree m' L' \<and> tidy m' L'
     \<and> tree_of m' L' = update (tree_of m L) p (File content)
     \<and> unowned m' L' = unowned m L \<and> new_file m L L' p content"

definition leaked :: "fat32_mut \<Rightarrow> layout \<Rightarrow> nat \<Rightarrow> fat32_mut \<Rightarrow> bool" where
  "leaked m L k m' \<longleftrightarrow> volume_tree m' L \<and> tidy m' L \<and> tree_of m' L = tree_of m L
     \<and> (\<exists>ks. distinct ks \<and> length ks = k \<and> set ks \<inter> unowned m L = {} \<and> unowned m' L = unowned m L \<union> set ks)"

definition emptied :: "fat32_mut \<Rightarrow> layout \<Rightarrow> rstr list \<Rightarrow> fat32_mut \<Rightarrow> bool" where
  "emptied m L p m' \<longleftrightarrow> same_but (set_mset (owned_at L p)) m m' \<and> (\<forall>c\<in>set_mset (owned_at L p). fat_val m' c = 0)
     \<and> (lookup (tree_of m L) p = None \<longrightarrow> m' = m)"

text \<open>What is known of a request that is not refused.\<close>

lemma request_parts:
  assumes vol: "volume_tree m L" "tidy m L" and path: "proper path"
    and seen: "\<not> through_file (tree_of m L) (parent_names path)" and go: "refusal (tree_of m L) path = None"
  obtains pp nm n e en cls ks off old fs where "starts_with slash path" "split_parent path = Ok (pp, nm)"
    "\<forall>c\<in>set (components pp). \<not> special c" "components pp = [] \<longrightarrow> pp = [slash]"
    "map normalize_name (components pp) = parent_names path" "components path \<noteq> []"
    "encode_short_name_8_3 nm = Ok (n, e)" "plain_name nm" "parent_cluster pp m = Ok (e_first_cluster en)"
    "sub L (parent_names path) = Some (LDir en cls ks)" "stored m (LDir en cls ks)"
    "unlabelled m cls n e" "roomy_end m cls"
    "find_dir_entry_offset_by_short_name m (e_first_cluster en) n e = Ok (off, old)"
    "off = None \<longleftrightarrow> lookup (tree_of m L) (map normalize_name (components path)) = None" "off = None \<longrightarrow> old = None"
    "old_chain m old fs" "set cls \<inter> set fs = {}" "owned_at L (map normalize_name (components path)) = mset fs"
    "\<forall>f. lookup (tree_of m L) (map normalize_name (components path)) \<noteq> Some (Dir f)"
proof -
  have st: "stored m L" using vol(1) by (simp add: volume_tree_def)
  have start: "starts_with slash path" and ne: "components path \<noteq> []" and root: "\<not> odd_root path"
    using go by (auto simp: refusal_def split: if_splits)
  let ?nm = "last (components path)"
  from split_proper [OF path start ne] obtain pp where pp: "split_parent path = Ok (pp, ?nm)" "starts_with slash pp"
    "map normalize_name (components pp) = parent_names path"
    "\<forall>c\<in>set (components pp). \<not> special c" "odd_root path \<longleftrightarrow> components pp = [] \<and> pp \<noteq> [slash]" .
  have pp_root: "components pp = [] \<longrightarrow> pp = [slash]" using pp(5) root by blast
  have valid: "valid_8_3 ?nm" using go ne by (auto simp: refusal_def split: if_splits)
  then obtain n e where enc: "encode_short_name_8_3 ?nm = Ok (n, e)" unfolding encode_valid by blast
  have plain: "plain_name ?nm" using path ne valid by (simp add: proper_def)
  from go ne valid start root obtain f where f: "lookup (tree_of m L) (parent_names path) = Some (Dir f)"
    "\<forall>g. f (normalize_name ?nm) \<noteq> Some (Dir g)"
    by (auto simp: refusal_def split: option.splits node.splits)
  then obtain en cls ks where Y: "sub L (parent_names path) = Some (LDir en cls ks)"
    by (auto simp: lookup_sub) (metis layout.exhaust node.distinct(1) tree_of.simps(1))
  note stY = sub_stored [OF st Y]
  let ?k = "find (\<lambda>k. key k = normalize_name ?nm) ks"
  have orderly: "orderly m cls" using tidy_sub [OF Y vol(2)] by simp
  then have un: "unlabelled m cls n e" and roomy: "roomy_end m cls" using enc clear_end_roomy by (auto simp: orderly_def)
  have parent: "parent_cluster pp m = Ok (e_first_cluster en)"
    using parent_in_tree [OF vol(1) pp(2,4) pp_root] seen Y by (simp add: pp(3))
  obtain off where found: "find_dir_entry_offset_by_short_name m (e_first_cluster en) n e = Ok (off, map_option entry_of ?k)"
    "off = None \<longleftrightarrow> ?k = None"
    using find_child [OF stY enc plain un] by blast
  have child: "sub L (map normalize_name (components path)) = ?k"
    unfolding names_snoc [OF ne] by (simp add: sub_append Y split: option.split)
  have look: "lookup (tree_of m L) (map normalize_name (components path)) = map_option (tree_of m) ?k"
    by (simp add: lookup_sub child)
  have no_dir: "\<forall>g. lookup (tree_of m L) (map normalize_name (components path)) \<noteq> Some (Dir g)"
    using f Y unfolding look by (auto simp: lookup_sub map_of_keys)
  have small: "count (owned (LDir en cls ks)) c \<le> 1" for c
    using owned_sub [OF Y] vol(1) le_trans unfolding volume_tree_def by blast
  obtain fs where fs: "old_chain m (map_option entry_of ?k) fs" "set cls \<inter> set fs = {}"
    "owned_at L (map normalize_name (components path)) = mset fs"
  proof (cases ?k)
    case None
    then show thesis using that [of "[]"] by (simp add: old_chain_def owned_at_def child)
  next
    case (Some k)
    then obtain x fs where k: "k = LFile x fs" using no_dir unfolding look by (cases k) auto
    have "stored m k" using stY find_in [OF Some] by auto
    moreover obtain A B where "ks = A @ k # B" using find_in [OF Some] by (auto dest: split_list)
    then have "count (mset cls) c + count (mset fs) c \<le> 1" for c using small [of c] k by simp
    then have "count (mset cls) c = 0 \<or> count (mset fs) c = 0" for c
      by (metis One_nat_def add_is_1 le_SucE le_zero_eq add_is_0)
    then have "set cls \<inter> set fs = {}" by (auto simp: count_eq_zero_iff)
    ultimately show thesis using that [of fs] Some k by (simp add: owned_at_def child)
  qed
  show thesis
    using that [OF start pp(1,4) pp_root pp(3) ne enc plain parent Y stY un roomy found(1) _ _ fs no_dir] found(2)
    unfolding look by simp
qed

text \<open>Too few clusters, with those of the old file.\<close>

lemma write_no_room:
  assumes vol: "volume_tree m L" "tidy m L" and path: "proper path"
    and seen: "\<not> through_file (tree_of m L) (parent_names path)" and go: "refusal (tree_of m L) path = None"
    and mx: "max_cluster_number pf m = Ok mx"
    and full: "length (usable m mx (set_mset (owned_at L (map normalize_name (components path)))))
      < div_ceil (length content) (m_cluster_size m)"
  shows "\<exists>m'. write_file_by_path pf path content m = (Err NoSpaceLeft, m')
    \<and> emptied m L (map normalize_name (components path)) m'"
proof -
  let ?p = "map normalize_name (components path)" and ?k = "div_ceil (length content) (m_cluster_size m)"
  have m: "mounted m" using vol(1) by (simp add: volume_tree_def)
  obtain pp nm n e en cls ks off old fs where a: "starts_with slash path" "split_parent path = Ok (pp, nm)"
    "encode_short_name_8_3 nm = Ok (n, e)" "parent_cluster pp m = Ok (e_first_cluster en)"
    "find_dir_entry_offset_by_short_name m (e_first_cluster en) n e = Ok (off, old)"
    "off = None \<longleftrightarrow> lookup (tree_of m L) ?p = None" "off = None \<longrightarrow> old = None"
    "old_chain m old fs" "owned_at L ?p = mset fs"
    "sub L (parent_names path) = Some (LDir en cls ks)"
    by (rule request_parts [OF vol path seen go]) (rule that; assumption)
  obtain m1 where m1: "release_existing old m = (Ok (), m1)" "same_but (set fs) m m1"
    "\<And>d. has_entry m d \<Longrightarrow> fat_val m1 d = (if d \<in> set fs then 0 else fat_val m d)"
    using release_existing_spec [OF a(8)] by blast
  note shape = same_but_shape [OF m1(2)]
  have vol1: "mounted m1" "max_cluster_number pf m1 = Ok mx"
    using m mx mounted_same_shape [OF shape] max_cluster_number_same_shape [OF shape] by simp_all
  have "free_clusters m1 mx = usable m mx (set fs)" using m1(3) by (rule usable_released [OF mx m])
  then have less: "length (free_clusters m1 mx) < ?k" using full by (simp add: a(9))
  then have "content \<noteq> []" by (auto simp: div_ceil_def split: if_splits)
  then have "store_content pf content m1 = (Err NoSpaceLeft, m1)"
    using alloc_chain_full [OF vol1(2,1) less] by (simp add: store_content_def Let_def same_shapeD(2) [OF shape])
  then have run: "write_file_by_path pf path content m = (Err NoSpaceLeft, m1)"
    using write_from_dir [OF a(1-5)] m1(1) by simp
  have "fat_val m1 c = 0" if "c \<in> set fs" for c
  proof -
    have "has_entry m c" using a(8) that by (auto simp: old_chain_def dest: chain_atD(4) split: option.splits if_splits)
    with m1(3) that show ?thesis by simp
  qed
  moreover have "m1 = m" if "lookup (tree_of m L) ?p = None"
    using that a(6,7) m1(1) by (simp add: release_existing_def)
  ultimately have "emptied m L ?p m1" using m1(2) by (simp add: emptied_def a(9))
  with run show ?thesis by blast
qed

text \<open>A new file in a full directory.\<close>

lemma write_no_slot:
  assumes vol: "volume_tree m L" "tidy m L" and path: "proper path"
    and seen: "\<not> through_file (tree_of m L) (parent_names path)" and go: "refusal (tree_of m L) path = None"
    and new: "lookup (tree_of m L) (map normalize_name (components path)) = None" "\<not> has_slot m L (parent_names path)"
    and mx: "max_cluster_number pf m = Ok mx" "mx < 0x0FFFFFF8"
    and room: "div_ceil (length content) (m_cluster_size m) \<le> length (free_clusters m mx)"
  shows "\<exists>m'. write_file_by_path pf path content m = (Err NoSpaceLeft, m')
    \<and> leaked m L (div_ceil (length content) (m_cluster_size m)) m'
    \<and> length (free_clusters m mx) \<le> length (free_clusters m' mx) + div_ceil (length content) (m_cluster_size m)"
proof -
  have m: "mounted m" "stored m L" using vol(1) by (simp_all add: volume_tree_def)
  obtain pp nm n e en cls ks off old where a: "starts_with slash path" "split_parent path = Ok (pp, nm)"
    "encode_short_name_8_3 nm = Ok (n, e)" "parent_cluster pp m = Ok (e_first_cluster en)"
    "find_dir_entry_offset_by_short_name m (e_first_cluster en) n e = Ok (off, old)"
    "sub L (parent_names path) = Some (LDir en cls ks)" "stored m (LDir en cls ks)"
    "off = None \<longleftrightarrow> lookup (tree_of m L) (map normalize_name (components path)) = None" "off = None \<longrightarrow> old = None"
    by (rule request_parts [OF vol path seen go]) (rule that; assumption)
  have off: "off = None" "old = None" using a(8,9) new(1) by simp_all
  obtain m1 fc nks where m1: "store_content pf content m = (Ok fc, m1)" "same_but (set nks) m m1"
    "set nks \<subseteq> set (free_clusters m mx)" "content = [] \<longrightarrow> fc = 0 \<and> nks = [] \<and> m1 = m"
    "distinct nks" "\<forall>c\<in>set nks. fat_val m1 c \<noteq> 0" "length nks = div_ceil (length content) (m_cluster_size m)"
    using store_content_all [OF mx m(1) room] by blast
  have free: "fat_val m c = 0 \<and> has_entry m c" if "c \<in> set nks" for c
    using that m1(3) free_clustersD [OF mx(1) m(1)] by blast
  have owned: "\<forall>c\<in>set nks. c \<notin># owned L" using free stored_used [OF m(2)] by blast
  note kept = stored_frame [OF m(2) m1(2) owned] tidy_frame [OF m(2) m1(2) owned vol(2)]
  note shape = same_but_shape [OF m1(2)]
  have chain: "chain_at m (e_first_cluster en) cls" using a(7) by simp
  have apart: "set cls \<inter> set nks = {}" using free by (intro free_disjoint [OF chain]) blast
  note dir = same_but_chain [OF m1(2) chain apart]
  have "\<forall>p\<in>set (slot_places m1 cls). used (slot m1 p)"
    using new(2) a(6) dir(4,5) dir_slots_places [of cls m, OF chain_atD(5) [OF chain]] by (simp add: has_slot_def)
  then have "find_free_dir_entry_slot m1 (e_first_cluster en) = Err NoSpaceLeft"
    using chain_atD(1) [OF dir(1)] free_slot_loop_spec [of cls m1, OF chain_atD(5) [OF dir(1)]]
      free_slot_None [of m1 "slot_places m1 cls"] by (simp add: find_free_dir_entry_slot_def)
  then have run: "write_file_by_path pf path content m = (Err NoSpaceLeft, m1)"
    using write_from_dir [OF a(1-5)] off m1(1) by (simp add: release_existing_def update_entry_def)
  have used: "fat_val m1 c \<noteq> 0" if "c \<in> set nks" for c using that m1(6) by blast
  have same: "fat_val m1 c = fat_val m c" if "has_entry m c" "c \<notin> set nks" for c
    using m1(2) that by (simp add: same_but_def)
  have "unowned m1 L = unowned m L \<union> set nks"
    using same used free owned has_entry_same_shape [OF shape] by (auto simp: unowned_def) metis
  moreover have "set nks \<inter> unowned m L = {}" using free by (auto simp: unowned_def)
  moreover have "volume_tree m1 L"
    using vol(1) kept(1) mounted_same_shape [OF shape m(1)] same_shape_root [OF shape] by (simp add: volume_tree_def)
  ultimately have "leaked m L (div_ceil (length content) (m_cluster_size m)) m1"
    using kept m1(5,7) unfolding leaked_def by blast
  moreover have "length (free_clusters m mx) \<le> length (free_clusters m1 mx) + div_ceil (length content) (m_cluster_size m)"
    unfolding m1(7) [symmetric] using same by (intro free_clusters_taken [OF mx(1) m(1)]) auto
  ultimately show ?thesis using run by blast
qed

text \<open>When there are clusters and a slot the write succeeds, however long the content is.\<close>

lemma write_goes_through:
  assumes vol: "volume_tree m L" "tidy m L" and path: "proper path"
    and seen: "\<not> through_file (tree_of m L) (parent_names path)" and go: "refusal (tree_of m L) path = None"
    and slot: "lookup (tree_of m L) (map normalize_name (components path)) = None \<longrightarrow> has_slot m L (parent_names path)"
    and mx: "max_cluster_number pf m = Ok mx" "mx < 0x0FFFFFF8"
    and room: "div_ceil (length content) (m_cluster_size m)
        \<le> length (usable m mx (set_mset (owned_at L (map normalize_name (components path)))))"
  shows "\<exists>m'. write_file_by_path pf path content m = (Ok (), m')"
proof -
  have m: "mounted m" using vol(1) by (simp add: volume_tree_def)
  obtain pp nm n e en cls ks off old fs where a: "starts_with slash path" "split_parent path = Ok (pp, nm)"
    "encode_short_name_8_3 nm = Ok (n, e)" "parent_cluster pp m = Ok (e_first_cluster en)"
    "find_dir_entry_offset_by_short_name m (e_first_cluster en) n e = Ok (off, old)"
    and b: "plain_name nm" "sub L (parent_names path) = Some (LDir en cls ks)" "stored m (LDir en cls ks)"
    "off = None \<longleftrightarrow> lookup (tree_of m L) (map normalize_name (components path)) = None"
    "old_chain m old fs" "set cls \<inter> set fs = {}" "owned_at L (map normalize_name (components path)) = mset fs"
    by (rule request_parts [OF vol path seen go]) (rule that; assumption)
  have dir: "chain_at m (e_first_cluster en) cls" "canonical_dir m cls" using b(3) by simp_all
  obtain m1 where m1: "release_existing old m = (Ok (), m1)" "same_but (set fs) m m1"
    "\<And>d. has_entry m d \<Longrightarrow> fat_val m1 d = (if d \<in> set fs then 0 else fat_val m d)"
    using release_existing_spec [OF b(5)] by blast
  note s1 = same_but_shape [OF m1(2)] and kept1 = same_but_chain [OF m1(2) dir(1) b(6)]
  have vol1: "mounted m1" "max_cluster_number pf m1 = Ok mx"
    using m mx mounted_same_shape [OF s1] max_cluster_number_same_shape [OF s1] by simp_all
  have "free_clusters m1 mx = usable m mx (set fs)" using m1(3) by (rule usable_released [OF mx(1) m])
  then have room1: "div_ceil (length content) (m_cluster_size m1) \<le> length (free_clusters m1 mx)"
    using room by (simp add: b(7) same_shapeD [OF s1])
  obtain m2 fc nks where m2: "store_content pf content m1 = (Ok fc, m2)" "same_but (set nks) m1 m2"
    "set nks \<subseteq> set (free_clusters m1 mx)"
    using store_content_all [OF vol1(2) mx(2) vol1(1) room1] by blast
  have apart: "set cls \<inter> set nks = {}"
    using m2(3) free_clustersD(2) [OF vol1(2,1)] by (intro free_disjoint [OF kept1(1)]) auto
  note kept2 = same_but_chain [OF m2(2) kept1(1) apart]
  have can: "canonical_dir m2 cls" using dir(2) kept1(3) kept2(3) by (simp add: canonical_dir_def)
  have found: "find_dir_entry_offset_by_short_name m2 (e_first_cluster en) n e = Ok (off, old)"
    using same_but_find [OF m2(2) kept1(1) apart] same_but_find [OF m1(2) dir(1) b(6)] a(5) by simp
  have "\<exists>p\<in>set (slot_places m2 cls). \<not> used (slot m2 p)" if "off = None"
  proof -
    have "\<exists>s\<in>set (dir_slots (as_read m2) cls). \<not> used s"
      using slot b(2,4) that kept1(3) kept2(3) by (simp add: has_slot_def)
    then show ?thesis using dir_slots_places [of cls m2, OF chain_atD(5) [OF kept2(1)]] by simp
  qed
  then obtain m' where "update_entry (e_first_cluster en) off n e fc (word_of_nat (length content)) m2 = (Ok (), m')"
    using update_entry_listed [OF kept2(1) can a(3) b(1) found] by blast
  then show ?thesis using write_from_dir [OF a] m1(1) m2(1) by simp
qed

text \<open>A file that fits.\<close>

lemma write_fits:
  assumes vol: "volume_tree m L" "tidy m L" and path: "proper path"
    and seen: "\<not> through_file (tree_of m L) (parent_names path)" and go: "refusal (tree_of m L) path = None"
    and slot: "lookup (tree_of m L) (map normalize_name (components path)) = None \<longrightarrow> has_slot m L (parent_names path)"
    and mx: "max_cluster_number pf m = Ok mx" "mx < 0x0FFFFFF8"
    and room: "div_ceil (length content) (m_cluster_size m)
        \<le> length (usable m mx (set_mset (owned_at L (map normalize_name (components path)))))"
      "div_ceil (length content) (m_cluster_size m) \<le> 4096" "length content < 2 ^ 32"
  shows "\<exists>m' L'. write_file_by_path pf path content m = (Ok (), m')
    \<and> written m L (map normalize_name (components path)) content m' L'
    \<and> length (free_clusters m mx) \<le> length (free_clusters m' mx) + div_ceil (length content) (m_cluster_size m)"
proof -
  obtain pp nm n e en cls ks where a: "starts_with slash path" "split_parent path = Ok (pp, nm)"
    "\<forall>c\<in>set (components pp). \<not> special c" "components pp = [] \<longrightarrow> pp = [slash]"
    "encode_short_name_8_3 nm = Ok (n, e)" "plain_name nm"
    "sub L (parent_names path) = Some (LDir en cls ks)" "map normalize_name (components pp) = parent_names path"
    "\<forall>f. lookup (tree_of m L) (map normalize_name (components path)) \<noteq> Some (Dir f)"
    "unlabelled m cls n e" "roomy_end m cls"
    by (rule request_parts [OF vol path seen go]) (rule that; assumption)
  have dir: "sub L (map normalize_name (components pp)) = Some (LDir en cls ks)" by (simp only: a(7,8))
  have slot': "lookup (tree_of m L) (map normalize_name (components path)) = None \<longrightarrow>
      roomy_end m cls \<and> (\<exists>s\<in>set (dir_slots (as_read m) cls). \<not> used s)"
    using slot a(7,11) by (simp add: has_slot_def)
  have "div_ceil (length content) (m_cluster_size m)
      \<le> min 4096 (length (usable m mx (set_mset (owned_at L (map normalize_name (components path))))))"
    using room by simp
  from write_in_tree [OF vol(1) a(1-6) dir a(9,10) slot' mx this room(3)] vol(2)
  show ?thesis unfolding written_def by blast
qed

subsection \<open>Properties\<close>

text \<open>C5: how a write ends, on a volume that stores a tree in tidy directories and is no larger than FAT32 allows. The
  path has no component \<^verbatim>\<open>.\<close> or \<^verbatim>\<open>..\<close>, does not go on after a file, and its last name, if the encoder takes it, is
  shown as it is written; the content is any. Then the request is refused, with the error the tree gives, and
  nothing changes; or there are too few clusters, then \<open>NoSpaceLeft\<close>, nothing changes for a new file, and the
  clusters of an old one are released with its content; or the directory has no slot for a new file, then
  \<open>NoSpaceLeft\<close>, the tree is as before but as many clusters as the content needs are lost; or the write succeeds,
  and, when the content is less than 4 GiB and not over the 4096 clusters that can be read back, the volume stores
  the updated tree.\<close>

theorem write_outcome:
  assumes "volume_tree m L" "tidy m L" "proper path" "\<not> through_file (tree_of m L) (parent_names path)"
    and "max_cluster_number pf m = Ok mx" "mx < 0x0FFFFFF8"
  shows "\<exists>r m'. write_file_by_path pf path content m = (r, m') \<and>
    (let p = map normalize_name (components path); k = div_ceil (length content) (m_cluster_size m) in
     case refusal (tree_of m L) path of
       Some err \<Rightarrow> r = Err err \<and> m' = m
     | None \<Rightarrow>
         if length (usable m mx (set_mset (owned_at L p))) < k then r = Err NoSpaceLeft \<and> emptied m L p m'
         else if lookup (tree_of m L) p = None \<and> \<not> has_slot m L (parent_names path)
           then r = Err NoSpaceLeft \<and> leaked m L k m'
         else r = Ok () \<and> (k \<le> 4096 \<and> length content < 2 ^ 32 \<longrightarrow> (\<exists>L'. written m L p content m' L')))"
proof (cases "refusal (tree_of m L) path")
  case (Some err)
  with write_refused [OF assms(1-4) Some] show ?thesis by simp
next
  case None
  let ?p = "map normalize_name (components path)" and ?k = "div_ceil (length content) (m_cluster_size m)"
  consider (full) "length (usable m mx (set_mset (owned_at L ?p))) < ?k"
    | (slot) "?k \<le> length (usable m mx (set_mset (owned_at L ?p)))"
        "lookup (tree_of m L) ?p = None" "\<not> has_slot m L (parent_names path)"
    | (fits) "?k \<le> length (usable m mx (set_mset (owned_at L ?p)))"
        "lookup (tree_of m L) ?p = None \<longrightarrow> has_slot m L (parent_names path)"
    by linarith
  then show ?thesis
  proof cases
    case full
    with write_no_room [OF assms(1-4) None assms(5) full] None show ?thesis by auto
  next
    case slot
    then have "?k \<le> length (free_clusters m mx)" by (simp add: owned_at_def lookup_sub)
    from write_no_slot [OF assms(1-4) None slot(2,3) assms(5,6) this] None slot
    show ?thesis by (auto simp: not_less)
  next
    case fits
    obtain m' where run: "write_file_by_path pf path content m = (Ok (), m')"
      using write_goes_through [OF assms(1-4) None fits(2) assms(5,6) fits(1)] by blast
    moreover have "\<exists>L'. written m L ?p content m' L'" if "?k \<le> 4096" "length content < 2 ^ 32"
      using write_fits [OF assms(1-4) None fits(2) assms(5,6) fits(1) that] run by auto
    ultimately show ?thesis using None fits by (auto simp: not_less Let_def)
  qed
qed

lemma outcome_paths:
  "proper (bytes ''/HELLO.TXT/A'')" "components (bytes ''/HELLO.TXT/A'') = [bytes ''HELLO.TXT'', bytes ''A'']"
  "proper (bytes ''/DIR/A'')" "components (bytes ''/DIR/A'') = [bytes ''DIR'', bytes ''A'']"
  "valid_8_3 (bytes ''A'')" "normalize_name (bytes ''A'') = bytes ''A''"
  "starts_with slash (bytes ''/HELLO.TXT/A'')" "starts_with slash (bytes ''/DIR/A'')"
  "\<not> odd_root (bytes ''/HELLO.TXT/A'')" "\<not> odd_root (bytes ''/DIR/A'')"
  by code_simp+

lemma write_outcome_witness:
  "write_file_by_path Debug (bytes ''/HELLO.TXT/A'') (bytes ''NEW!'') test_volume = (Err NotADirectory, test_volume)
    \<and> (\<exists>m' L'. write_file_by_path Debug (bytes ''/DIR/A'') (bytes ''NEW!'') test_volume = (Ok (), m')
          \<and> written test_volume test_layout [bytes ''DIR'', bytes ''A''] (bytes ''NEW!'') m' L')"
proof -
  let ?f = "bytes ''/HELLO.TXT/A''" and ?d = "bytes ''/DIR/A''"
  have names: "parent_names ?f = [bytes ''HELLO.TXT'']" "parent_names ?d = [bytes ''DIR'']"
    by (simp_all add: parent_names_def outcome_paths test_names)
  have refusal: "refusal (tree_of test_volume test_layout) ?f = Some NotADirectory"
    "refusal (tree_of test_volume test_layout) ?d = None"
    using test_names(5) by (simp_all add: refusal_def outcome_paths names tree_test)
  have seen: "\<not> through_file (tree_of test_volume test_layout) (parent_names ?f)"
    "\<not> through_file (tree_of test_volume test_layout) (parent_names ?d)"
    using test_names(5) by (simp_all add: names tree_test)
  have mx: "max_cluster_number Debug test_volume = Ok 9" "(9 :: u32) < 0x0FFFFFF8" by simp_all
  have small: "div_ceil (length (bytes ''NEW!'')) (m_cluster_size test_volume) = 1" "length (bytes ''NEW!'') < 2 ^ 32"
    by (simp_all add: div_ceil_def)
  have slot: "has_slot test_volume test_layout [bytes ''DIR'']"
    using test_names by (simp add: has_slot_def test_layout_def key_def test_dir_slots used_def)
  have "\<not> length (usable test_volume 9 F) < 1" for F
    using free_usable [of test_volume 9 F] by (auto simp: free_clusters_test_volume)
  with write_outcome [OF volume_tree_test tidy_test outcome_paths(3) seen(2) mx, of "bytes ''NEW!''"]
    write_outcome [OF volume_tree_test tidy_test outcome_paths(1) seen(1) mx, of "bytes ''NEW!''"]
  show ?thesis using refusal slot by (auto simp: Let_def names outcome_paths test_names div_ceil_def)
qed

end
