(* ===== verification/Shell_Put.thy ===== *)
theory Shell_Put
  imports Shell_Tree Write_Outcome
begin

text \<open>
  Whole sessions of the shell, \<^verbatim>\<open>put\<close> included, as sessions of an abstract shell whose state is the tree, a
  number of clusters known to be free, the current directory and the host.
\<close>

subsection \<open>Resolved paths are proper\<close>

lemma shell_path_proper:
  assumes "shell_path path"
  shows "proper path \<longleftrightarrow> (components path \<noteq> [] \<and> valid_8_3 (last (components path)) \<longrightarrow> plain_name (last (components path)))"
  using shell_pathD [OF assms] by (simp add: proper_def)

subsection \<open>Sessions of the abstract shell\<close>

text \<open>
  Where nothing is promised any more: a path that goes on after a file, a name that is not shown as it is
  written, a content the driver cannot read back, and an overwrite for which not enough clusters are
  known to be free.
\<close>

definition hazard :: "nat \<Rightarrow> node \<Rightarrow> nat \<Rightarrow> rstr \<Rightarrow> u8 list \<Rightarrow> bool" where
  "hazard cs t n path content \<longleftrightarrow> \<not> proper path \<or> through_file t (parent_names path)
     \<or> refusal t path = None \<and> (4096 < div_ceil (length content) cs \<or> 2 ^ 32 \<le> length content
         \<or> node_at t path \<noteq> None \<and> n < div_ceil (length content) cs)"

text \<open>The image holds the tree, with \<open>n\<close> clusters or more free.\<close>

definition holds :: "profile \<Rightarrow> nat \<Rightarrow> u8 list \<Rightarrow> node \<Rightarrow> nat \<Rightarrow> bool" where
  "holds pf cs d t n \<longleftrightarrow> (\<exists>m L mx. image_tree d m L \<and> tidy m L \<and> tree_of m L = t \<and> m_cluster_size m = cs
     \<and> max_cluster_number pf m = Ok mx \<and> mx < 0x0FFFFFF8 \<and> n \<le> length (free_clusters m mx))"

text \<open>
  What \<^verbatim>\<open>put\<close> does with a source that can be read: it is refused, or fails for want of space, and the tree
  stays; or the tree is updated, and the host is given an image that holds it.
\<close>

inductive put_step ::
  "'h os \<Rightarrow> rstr \<Rightarrow> profile \<Rightarrow> nat \<Rightarrow> node \<Rightarrow> nat \<Rightarrow> 'h \<Rightarrow> rstr \<Rightarrow> rstr \<Rightarrow> message \<Rightarrow> node \<Rightarrow> nat \<Rightarrow> 'h \<Rightarrow> bool"
  for os :: "'h os" and img pf cs t n h path src where
  unreadable: "os_read os src h = None \<Longrightarrow> put_step os img pf cs t n h path src (Cannot_read src) t n h"
| refused: "os_read os src h = Some content \<Longrightarrow> \<not> hazard cs t n path content \<Longrightarrow> refusal t path = Some err \<Longrightarrow>
    put_step os img pf cs t n h path src (Put_failed path err) t n h"
| no_space: "os_read os src h = Some content \<Longrightarrow> \<not> hazard cs t n path content \<Longrightarrow> refusal t path = None \<Longrightarrow>
    node_at t path = None \<Longrightarrow>
    put_step os img pf cs t n h path src (Put_failed path NoSpaceLeft) t (n - div_ceil (length content) cs) h"
| stored: "os_read os src h = Some content \<Longrightarrow> \<not> hazard cs t n path content \<Longrightarrow> refusal t path = None \<Longrightarrow>
    t' = update t (map normalize_name (components path)) (File content) \<Longrightarrow> n' = n - div_ceil (length content) cs \<Longrightarrow>
    holds pf cs d t' n' \<Longrightarrow> os_write os img d h = (ok, h') \<Longrightarrow>
    put_step os img pf cs t n h path src (if ok then Put_done src path else Cannot_write img) t' n' h'"

text \<open>
  The turns, what is printed, and how it ends: the tree and the host, or \<open>None\<close> after a hazard, when
  anything may be printed.
\<close>

inductive session ::
  "'h os \<Rightarrow> rstr \<Rightarrow> profile \<Rightarrow> nat \<Rightarrow> node \<Rightarrow> nat \<Rightarrow> rstr \<Rightarrow> 'h \<Rightarrow> turn list \<Rightarrow> message list \<Rightarrow> (node \<times> 'h) option \<Rightarrow> bool"
  for os :: "'h os" and img pf cs where
  waiting: "session os img pf cs t n cur h [] [Prompt cur] (Some (t, h))"
| ended: "t0 \<in> {Flush_error, Read_error, End_of_input} \<Longrightarrow>
    session os img pf cs t n cur h (t0 # ts) [Prompt cur] (Some (t, h))"
| blank: "split_whitespace line = [] \<Longrightarrow> session os img pf cs t n cur h ts ms w \<Longrightarrow>
    session os img pf cs t n cur h (Line line # ts) (Prompt cur # ms) w"
| left: "split_whitespace line = cmd # ps \<Longrightarrow> cmd \<in> {bytes ''exit'', bytes ''quit''} \<Longrightarrow>
    session os img pf cs t n cur h (Line line # ts) [Prompt cur] (Some (t, h))"
| read: "split_whitespace line = cmd # ps \<Longrightarrow> cmd \<notin> {bytes ''exit'', bytes ''quit'', bytes ''put''} \<Longrightarrow>
    tree_step t cur cmd ps ms cur' \<Longrightarrow> session os img pf cs t n cur' h ts ms' w \<Longrightarrow>
    session os img pf cs t n cur h (Line line # ts) (Prompt cur # ms @ ms') w"
| put_usage: "split_whitespace line = bytes ''put'' # ps \<Longrightarrow> length ps < 2 \<Longrightarrow> session os img pf cs t n cur h ts ms w \<Longrightarrow>
    session os img pf cs t n cur h (Line line # ts) (Prompt cur # Put_usage # ms) w"
| put: "split_whitespace line = bytes ''put'' # p # src # ps \<Longrightarrow>
    put_step os img pf cs t n h (resolve_path cur p) src msg t' n' h' \<Longrightarrow>
    session os img pf cs t' n' cur h' ts ms w \<Longrightarrow>
    session os img pf cs t n cur h (Line line # ts) (Prompt cur # msg # ms) w"
| lost: "split_whitespace line = bytes ''put'' # p # src # ps \<Longrightarrow> os_read os src h = Some content \<Longrightarrow>
    hazard cs t n (resolve_path cur p) content \<Longrightarrow>
    session os img pf cs t n cur h (Line line # ts) (Prompt cur # ms) None"

inductive_cases session_lineE: "session os img pf cs t n cur h (Line line # ts) ms w"
inductive_cases session_endE: "session os img pf cs t n cur h (End_of_input # ts) ms w"
inductive_cases put_stepE: "put_step os img pf cs t n h path src msg t' n' h'"

subsection \<open>Output only grows\<close>

definition appends :: "('h, 'a) cli_prog \<Rightarrow> bool" where
  "appends p \<longleftrightarrow> (\<forall>s. \<exists>ms. out (snd (p s)) = out s @ ms)"

lemma appends_simps [simp]: "appends (say msg)" "appends (say_all ms)" "appends (Pair r)" "appends (sret x)"
  "appends (\<lambda>s. say (f s) s)" "appends (\<lambda>s. (Ok (), s\<lparr>cwd := p\<rparr>))"
  by (simp_all add: appends_def say_def say_all_def)

lemma appends_sbind: "appends p \<Longrightarrow> (\<And>x. appends (f x)) \<Longrightarrow> appends (sbind p f)"
  unfolding appends_def sbind_def by (auto split: prod.splits res.splits) (metis append.assoc snd_conv)+

lemma appends_run [simp]: "appends (run_ls ro p)" "appends (run_cat ro p)" "appends (run_cd ro p)"
  by (simp_all add: run_ls_def run_cat_def run_cd_def split: res.split option.split)

lemma appends_volume [simp]: "(\<And>ro. appends (f ro)) \<Longrightarrow> appends (with_volume f)"
  by (simp add: appends_def with_volume_def say_def split: res.split)

lemma appends_put [simp]: "appends (put_file os pf img p src)"
  by (auto simp: appends_def put_file_def put_content_def store_image_def say_def
      split: option.split res.split prod.split bool.split)

lemma appends_command: "appends (shell_command os pf img cmd parts)"
proof -
  have "appends (shell_action os pf img cur cmd parts)" for cur
    by (simp add: shell_action_def split: list.split)
  then have "appends (sbind (shell_action os pf img cur cmd parts) (\<lambda>_. sret True))" for cur
    by (intro appends_sbind) simp_all
  then show ?thesis by (simp add: shell_command_def appends_def)
qed

lemma appends_loop: "appends (shell_loop os pf img ts)"
proof (induction ts)
  case (Cons t ts)
  then show ?case by (auto intro!: appends_sbind appends_command split: turn.split list.split if_split)
qed simp

subsection \<open>The session refines it\<close>

lemma holds_after_write:
  assumes "image_tree (data s) m L" "write_file_by_path pf path content m = (r, m')"
    and "volume_tree m' L'" "tidy m' L'" "m_cluster_size m = cs" "max_cluster_number pf m = Ok mx" "mx < 0x0FFFFFF8"
    and "n \<le> length (free_clusters m mx)" "length (free_clusters m mx) \<le> length (free_clusters m' mx) + k"
  shows "holds pf cs (m_disk m') (tree_of m' L') (n - k)"
proof -
  have img: "fat32_mut_new (data s) = Ok m" "512 \<le> m_fat_start_byte m" using assms(1) by (simp_all add: image_tree_def)
  have disk: "m_disk m = data s" using fat32_mut_new_mounted [OF img(1)] by simp
  note boot = write_file_boot [OF assms(2)]
  have shape: "same_shape m m'" using boot by (simp add: boot_same_def)
  have "fat32_mut_new (m_disk m') = Ok m'" using boot_same_mount(1) [OF _ boot img(2)] img(1) disk by simp
  then have "image_tree (m_disk m') m' L'" using assms(3) img(2) by (simp add: image_tree_def same_shapeD [OF shape])
  moreover have "max_cluster_number pf m' = Ok mx" using assms(6) max_cluster_number_same_shape [OF shape] by simp
  moreover have "n - k \<le> length (free_clusters m' mx)" using assms(8,9) by linarith
  moreover have "m_cluster_size m' = cs" using assms(5) by (simp add: same_shapeD [OF shape])
  ultimately show ?thesis using assms(4,7) unfolding holds_def by blast
qed

lemma put_file_step:
  assumes h: "holds pf cs (data s) t n" and calm: "\<And>content. os_read os src (host s) = Some content \<Longrightarrow> \<not> hazard cs t n path content"
  shows "\<exists>d msg t' n' h'. put_file os pf img path src s = (Ok (), s\<lparr>data := d, host := h', out := out s @ [msg]\<rparr>)
    \<and> put_step os img pf cs t n (host s) path src msg t' n' h' \<and> holds pf cs d t' n'"
proof (cases "os_read os src (host s)")
  case None
  then have "put_file os pf img path src s = (Ok (), s\<lparr>data := data s, host := host s, out := out s @ [Cannot_read src]\<rparr>)"
    by (simp add: put_file_def say_def)
  with put_step.unreadable [OF None] h show ?thesis by blast
next
  case (Some content)
  note ok = calm [OF Some]
  let ?p = "map normalize_name (components path)" and ?k = "div_ceil (length content) cs"
  obtain m L mx where m: "image_tree (data s) m L" "tidy m L" "tree_of m L = t" "m_cluster_size m = cs"
    "max_cluster_number pf m = Ok mx" "mx < 0x0FFFFFF8" "n \<le> length (free_clusters m mx)"
    using h unfolding holds_def by blast
  have vol: "volume_tree m L" "fat32_mut_new (data s) = Ok m" using m(1) by (simp_all add: image_tree_def)
  have disk: "m_disk m = data s" using fat32_mut_new_mounted [OF vol(2)] by simp
  have path: "proper path" "\<not> through_file (tree_of m L) (parent_names path)" using ok by (simp_all add: hazard_def m(3))
  have fails: "put_file os pf img path src s = (Ok (), s\<lparr>data := m_disk m', host := host s, out := out s @ [Put_failed path err]\<rparr>)"
    if "write_file_by_path pf path content m = (Err err, m')" for err m'
    using that Some vol(2) by (simp add: put_file_def put_content_def say_def)
  show ?thesis
  proof (cases "refusal t path")
    case refused: (Some err)
    have "write_file_by_path pf path content m = (Err err, m)"
      using write_refused [OF vol(1) m(2) path] refused m(3) by simp
    from fails [OF this] put_step.refused [OF Some ok refused] h show ?thesis unfolding disk by blast
  next
    case None
    then have go: "refusal (tree_of m L) path = None" by (simp add: m(3))
    have small: "div_ceil (length content) (m_cluster_size m) \<le> 4096" "length content < 2 ^ 32"
      and known: "node_at t path \<noteq> None \<longrightarrow> ?k \<le> n" using ok None by (auto simp: hazard_def m(4) not_less)
    have look: "lookup (tree_of m L) ?p = node_at t path" by (simp add: node_at_def m(3))
    consider (full) "node_at t path = None" "length (free_clusters m mx) < ?k"
      | (slot) "node_at t path = None" "?k \<le> length (free_clusters m mx)" "\<not> has_slot m L (parent_names path)"
      | (fits) "?k \<le> length (free_clusters m mx)" "node_at t path = None \<longrightarrow> has_slot m L (parent_names path)"
      using known m(7) by linarith
    then show ?thesis
    proof cases
      case full
      then have "usable m mx (set_mset (owned_at L ?p)) = free_clusters m mx" using look by (simp add: owned_at_def lookup_sub)
      with full(2) write_no_room [OF vol(1) m(2) path go m(5), of content] m(4)
      have run: "write_file_by_path pf path content m = (Err NoSpaceLeft, m)"
        using full(1) look by (auto simp: emptied_def)
      have "n - ?k \<le> length (free_clusters m mx)" using m(7) by linarith
      then have "holds pf cs (data s) t (n - ?k)" using m(1-6) unfolding holds_def by blast
      with fails [OF run] put_step.no_space [OF Some ok None full(1)] show ?thesis unfolding disk by blast
    next
      case slot
      then obtain m' where m': "write_file_by_path pf path content m = (Err NoSpaceLeft, m')" "leaked m L ?k m'"
        "length (free_clusters m mx) \<le> length (free_clusters m' mx) + ?k"
        using write_no_slot [OF vol(1) m(2) path go _ slot(3) m(5,6), of content] look m(4) by auto
      have kept: "volume_tree m' L" "tidy m' L" "tree_of m' L = t" using m'(2) m(3) by (simp_all add: leaked_def)
      from holds_after_write [OF m(1) m'(1) kept(1,2) m(4-7) m'(3)] have "holds pf cs (m_disk m') t (n - ?k)" by (simp add: kept(3))
      with fails [OF m'(1)] put_step.no_space [OF Some ok None slot(1)] show ?thesis by blast
    next
      case fits
      have room: "div_ceil (length content) (m_cluster_size m) \<le> length (usable m mx (set_mset (owned_at L ?p)))"
        using fits(1) free_usable [of m mx "set_mset (owned_at L ?p)"] m(4) by simp
      have slot: "lookup (tree_of m L) ?p = None \<longrightarrow> has_slot m L (parent_names path)" using fits(2) look by simp
      obtain m' L' where m': "write_file_by_path pf path content m = (Ok (), m')" "written m L ?p content m' L'"
        "length (free_clusters m mx) \<le> length (free_clusters m' mx) + ?k"
        using write_fits [OF vol(1) m(2) path go slot m(5,6) room small] m(4) by auto
      let ?t = "update t ?p (File content)"
      have new: "volume_tree m' L'" "tidy m' L'" "tree_of m' L' = ?t" using m'(2) m(3) by (simp_all add: written_def)
      from holds_after_write [OF m(1) m'(1) new(1,2) m(4-7) m'(3)] have now: "holds pf cs (m_disk m') ?t (n - ?k)" by (simp add: new(3))
      obtain okay h' where w: "os_write os img (m_disk m') (host s) = (okay, h')" by fastforce
      let ?msg = "if okay then Put_done src path else Cannot_write img"
      have "put_file os pf img path src s = (Ok (), s\<lparr>data := m_disk m', host := h', out := out s @ [?msg]\<rparr>)"
        using Some vol(2) m'(1) w by (simp add: put_file_def put_content_def store_image_def say_def)
      with put_step.stored [OF Some ok None refl refl now w] now show ?thesis by blast
    qed
  qed
qed

lemma put_command:
  assumes "put_file os pf img (resolve_path (cwd s) p) src s = (Ok (), s')"
  shows "shell_command os pf img (bytes ''put'') (p # src # ps) s = (Ok True, s')"
  using put_words assms by (simp add: shell_command_def shell_action_def)

lemma session_loop:
  assumes "holds pf cs (data s) t n" "shell_path (cwd s)"
  shows "\<exists>ms w r s'. shell_loop os pf img ts s = (r, s') \<and> out s' = out s @ ms
    \<and> session os img pf cs t n (cwd s) (host s) ts ms w
    \<and> (case w of None \<Rightarrow> True | Some (t', h') \<Rightarrow> r = Ok () \<and> host s' = h' \<and> (\<exists>n'. holds pf cs (data s') t' n'))"
  using assms
proof (induction ts arbitrary: s t n)
  case Nil
  then show ?case
    by (intro exI [of _ "[Prompt (cwd s)]"] exI [of _ "Some (t, host s)"]) (auto simp: say_def intro: session.waiting)
next
  case (Cons t0 ts)
  let ?s = "s\<lparr>out := out s @ [Prompt (cwd s)]\<rparr>"
  let ?goal = "\<exists>ms w r s'. shell_loop os pf img (t0 # ts) s = (r, s') \<and> out s' = out s @ ms
    \<and> session os img pf cs t n (cwd s) (host s) (t0 # ts) ms w
    \<and> (case w of None \<Rightarrow> True | Some (t', h') \<Rightarrow> r = Ok () \<and> host s' = h' \<and> (\<exists>n'. holds pf cs (data s') t' n'))"
  have stop: ?goal if "shell_loop os pf img (t0 # ts) s = (Ok (), ?s)"
    "session os img pf cs t n (cwd s) (host s) (t0 # ts) [Prompt (cwd s)] (Some (t, host s))"
    using that Cons.prems(1)
    by (intro exI [of _ "[Prompt (cwd s)]"] exI [of _ "Some (t, host s)"] exI [of _ "Ok ()"] exI [of _ ?s]) auto
  have go: ?goal if run: "shell_loop os pf img (t0 # ts) s = shell_loop os pf img ts u" and out: "out u = out s @ Prompt (cwd s) # ms"
    and u: "holds pf cs (data u) t' n'" "shell_path (cwd u)"
    and step: "\<And>ms' w. session os img pf cs t' n' (cwd u) (host u) ts ms' w \<Longrightarrow>
      session os img pf cs t n (cwd s) (host s) (t0 # ts) (Prompt (cwd s) # ms @ ms') w" for u ms t' n'
  proof -
    obtain ms' w r s' where rest: "shell_loop os pf img ts u = (r, s')" "out s' = out u @ ms'"
      "session os img pf cs t' n' (cwd u) (host u) ts ms' w"
      "case w of None \<Rightarrow> True | Some (t', h') \<Rightarrow> r = Ok () \<and> host s' = h' \<and> (\<exists>n'. holds pf cs (data s') t' n')"
      using Cons.IH [OF u] by blast
    then show ?thesis using run out step [OF rest(3)]
      by (intro exI [of _ "Prompt (cwd s) # ms @ ms'"] exI [of _ w] exI [of _ r] exI [of _ s']) simp
  qed
  show ?case
  proof (cases "\<exists>line. t0 = Line line")
    case False
    then have "t0 \<in> {Flush_error, Read_error, End_of_input}" by (cases t0) auto
    moreover from this have "shell_loop os pf img (t0 # ts) s = (Ok (), ?s)" by (auto simp: say_def)
    ultimately show ?thesis by (intro stop session.ended)
  next
    case True
    then obtain line where t0: "t0 = Line line" ..
    show ?thesis
    proof (cases "split_whitespace line")
      case Nil
      show ?thesis
      proof (rule go [of ?s "[]"])
        show "shell_loop os pf img (t0 # ts) s = shell_loop os pf img ts ?s" using t0 Nil by (simp add: say_def)
      qed (use Cons.prems t0 in \<open>auto intro: session.blank [OF Nil]\<close>)
    next
      case split: (Cons cmd ps)
      have after: "shell_loop os pf img (t0 # ts) s = shell_loop os pf img ts u"
        if "shell_command os pf img cmd ps ?s = (Ok True, u)" for u
        using t0 split that by (simp add: say_def)
      consider (leave) "cmd \<in> {bytes ''exit'', bytes ''quit''}" | (put) "cmd = bytes ''put''"
        | (reads) "cmd \<notin> {bytes ''exit'', bytes ''quit'', bytes ''put''}" by auto
      then show ?thesis
      proof cases
        case leave
        have "shell_loop os pf img (t0 # ts) s = (Ok (), ?s)"
          using t0 split leave by (auto simp: say_def shell_command_def sbind_def)
        then show ?thesis using session.left [OF split leave] by (intro stop) (simp_all add: t0)
      next
        case reads
        obtain m L where m: "fat32_mut_new (data ?s) = Ok m" "volume_tree m L" "tree_of m L = t"
          using Cons.prems(1) by (auto simp: holds_def image_tree_def)
        obtain ms cur' where run: "shell_command os pf img cmd ps ?s = (Ok True, ?s\<lparr>out := out ?s @ ms, cwd := cur'\<rparr>)"
          "tree_step t (cwd s) cmd ps ms cur'" "shell_path cur'"
          using shell_command_tree [OF m(1,2), of cmd os pf img ps] Cons.prems(2) reads m(3) by auto
        show ?thesis
        proof (rule go [OF after [OF run(1)], of ms t n])
          show "session os img pf cs t n (cwd s) (host s) (t0 # ts) (Prompt (cwd s) # ms @ ms') w"
            if "session os img pf cs t n (cwd (?s\<lparr>out := out ?s @ ms, cwd := cur'\<rparr>)) (host (?s\<lparr>out := out ?s @ ms, cwd := cur'\<rparr>)) ts ms' w"
            for ms' w
            using session.read [OF split reads run(2)] that by (simp add: t0)
        qed (use Cons.prems run(3) in simp_all)
      next
        case put
        show ?thesis
        proof (cases "\<exists>p src qs. ps = p # src # qs")
          case False
          then have few: "length ps < 2" by (cases ps; cases "tl ps") auto
          have "shell_command os pf img cmd ps ?s = (Ok True, ?s\<lparr>out := out ?s @ [Put_usage]\<rparr>)"
            using put put_words False by (simp add: shell_command_def shell_action_def say_def split: list.split)
          from after [OF this] show ?thesis
          proof (rule go [of _ "[Put_usage]"])
            let ?u = "?s\<lparr>out := out ?s @ [Put_usage]\<rparr>"
            show "session os img pf cs t n (cwd s) (host s) (t0 # ts) (Prompt (cwd s) # [Put_usage] @ ms') w"
              if "session os img pf cs t n (cwd ?u) (host ?u) ts ms' w" for ms' w
              using session.put_usage [OF split [unfolded put] few] that by (simp add: t0)
          qed (use Cons.prems in simp_all)
        next
          case True
          then obtain p src qs where ps: "ps = p # src # qs" by blast
          let ?path = "resolve_path (cwd s) p"
          note words = split [unfolded put ps]
          show ?thesis
          proof (cases "\<exists>content. os_read os src (host s) = Some content \<and> hazard cs t n ?path content")
            case True
            then obtain content where c: "os_read os src (host s) = Some content" "hazard cs t n ?path content" by blast
            have "appends (sbind (shell_command os pf img cmd ps) (\<lambda>go. if go then shell_loop os pf img ts else sret ()))"
              by (intro appends_sbind appends_command) (simp add: appends_loop)
            then obtain ms where "out (snd (shell_loop os pf img (t0 # ts) s)) = out s @ Prompt (cwd s) # ms"
              using t0 split unfolding appends_def by (auto simp: say_def dest: spec [of _ ?s])
            then show ?thesis using session.lost [OF words c, where img = img and pf = pf and ts = ts and ms = ms]
              by (cases "shell_loop os pf img (t0 # ts) s")
                (auto simp: t0 intro!: exI [of _ "Prompt (cwd s) # ms"] exI [of _ "None :: (node \<times> _) option"])
          next
            case False
            have "holds pf cs (data ?s) t n" using Cons.prems(1) by simp
            from put_file_step [OF this, of os src ?path img] False obtain d msg t' n' h' where
              run: "put_file os pf img ?path src ?s = (Ok (), ?s\<lparr>data := d, host := h', out := out ?s @ [msg]\<rparr>)"
                "put_step os img pf cs t n (host s) ?path src msg t' n' h'" "holds pf cs d t' n'" by auto
            let ?u = "?s\<lparr>data := d, host := h', out := out ?s @ [msg]\<rparr>"
            have "shell_command os pf img cmd ps ?s = (Ok True, ?u)"
              unfolding put ps using run(1) by (intro put_command) simp
            from after [OF this] show ?thesis
            proof (rule go [of _ "[msg]"])
              show "session os img pf cs t n (cwd s) (host s) (t0 # ts) (Prompt (cwd s) # [msg] @ ms') w"
                if "session os img pf cs t' n' (cwd ?u) (host ?u) ts ms' w" for ms' w
                using session.put [OF words run(2)] that by (simp add: t0)
            qed (use Cons.prems run(3) in simp_all)
          qed
        qed
      qed
    qed
  qed
qed

subsection \<open>Property\<close>

text \<open>C6: a session is a session on the tree. On an image that stores a tree in tidy directories, every session of
  the shell prints what the abstract shell prints: reading commands look the tree up, each \<^verbatim>\<open>put\<close> is refused as
  the tree says, or fails for want of space and leaves the tree, or updates it and hands the host an image
  that holds the new tree. Without a hazard the session runs to its end, and the image in memory
  then holds the final tree.\<close>

theorem shell_refines_tree:
  assumes "image_tree (data s) m L" "tidy m L" "max_cluster_number pf m = Ok mx" "mx < 0x0FFFFFF8"
  shows "\<exists>ms w r s'. run_shell os pf img ts s = (r, s') \<and> out s' = out s @ Banner # ms
    \<and> session os img pf (m_cluster_size m) (tree_of m L) (length (free_clusters m mx)) [slash] (host s) ts ms w
    \<and> (case w of None \<Rightarrow> True
       | Some (t', h') \<Rightarrow> r = Ok () \<and> host s' = h' \<and> (\<exists>n'. holds pf (m_cluster_size m) (data s') t' n'))"
proof -
  let ?s = "s\<lparr>cwd := [slash], out := out s @ [Banner]\<rparr>"
  have "holds pf (m_cluster_size m) (data ?s) (tree_of m L) (length (free_clusters m mx))"
    using assms unfolding holds_def by auto
  from session_loop [OF this, of os img ts] obtain ms w r s' where "shell_loop os pf img ts ?s = (r, s')" "out s' = out ?s @ ms"
    "session os img pf (m_cluster_size m) (tree_of m L) (length (free_clusters m mx)) [slash] (host s) ts ms w"
    "case w of None \<Rightarrow> True
       | Some (t', h') \<Rightarrow> r = Ok () \<and> host s' = h' \<and> (\<exists>n'. holds pf (m_cluster_size m) (data s') t' n')" by auto
  then show ?thesis
    by (intro exI [of _ ms] exI [of _ w] exI [of _ r] exI [of _ s']) (simp add: run_shell_def say_def)
qed

text \<open>Storing a file over a directory is refused, and that is all.\<close>

lemma shell_refines_tree_witness:
  "\<exists>s'. run_shell (host_with (bytes ''NEW!'')) Debug (bytes ''disk.img'') [Line (bytes ''put dir new''), End_of_input] at_root = (Ok (), s')
    \<and> out s' = [Banner, Prompt [slash], Put_failed (bytes ''/dir'') NotAFile, Prompt [slash]]"
proof -
  let ?os = "host_with (bytes ''NEW!'')" and ?t = "tree_of test_volume test_layout" and ?path = "bytes ''/dir''"
  let ?ts = "[Line (bytes ''put dir new''), End_of_input]"
  have words: "split_whitespace (bytes ''put dir new'') = [bytes ''put'', bytes ''dir'', bytes ''new'']"
    "resolve_path [slash] (bytes ''dir'') = ?path" by code_simp+
  have path: "proper ?path" "components ?path = [bytes ''dir'']" "valid_8_3 (bytes ''dir'')"
    "normalize_name (bytes ''dir'') = bytes ''DIR''" "starts_with slash ?path" "\<not> odd_root ?path" by code_simp+
  have refused: "refusal ?t ?path = Some NotAFile"
    using test_names(5) by (simp add: refusal_def parent_names_def path tree_test)
  then have calm: "\<not> hazard 512 ?t n ?path content" for n content
    using path by (simp add: hazard_def parent_names_def)
  have src: "os_read ?os (bytes ''new'') () = Some (bytes ''NEW!'')" by (simp add: host_with_def)
  have img: "image_tree (data at_root) test_volume test_layout" using image_tree_test by (simp add: at_root_def)
  have start: "out at_root = []" "host at_root = ()" "m_cluster_size test_volume = 512"
    "length (free_clusters test_volume 9) = 5"
    by (simp_all add: at_root_def free_clusters_test_volume)
  obtain ms w r s' where run: "run_shell ?os Debug (bytes ''disk.img'') ?ts at_root = (r, s')" "out s' = Banner # ms"
    and ses: "session ?os (bytes ''disk.img'') Debug 512 ?t 5 [slash] () ?ts ms w"
    and fin: "case w of None \<Rightarrow> True
       | Some (t', h') \<Rightarrow> r = Ok () \<and> host s' = h' \<and> (\<exists>n'. holds Debug 512 (data s') t' n')"
    using shell_refines_tree [OF img tidy_test test_volume_max_cluster,
      where os = ?os and img = "bytes ''disk.img''" and pf = Debug and ts = ?ts]
    unfolding start by auto
  have "ms = [Prompt [slash], Put_failed ?path NotAFile, Prompt [slash]] \<and> w \<noteq> None"
    using ses
  proof (cases rule: session_lineE)
  qed (use words calm refused put_words src in \<open>auto elim!: put_stepE session_endE\<close>)
  with run fin show ?thesis by auto
qed

end
