(* ===== verification/Write_Mirror.thy ===== *)
theory Write_Mirror
  imports Write_Frame
begin

text \<open>
  The copies of the table. A write keeps them equal, whatever it returns: an error half way leaves no
  entry written in one copy and not in another. The one thing it relies on is that the chain it
  releases lies in the table; the driver does not check that, and the last lemma shows what it does to
  a chain that does not.
\<close>

definition mirror_same :: "fat32_mut \<Rightarrow> fat32_mut \<Rightarrow> bool" where
  "mirror_same m m' \<longleftrightarrow> same_shape m m' \<and> (mounted m \<and> mirrored m \<longrightarrow> mirrored m')"

lemma mirror_put_bytes:
  assumes "m_data_start_byte m \<le> off"
  shows "mirror_same m (snd (put_bytes off ys m))"
proof (cases "off + length ys \<le> length (m_disk m)")
  case True
  let ?m' = "m\<lparr>m_disk := patch (m_disk m) off ys\<rparr>"
  have put: "put_bytes off ys m = (Ok (), ?m')" using True by (rule put_bytes_Ok)
  have shape: "same_shape m ?m'" using keepsD [OF put_bytes_shape put] .
  have "copy_val ?m' i c = copy_val m i c" if "has_entry m c" "i < unat (m_num_fats m)" for i c
  proof -
    have "window (m_disk ?m') (cell m i c) 4 = window (m_disk m) (cell m i c) 4"
      using True cell_in_fat(2,3) [OF that] assms by (simp add: window_patch_disjoint)
    then show ?thesis by (simp add: copy_val_def cell_same_shape [OF shape])
  qed
  moreover have "fat_val ?m' c = fat_val m c" if "has_entry m c" for c
    unfolding fat_val_def using that by (intro calculation) (simp_all add: has_entry_def)
  ultimately have "mirrored m \<Longrightarrow> mirrored ?m'"
    unfolding mirrored_def has_entry_same_shape [OF shape] same_shapeD(6) [OF shape] by metis
  with put shape show ?thesis by (simp add: mirror_same_def)
next
  case False
  then show ?thesis by (simp add: put_bytes_def copy_into_def mirror_same_def)
qed

lemma mirror_alloc_chain: "mirror_same m (snd (alloc_chain pf k m))"
proof (cases "alloc_chain pf k m")
  case (Pair r m')
  have "same_shape m m'" using keepsD [OF alloc_chain_shape Pair] .
  with Pair alloc_chain_frame [of m pf k r m'] show ?thesis by (auto simp: mirror_same_def fat_frame_def)
qed

interpretation mirror: write_frame mirror_same
proof unfold_locales
  show "mirror_same a b \<Longrightarrow> mirror_same b c \<Longrightarrow> mirror_same a c" for a b c
    by (auto simp: mirror_same_def mounted_same_shape intro: same_shape_trans)
  show "mirror_same m (snd (put_bytes off ys m))" if "m_data_start_byte m \<le> off" for m off ys
    using that by (rule mirror_put_bytes)
  show "mirror_same m (snd (alloc_chain pf k m))" for m pf k by (rule mirror_alloc_chain)
qed (simp_all add: mirror_same_def)

subsection \<open>Releasing a chain\<close>

text \<open>Every cluster the driver follows from \<open>c\<close> has an entry in the table.\<close>

definition chain_inside :: "fat32_mut \<Rightarrow> u32 \<Rightarrow> bool" where
  "chain_inside m c = (case m_follow_chain m c 4096 of Ok cs \<Rightarrow> list_all (has_entry m) cs | _ \<Rightarrow> True)"

lemma mirror_free_chain:
  assumes "chain_inside m c"
  shows "mirror_same m (snd (free_chain c m))"
proof -
  have "fat_frame m (snd (free_loop cs m))" if "m_follow_chain m c 4096 = Ok cs" for cs
  proof -
    have "\<And>d. d \<in> set cs \<Longrightarrow> has_entry m d" using assms that by (simp add: chain_inside_def list_all_iff)
    with fat.clear_all [of cs m] show ?thesis by auto
  qed
  then have "mirror_same m (snd (free_loop cs m))" if "m_follow_chain m c 4096 = Ok cs" for cs
    using that by (simp add: mirror_same_def fat_frame_def outside_fat_shape)
  then show ?thesis
    by (auto simp: free_chain_def mirror.refl intro!: mirror.sget_frame)
qed

subsection \<open>A volume with two copies\<close>

text \<open>
  Two data clusters: the root directory, which lists a file \<^verbatim>\<open>A\<close>, and the cluster of the file.
\<close>

definition two_copies_writes :: "(nat \<times> u8 list) list" where
  "two_copies_writes =
     [(12, [2]), (13, [1]), (14, [1]), (16, [2]), (36, [1]), (44, [2]),
      (520, [0xFF, 0xFF, 0xFF, 0x0F]), (524, [0xFF, 0xFF, 0xFF, 0x0F]),
      (1032, [0xFF, 0xFF, 0xFF, 0x0F]), (1036, [0xFF, 0xFF, 0xFF, 0x0F]),
      (1536, [0x41, 0x20, 0x20, 0x20, 0x20, 0x20, 0x20, 0x20, 0x20, 0x20, 0x20, 0x20, 0, 0, 0, 0,
              0, 0, 0, 0, 0, 0, 0, 0, 0, 0, 3, 0, 1, 0, 0, 0]),
      (2048, [0x61])]"

definition two_copies :: fat32_mut where
  "two_copies =
     \<lparr>m_disk = patch_all two_copies_writes (replicate 2560 0), m_bytes_per_sector = 512,
      m_sectors_per_cluster = 1, m_reserved_sectors = 1, m_num_fats = 2, m_sectors_per_fat = 1,
      m_root_cluster = 2\<rparr>"

lemma two_copies_in_bounds: "list_all (\<lambda>p. fst p + length (snd p) \<le> 2560) two_copies_writes"
  by (simp add: two_copies_writes_def)

lemma two_copies_disk: "m_disk two_copies = patch_all two_copies_writes (replicate 2560 0)"
  by (simp add: two_copies_def)

lemma two_copies_geometry [simp]:
  "length (m_disk two_copies) = 2560" "m_num_fats two_copies = 2" "m_root_cluster two_copies = 2"
  "m_cluster_size two_copies = 512" "m_fat_start_byte two_copies = 512"
  "fat_bytes_len two_copies = 512" "m_data_start_byte two_copies = 1536"
  using length_patch_all [of "replicate 2560 0" two_copies_writes] two_copies_in_bounds
  by (simp_all add: two_copies_def m_cluster_size_def m_fat_start_byte_def fat_bytes_len_def
      m_data_start_byte_def m_bytes_per_sector_usize_def)

lemma window_two_copies:
  "list_all (\<lambda>p. clear_of b n p \<or> within b n p) two_copies_writes \<Longrightarrow> b + n \<le> 2560 \<Longrightarrow>
     window (m_disk two_copies) b n = patch_all (in_window b n two_copies_writes) (replicate n 0)"
  using window_patch_all [of "replicate 2560 0" two_copies_writes b n] two_copies_in_bounds
  by (simp add: two_copies_disk window_replicate)

lemmas two_copies_eval = clear_of_def within_def in_window_def two_copies_writes_def

lemma nth_two_copies:
  "i < 2560 \<Longrightarrow> list_all (\<lambda>p. clear_of i 1 p \<or> within i 1 p) two_copies_writes \<Longrightarrow>
     m_disk two_copies ! i = patch_all (in_window i 1 two_copies_writes) [0] ! 0"
  using window_two_copies [of i 1] nth_window [of 0 1 i "m_disk two_copies"] by simp

lemma mount_two_copies: "fat32_mut_new (m_disk two_copies) = Ok two_copies"
proof -
  let ?d = "m_disk two_copies"
  have "?d ! 11 = 0" "?d ! 12 = 2" "?d ! 13 = 1" "?d ! 14 = 1" "?d ! 15 = 0" "?d ! 16 = 2"
    "?d ! 36 = 1" "?d ! 37 = 0" "?d ! 38 = 0" "?d ! 39 = 0" "?d ! 44 = 2" "?d ! 45 = 0" "?d ! 46 = 0"
    "?d ! 47 = 0"
    by (simp_all add: nth_two_copies two_copies_eval patch_def)
  then show ?thesis
    by (simp add: fat32_mut_new_def parse_bpb_def Let_def u16_from_le_def u32_from_le_def)
      (simp add: two_copies_def)
qed

lemma mounted_two_copies [simp]: "mounted two_copies"
  using fat32_mut_new_mounted [OF mount_two_copies] by simp

lemma two_copies_table:
  "window (m_disk two_copies) 1024 512 = window (m_disk two_copies) 512 512"
  by (simp add: window_two_copies two_copies_eval)

lemma mirrored_two_copies: "mirrored two_copies"
proof -
  have "copy_val two_copies i c = fat_val two_copies c" if "has_entry two_copies c" "i < 2" for i c
  proof -
    have c: "4 * unat c + 4 \<le> 512" using that(1) by (simp add: has_entry_def)
    have sub: "window (m_disk two_copies) (a + 4 * unat c) 4 = window (window (m_disk two_copies) a 512) (4 * unat c) 4" for a
      using c by (simp add: window_window)
    have "cell two_copies i c = (if i = 0 then 512 else 1024) + 4 * unat c" using that(2) by (auto simp: cell_def less_2_cases_iff)
    then show ?thesis by (simp add: copy_val_def fat_val_def cell_def sub two_copies_table)
  qed
  then show ?thesis by (simp add: mirrored_def)
qed

subsection \<open>Properties\<close>

text \<open>C10: The copies of the table stay equal: whatever a write returns, if every copy agreed with the first
  before, every copy does after, provided the chain of the file it replaces, if there is one, lies in
  the table.\<close>

theorem write_keeps_mirrored:
  assumes "mounted m" "mirrored m" "pred_option (chain_inside m) (overwritten path m)"
    and "write_file_by_path pf path content m = (r, m')"
  shows "mounted m' \<and> mirrored m'"
proof -
  have "mirror_same m (snd (write_file_by_path pf path content m))"
    using assms(3) by (intro mirror.write_file_frame mirror_free_chain) simp
  with assms show ?thesis by (auto simp: mirror_same_def intro: mounted_same_shape)
qed

lemma two_copies_entries:
  "window (m_disk two_copies) 520 4 = [0xFF, 0xFF, 0xFF, 0x0F]"
  "window (m_disk two_copies) 524 4 = [0xFF, 0xFF, 0xFF, 0x0F]"
  "window (m_disk two_copies) 1032 4 = [0xFF, 0xFF, 0xFF, 0x0F]"
proof -
  have "replicate 4 (0 :: u8) = [0, 0, 0, 0]" by (simp add: numeral_eq_Suc)
  then show "window (m_disk two_copies) 520 4 = [0xFF, 0xFF, 0xFF, 0x0F]"
    "window (m_disk two_copies) 524 4 = [0xFF, 0xFF, 0xFF, 0x0F]"
    "window (m_disk two_copies) 1032 4 = [0xFF, 0xFF, 0xFF, 0x0F]"
    by (simp_all add: window_two_copies two_copies_eval patch_def)
qed

lemma two_copies_follow: "m_follow_chain two_copies c 4096 = Ok [c]" if "c \<in> {2, 3, 130}"
proof -
  have "m_read_fat_entry two_copies c = Ok 0x0FFFFFFF"
    using that by (auto simp: m_read_fat_entry_def get_slice_Ok two_copies_entries u32_from_le_def)
  then have "m_follow_loop two_copies (Suc n) c [] = Ok [c]" for n by simp
  from this [of 4095] that show ?thesis by (auto simp: m_follow_chain_def)
qed

lemma two_copies_file:
  "window (m_disk two_copies) 1536 32 = [0x41, 0x20, 0x20, 0x20, 0x20, 0x20, 0x20, 0x20, 0x20, 0x20, 0x20, 0x20,
     0, 0, 0, 0, 0, 0, 0, 0, 0, 0, 0, 0, 0, 0, 3, 0, 1, 0, 0, 0]"
  by (simp add: window_two_copies two_copies_eval patch_def)

lemma two_copies_path:
  "split_parent (bytes ''/A'') = Ok ([slash], bytes ''A'')"
  "encode_short_name_8_3 (bytes ''A'') = Ok (bytes ''A       '', bytes ''   '')"
  by code_simp+

lemma overwritten_two_copies: "overwritten (bytes ''/A'') two_copies = Some 3"
proof -
  let ?c = "window (m_disk two_copies) 1536 32"
  define rest where "rest = chunks 32 (drop 32 (window (m_disk two_copies) 1536 512))"
  have chunks: "chunks 32 (window (m_disk two_copies) 1536 512) = ?c # rest"
    unfolding rest_def by (subst chunks.simps) (simp add: window_def min_def)
  have c: "length ?c = 32" "?c ! 0 = 0x41" "window ?c 0 8 = bytes ''A       ''" "window ?c 8 3 = bytes ''   ''"
    unfolding two_copies_file by code_simp+
  have "map_option e_first_cluster (parse ?c) = Some 3" unfolding two_copies_file by code_simp
  then obtain e where e: "parse ?c = Some e" "e_first_cluster e = 3" by auto
  have "find_dir_entry_offset_by_short_name two_copies 2 (bytes ''A       '') (bytes ''   '') = Ok (Some 1536, Some e)"
    using chunks c e(1) by (simp add: find_dir_entry_offset_by_short_name_def two_copies_follow m_cluster_to_offset_def
        Let_def get_slice_Ok)
  with overwrittenI [OF two_copies_path, of two_copies 2] e(2) show ?thesis
    by (simp add: parent_cluster_def)
qed

theorem write_keeps_mirrored_witness:
  "mirrored two_copies \<and> overwritten (bytes ''/A'') two_copies = Some 3
    \<and> mirrored (snd (write_file_by_path Release (bytes ''/A'') [1, 2] two_copies))"
proof -
  have "chain_inside two_copies 3" by (simp add: chain_inside_def two_copies_follow has_entry_def)
  with write_keeps_mirrored [OF mounted_two_copies mirrored_two_copies, of "bytes ''/A''" Release "[1, 2]"] show ?thesis
    by (cases "write_file_by_path Release (bytes ''/A'') [1, 2] two_copies")
      (simp add: overwritten_two_copies mirrored_two_copies)
qed

text \<open>
  A chain outside the table, as a damaged directory entry may name one: the first cluster is 130 and
  the table has 128 entries. The driver reads the entry of cluster 2 in the second copy for it, releases
  it there, and clears four bytes of the root directory, the extension and the attributes of its first entry.
\<close>

lemma release_outside_run:
  "\<exists>m'. free_chain 130 two_copies = (Ok (), m') \<and> window (m_disk m') 520 4 = [0xFF, 0xFF, 0xFF, 0x0F]
    \<and> window (m_disk m') 1032 4 = [0, 0, 0, 0] \<and> window (m_disk m') 1544 4 = [0, 0, 0, 0]"
proof -
  let ?z = "[0, 0, 0, 0] :: u8 list"
  let ?d1 = "patch (m_disk two_copies) 1032 ?z"
  let ?m2 = "two_copies\<lparr>m_disk := patch ?d1 1544 ?z\<rparr>"
  have "write_fat_entry_all 130 0 two_copies = (Ok (), ?m2)"
    by (simp add: write_fat_entry_all_def Let_def put_bytes_Ok u32_to_le_eval upt_rec)
  then have run: "free_chain 130 two_copies = (Ok (), ?m2)"
    by (simp add: free_chain_def two_copies_follow)
  have put: "window (patch d a ?z) a 4 = ?z" if "a + 4 \<le> length d" for d a
    using window_patch_same [of a ?z d] that by (simp add: numeral_eq_Suc)
  have "window (m_disk ?m2) 1032 4 = ?z" "window (m_disk ?m2) 520 4 = [0xFF, 0xFF, 0xFF, 0x0F]"
    "window (m_disk ?m2) 1544 4 = ?z"
    using put [of 1032 "m_disk two_copies"] put [of 1544 ?d1]
    by (simp_all add: window_patch_disjoint two_copies_entries)
  with run show ?thesis by blast
qed

lemma release_outside_table:
  "\<exists>m'. free_chain 130 two_copies = (Ok (), m') \<and> \<not> mirrored m' \<and> window (m_disk m') 1544 4 = [0, 0, 0, 0]"
proof -
  obtain m' where run: "free_chain 130 two_copies = (Ok (), m')"
    and disk: "window (m_disk m') 520 4 = [0xFF, 0xFF, 0xFF, 0x0F]" "window (m_disk m') 1032 4 = [0, 0, 0, 0]"
      "window (m_disk m') 1544 4 = [0, 0, 0, 0]"
    using release_outside_run by blast
  have shape: "same_shape two_copies m'" using keepsD [OF free_chain_shape run] .
  have "copy_val m' 1 2 \<noteq> fat_val m' 2"
    using disk by (simp add: copy_val_def fat_val_def cell_def same_shapeD [OF shape] u32_from_le_def)
  moreover have "has_entry m' 2" "1 < unat (m_num_fats m')"
    by (simp_all add: has_entry_same_shape [OF shape] has_entry_def same_shapeD [OF shape])
  ultimately have "\<not> mirrored m'" unfolding mirrored_def by blast
  with run disk(3) show ?thesis by blast
qed

end
