(* ===== verification/Cli_Text.thy ===== *)
theory Cli_Text
  imports Cli_Facts
begin

text \<open>
  The two texts the tool prints, its usage and the help of the shell, and that the help names the commands
  the shell knows.
\<close>

abbreviation e_acute :: rstr where "e_acute \<equiv> [0xC3, 0xA9]"

definition print_usage :: rstr where
  "print_usage = join [0x0A]
     [bytes ''Usage:'',
      bytes ''  fat32_cli --file <disk.img> [--ls <path>] [--cat <path>] [--put <fat_path> <host_file>]'',
      [],
      bytes ''Exemples:'',
      bytes ''  fat32_cli --file disk.img --ls /'',
      bytes ''  fat32_cli --file disk.img --cat /HELLO.TXT'',
      bytes ''  fat32_cli --file disk.img --put /NEW.TXT ./local.txt'',
      [],
      bytes ''Mode shell:'',
      bytes ''  fat32_cli --file disk.img'',
      bytes ''  (puis: ls, cd, cat, put, pwd, help, exit)''] @ [0x0A]"

definition print_shell_help :: rstr where
  "print_shell_help = join [0x0A]
     [bytes ''Commandes:'',
      bytes ''  ls [path]            - lister un r'' @ e_acute @ bytes ''pertoire'',
      bytes ''  cat <path>           - lire un fichier'',
      bytes ''  cd [path]            - changer de r'' @ e_acute @ bytes ''pertoire courant'',
      bytes ''  put <fat_path> <src> - '' @ e_acute @ bytes ''crire un fichier dans l'' @ [0x27] @ bytes ''image (persistant)'',
      bytes ''  pwd                  - afficher le r'' @ e_acute @ bytes ''pertoire courant'',
      bytes ''  help                 - cette aide'',
      bytes ''  exit                 - quitter''] @ [0x0A]"

text \<open>The first words of the lines of the help after its title.\<close>

definition help_commands :: "rstr list" where
  "help_commands = map (\<lambda>l. takeWhile (\<lambda>b. b \<noteq> space) (dropWhile (\<lambda>b. b = space) l))
     (filter (\<lambda>l. l \<noteq> []) (tl (split_on 0x0A print_shell_help)))"

lemma help_commands_eq: "help_commands = map bytes [''ls'', ''cat'', ''cd'', ''put'', ''pwd'', ''help'', ''exit'']"
  by code_simp

text \<open>
  The help is complete but for \<^verbatim>\<open>quit\<close>, a second name of \<^verbatim>\<open>exit\<close>: every other word is answered as an
  unknown command, and nothing else happens.
\<close>

theorem help_is_complete:
  assumes "cmd \<notin> set help_commands" "cmd \<noteq> bytes ''quit''"
  shows "shell_command os pf img cmd parts s = (Ok True, s\<lparr>out := out s @ [Unknown_command cmd]\<rparr>)"
  using assms by (simp add: help_commands_eq shell_command_def shell_action_def say_def)

lemma help_is_complete_witness:
  "shell_command (host_with []) Debug (bytes ''disk.img'') (bytes ''rm'') [] at_root
    = (Ok True, at_root\<lparr>out := [Unknown_command (bytes ''rm'')]\<rparr>)"
proof -
  have "bytes ''rm'' \<notin> set help_commands" "bytes ''rm'' \<noteq> bytes ''quit''" unfolding help_commands_eq by code_simp+
  from help_is_complete [OF this, where s = at_root and os = "host_with []" and pf = Debug and parts = "[]"] show ?thesis by (simp add: at_root_def)
qed

text \<open>And the words it names are known: \<^verbatim>\<open>help\<close> prints it, \<^verbatim>\<open>exit\<close> and \<^verbatim>\<open>quit\<close> leave.\<close>

lemma leaving: "cmd \<in> {bytes ''exit'', bytes ''quit''} \<Longrightarrow> shell_command os pf img cmd parts s = (Ok False, s)"
  by (auto simp: shell_command_def)

end
