(* ===== verification/Slab.thy ===== *)
theory Slab
  imports Prelude
begin

text \<open>
  The slab allocator, from \<^verbatim>\<open>slaballoc/src/allocator.rs\<close> and \<^verbatim>\<open>slaballoc/src/util.rs\<close>. An address is a
  64-bit word and the memory a map from addresses to bytes; a pointer that may be absent,
  \<^verbatim>\<open>Option<NonNull<_>>\<close>, is stored as its address, with 0 for \<^verbatim>\<open>None\<close>. A free block holds the address of
  the next one in its first eight bytes.
\<close>

subsection \<open>Memory\<close>

type_synonym memory = "u64 \<Rightarrow> u8"

text \<open>\<open>fill_bytes a n f m\<close>: the \<open>n\<close> bytes from \<open>a\<close> on become \<open>f 0, f 1, \<dots>\<close>.\<close>

definition fill_bytes :: "u64 \<Rightarrow> nat \<Rightarrow> (nat \<Rightarrow> u8) \<Rightarrow> memory \<Rightarrow> memory" where
  "fill_bytes a n f m = (\<lambda>x. if unat (x - a) < n then f (unat (x - a)) else m x)"

definition read_bytes :: "memory \<Rightarrow> u64 \<Rightarrow> nat \<Rightarrow> u8 list" where
  "read_bytes m a n = map (\<lambda>i. m (a + word_of_nat i)) [0..<n]"

definition u64_to_le :: "u64 \<Rightarrow> u8 list" where
  "u64_to_le v = to_le 8 (unat v)"

definition u64_from_le :: "u8 list \<Rightarrow> u64" where
  "u64_from_le bs = word_of_nat (from_le bs)"

definition non_null :: "u64 \<Rightarrow> u64 option" where
  "non_null a = (if a = 0 then None else Some a)"

definition address_of :: "u64 option \<Rightarrow> u64" where
  "address_of p = (case p of None \<Rightarrow> 0 | Some a \<Rightarrow> a)"

text \<open>\<^verbatim>\<open>(*node).next\<close>, read and written.\<close>

definition read_next :: "memory \<Rightarrow> u64 \<Rightarrow> u64 option" where
  "read_next m node = non_null (u64_from_le (read_bytes m node 8))"

definition write_next :: "u64 \<Rightarrow> u64 option \<Rightarrow> memory \<Rightarrow> memory" where
  "write_next node p m = fill_bytes node 8 (\<lambda>i. u64_to_le (address_of p) ! i) m"

subsection \<open>Utilities\<close>

definition align_up :: "profile \<Rightarrow> u64 \<Rightarrow> u64 \<Rightarrow> (unit, u64) res" where
  "align_up pf x align =
     rbind (arith_add pf x align) (\<lambda>s.
     rbind (arith_sub pf s 1) (\<lambda>t.
     rbind (arith_sub pf align 1) (\<lambda>k.
       Ok (t AND NOT k))))"

definition is_power_of_two :: "u64 \<Rightarrow> bool" where
  "is_power_of_two x \<longleftrightarrow> x \<noteq> 0 \<and> x AND (x - 1) = 0"

subsection \<open>Layouts\<close>

text \<open>\<^verbatim>\<open>core::alloc::Layout\<close>, which can only be built with a power of two as alignment and a size that
  does not overflow \<^verbatim>\<open>isize\<close> when it is rounded up to it.\<close>

record layout =
  l_size :: u64
  l_align :: u64

definition valid_layout :: "layout \<Rightarrow> bool" where
  "valid_layout l \<longleftrightarrow> is_power_of_two (l_align l) \<and> unat (l_size l) + unat (l_align l) \<le> 2 ^ 63"

definition from_size_align :: "u64 \<Rightarrow> u64 \<Rightarrow> layout option" where
  "from_size_align sz align =
     (let l = \<lparr>l_size = sz, l_align = align\<rparr> in if valid_layout l then Some l else None)"

subsection \<open>The allocator\<close>

definition CHUNK_SIZE :: u64 where
  "CHUNK_SIZE = 4096"

definition SIZE_CLASSES :: "u64 list" where
  "SIZE_CLASSES = [8, 16, 32, 64, 128, 256, 512, 1024, 2048, 4096]"

text \<open>The allocator, a \<^verbatim>\<open>Cache\<close> being its \<^verbatim>\<open>head\<close>, and beside it the memory it writes to.\<close>

record slab_allocator =
  heap_start :: u64
  heap_end :: u64
  bump :: u64
  caches :: "u64 option list"
  initialized :: bool
  mem :: memory

definition cache_new :: "u64 option" where
  "cache_new = None"

lemma cache_new_None [simp]: "cache_new = None"
  by (simp add: cache_new_def)

definition slab_new :: "memory \<Rightarrow> slab_allocator" where
  "slab_new m =
     \<lparr>heap_start = 0, heap_end = 0, bump = 0, caches = replicate (length SIZE_CLASSES) cache_new,
      initialized = False, mem = m\<rparr>"

definition slab_default :: "memory \<Rightarrow> slab_allocator" where
  "slab_default m = slab_new m"

definition slab_init :: "profile \<Rightarrow> u64 \<Rightarrow> u64 \<Rightarrow> (slab_allocator, unit, unit) prog" where
  "slab_init pf start sz = (\<lambda>s.
     let s1 = s\<lparr>heap_start := start\<rparr> in
     case (arith_add pf start sz :: (unit, u64) res) of
       Ok e \<Rightarrow> (Ok (), s1\<lparr>heap_end := e, bump := start, initialized := True\<rparr>)
     | _ \<Rightarrow> (Panic, s1))"

text \<open>The loop of \<^verbatim>\<open>class_index_for\<close>, from class \<open>i\<close> on.\<close>

fun class_loop :: "nat \<Rightarrow> u64 list \<Rightarrow> u64 \<Rightarrow> nat option" where
  "class_loop i [] sz = None"
| "class_loop i (cls # rest) sz = (if sz \<le> cls then Some i else class_loop (Suc i) rest sz)"

definition class_index_for :: "layout \<Rightarrow> nat option" where
  "class_index_for l = class_loop 0 SIZE_CLASSES (max (l_size l) (l_align l))"

definition alloc_from_bump :: "profile \<Rightarrow> layout \<Rightarrow> (slab_allocator, unit, u64 option) prog" where
  "alloc_from_bump pf l =
     sbind (sget (\<lambda>s. debug_assert pf (initialized s))) (\<lambda>_.
     sbind (sget (\<lambda>s. debug_assert pf (is_power_of_two (l_align l)))) (\<lambda>_.
     sbind (sget (\<lambda>s. align_up pf (bump s) (l_align l))) (\<lambda>start s.
       if unat start + unat (l_size l) < 2 ^ 64 then
         (let ende = start + l_size l in
          if heap_end s < ende then (Ok None, s)
          else (Ok (non_null start),
                s\<lparr>bump := ende, mem := fill_bytes start (unat (l_size l)) (\<lambda>_. 0) (mem s)\<rparr>))
       else (Ok None, s))))"

text \<open>Pushing a block on the free list of a class, and taking the head off it.\<close>

definition push_block :: "nat \<Rightarrow> u64 \<Rightarrow> slab_allocator \<Rightarrow> slab_allocator" where
  "push_block idx node s =
     s\<lparr>mem := write_next node (caches s ! idx) (mem s), caches := (caches s)[idx := non_null node]\<rparr>"

definition pop_block :: "nat \<Rightarrow> (slab_allocator, unit, u64) prog" where
  "pop_block idx s =
     (case caches s ! idx of
        None \<Rightarrow> (Ok 0, s)
      | Some h \<Rightarrow> (Ok h, s\<lparr>caches := (caches s)[idx := read_next (mem s) h]\<rparr>))"

text \<open>
  The loop that cuts a chunk into blocks. \<open>None\<close> means that it does not end: with wrapping arithmetic
  it would not for a chunk at the very top of the address space.
\<close>

partial_function (option) refill_loop ::
  "profile \<Rightarrow> nat \<Rightarrow> u64 \<Rightarrow> u64 \<Rightarrow> u64 \<Rightarrow> slab_allocator \<Rightarrow> ((unit, bool) res \<times> slab_allocator) option"
where
  "refill_loop pf idx block_size chunk_end off s =
     (case arith_add pf off block_size of
        Ok e \<Rightarrow>
          if e \<le> chunk_end then refill_loop pf idx block_size chunk_end e (push_block idx off s)
          else Some (Ok True, s)
      | Err u \<Rightarrow> Some (Err u, s)
      | Panic \<Rightarrow> Some (Panic, s))"

definition refill_cache ::
  "profile \<Rightarrow> nat \<Rightarrow> slab_allocator \<Rightarrow> ((unit, bool) res \<times> slab_allocator) option" where
  "refill_cache pf idx s =
     (let block_size = SIZE_CLASSES ! idx in
      case from_size_align CHUNK_SIZE CHUNK_SIZE of
        None \<Rightarrow> Some (Ok False, s)
      | Some chunk_layout \<Rightarrow>
          (case alloc_from_bump pf chunk_layout s of
             (Ok None, s1) \<Rightarrow> Some (Ok False, s1)
           | (Ok (Some chunk), s1) \<Rightarrow>
               (case arith_add pf chunk CHUNK_SIZE of
                  Ok chunk_end \<Rightarrow> refill_loop pf idx block_size chunk_end chunk s1
                | Err u \<Rightarrow> Some (Err u, s1)
                | Panic \<Rightarrow> Some (Panic, s1))
           | (Err u, s1) \<Rightarrow> Some (Err u, s1)
           | (Panic, s1) \<Rightarrow> Some (Panic, s1)))"

definition slab_alloc ::
  "profile \<Rightarrow> layout \<Rightarrow> slab_allocator \<Rightarrow> ((unit, u64) res \<times> slab_allocator) option" where
  "slab_alloc pf l s =
     (if \<not> initialized s then Some (Ok 0, s)
      else
        case class_index_for l of
          Some idx \<Rightarrow>
            if caches s ! idx = None then
              (case refill_cache pf idx s of
                 None \<Rightarrow> None
               | Some (Ok refilled, s1) \<Rightarrow> if \<not> refilled then Some (Ok 0, s1) else Some (pop_block idx s1)
               | Some (Err u, s1) \<Rightarrow> Some (Err u, s1)
               | Some (Panic, s1) \<Rightarrow> Some (Panic, s1))
            else Some (pop_block idx s)
        | None \<Rightarrow> Some (sbind (alloc_from_bump pf l) (\<lambda>p. sret (address_of p)) s))"

definition slab_dealloc :: "u64 \<Rightarrow> layout \<Rightarrow> slab_allocator \<Rightarrow> slab_allocator" where
  "slab_dealloc ptr l s =
     (if ptr = 0 \<or> \<not> initialized s then s
      else case class_index_for l of Some idx \<Rightarrow> push_block idx ptr s | None \<Rightarrow> s)"

subsection \<open>Aligning\<close>

lemma u64_le_roundtrip [simp]: "u64_from_le (u64_to_le v) = v"
  using unsigned_less [of v, where ?'a = nat] by (simp add: u64_from_le_def u64_to_le_def le_simps)

lemma length_u64_to_le [simp]: "length (u64_to_le v) = 8"
  by (simp add: u64_to_le_def)

lemma non_null_address [simp]: "p \<noteq> Some 0 \<Longrightarrow> non_null (address_of p) = p"
  by (cases p) (auto simp: non_null_def address_of_def)

lemma address_non_null [simp]: "address_of (non_null a) = a"
  by (simp add: non_null_def address_of_def)

lemma add64: "unat x + unat y < 2 ^ 64 \<Longrightarrow> unat (x + y :: u64) = unat x + unat y"
  by (rule unat_add_no_wrap) simp

lemma add64_Ok: "unat x + unat y < 2 ^ 64 \<Longrightarrow> arith_add pf x y = (Ok (x + y) :: (unit, u64) res)"
  by (rule arith_add_no_wrap) simp

lemma unat_exp: "k < 64 \<Longrightarrow> unat (2 ^ k :: u64) = 2 ^ k"
proof -
  assume "k < 64"
  then have "(2 :: nat) ^ k < 2 ^ 64" by (intro power_strict_increasing) auto
  moreover have "(2 ^ k :: u64) = word_of_nat (2 ^ k)" by simp
  ultimately show ?thesis by (simp only: unat_of_nat) simp
qed

lemma bit_between: "2 ^ k \<le> n \<Longrightarrow> n < 2 ^ Suc k \<Longrightarrow> bit (n :: nat) k"
proof -
  assume "2 ^ k \<le> n" "n < 2 ^ Suc k"
  then have "n div 2 ^ k = 1" by (intro div_nat_eqI) auto
  then show ?thesis by (simp add: bit_iff_odd)
qed

lemma is_power_of_two_exp: "is_power_of_two x \<longleftrightarrow> (\<exists>k<64. x = 2 ^ k)"
proof
  assume x: "is_power_of_two x"
  then have pos: "1 \<le> unat x" by (simp add: is_power_of_two_def unat_gt_0 Suc_le_eq)
  obtain k where k: "2 ^ k \<le> unat x" "unat x < 2 ^ (k + 1)"
    using ex_power_ivl1 [of 2 "unat x"] pos by auto
  have "(2 :: nat) ^ k < 2 ^ 64" using k(1) unsigned_less [of x, where ?'a = nat] by simp
  then have k64: "k < 64" by (rule power_less_imp_less_exp [rotated]) simp
  have sub: "unat (x - 1) = unat x - 1"
    using pos by (simp add: unat_sub word_le_nat_alt)
  have "unat x = 2 ^ k"
  proof (rule ccontr)
    assume "unat x \<noteq> 2 ^ k"
    then have "bit (unat x) k" "bit (unat (x - 1)) k"
      using k sub by (auto intro!: bit_between)
    then have "bit (x AND (x - 1)) k" by (simp add: bit_simps k64)
    with x show False by (simp add: is_power_of_two_def)
  qed
  then have "x = 2 ^ k" using unat_exp [OF k64] by (simp add: word_unat_eq_iff)
  with k64 show "\<exists>k<64. x = 2 ^ k" by blast
next
  assume "\<exists>k<64. x = 2 ^ k"
  then obtain k where k: "k < 64" "x = 2 ^ k" by blast
  have "x \<noteq> 0" using unat_exp [OF k(1)] k by auto
  moreover have "x AND (x - 1) = 0"
    unfolding k(2) by (rule bit_word_eqI) (auto simp: mask_eq_exp_minus_1 [symmetric] bit_simps)
  ultimately show "is_power_of_two x" by (simp add: is_power_of_two_def)
qed

lemma unat_clear_low:
  assumes "k < 64"
  shows "unat ((t :: u64) AND NOT (2 ^ k - 1)) = 2 ^ k * (unat t div 2 ^ k)"
proof -
  have "t AND NOT (2 ^ k - 1) = push_bit k (drop_bit k t)"
    unfolding mask_eq_exp_minus_1 [symmetric] by (rule bit_word_eqI) (auto simp: bit_simps)
  moreover have "2 ^ k * (unat t div 2 ^ k) < 2 ^ 64"
    using unsigned_less [of t, where ?'a = nat] by (intro le_less_trans [OF times_div_less_eq_dividend]) simp
  moreover have "unat (push_bit k (drop_bit k t)) = take_bit LENGTH(64) (push_bit k (drop_bit k (unat t)))"
    by (simp only: unsigned_push_bit_eq unat_drop_bit_eq)
  moreover have "push_bit k (drop_bit k (unat t)) = 2 ^ k * (unat t div 2 ^ k)"
    by (simp add: push_bit_eq_mult drop_bit_eq_div)
  ultimately show ?thesis by (simp add: take_bit_nat_eq_self)
qed

lemma align_up_value:
  assumes "k < 64" "unat x + 2 ^ k < 2 ^ 64"
  shows "\<exists>y. align_up pf x (2 ^ k) = Ok y \<and> unat y = 2 ^ k * ((unat x + 2 ^ k - 1) div 2 ^ k)"
proof -
  have add: "arith_add pf x (2 ^ k) = (Ok (x + 2 ^ k) :: (unit, u64) res)"
    and sum: "unat (x + 2 ^ k) = unat x + 2 ^ k"
    using assms unat_exp [OF assms(1)] by (simp_all add: arith_add_no_wrap unat_add_no_wrap)
  have "(1 :: nat) \<le> 2 ^ k" "unat (1 :: u64) = 1" by simp_all
  then have one: "1 \<le> x + 2 ^ k" "(1 :: u64) \<le> 2 ^ k"
    using sum unat_exp [OF assms(1)] unfolding word_le_nat_alt by linarith+
  have "unat (x + 2 ^ k - 1) = unat x + 2 ^ k - 1" using one(1) sum by (simp add: unat_sub)
  then show ?thesis
    using add one unat_clear_low [OF assms(1), of "x + 2 ^ k - 1"]
    by (simp add: align_up_def arith_sub_no_wrap)
qed

lemma align_up_spec:
  assumes "is_power_of_two a" "unat x + unat a < 2 ^ 64"
  shows "\<exists>y. align_up pf x a = Ok y \<and> unat x \<le> unat y \<and> unat y < unat x + unat a \<and> unat a dvd unat y
    \<and> unat y = unat a * ((unat x + unat a - 1) div unat a)"
proof -
  obtain k where k: "k < 64" "a = 2 ^ k" using assms(1) by (auto simp: is_power_of_two_exp)
  note a = unat_exp [OF k(1)]
  obtain y where y: "align_up pf x a = Ok y" "unat y = 2 ^ k * ((unat x + 2 ^ k - 1) div 2 ^ k)"
    using align_up_value [OF k(1)] assms(2) k(2) a by auto
  define q :: nat where "q = 2 ^ k"
  have q: "0 < q" by (simp add: q_def)
  have "q * ((unat x + q - 1) div q) + (unat x + q - 1) mod q = unat x + q - 1" by simp
  moreover have "(unat x + q - 1) mod q < q" using q by simp
  ultimately have "unat x \<le> q * ((unat x + q - 1) div q)"
    "q * ((unat x + q - 1) div q) < unat x + q" using q by linarith+
  with y k(2) a show ?thesis by (simp add: q_def)
qed

end
