(* ===== verification/Slab_Heap.thy ===== *)
theory Slab_Heap
  imports Slab "HOL-Library.Multiset"
begin

text \<open>
  The heap of the slab allocator: what a free list is in memory, and the invariant that no two blocks
  overlap, whether free, handed out or being cut. Pushing, popping and taking memory from the bump
  region keep it.
\<close>

subsection \<open>Bytes of a block\<close>

lemma unat_minus_less:
  fixes a x :: u64
  assumes "unat a + n \<le> 2 ^ 64"
  shows "unat (x - a) < n \<longleftrightarrow> unat a \<le> unat x \<and> unat x < unat a + n"
proof (cases "a \<le> x")
  case True
  then show ?thesis by (auto simp: unat_sub word_le_nat_alt)
next
  case False
  then have lt: "unat x < unat a" by (simp add: word_le_nat_alt)
  have "unat (x - a) = 2 ^ 64 + unat x - unat a"
    using unat_sub_if_size [of x a] lt by (simp add: word_size)
  with lt assms show ?thesis by auto
qed

lemma unat_plus_offset:
  fixes a :: u64
  assumes "unat a + n \<le> 2 ^ 64" "i < n"
  shows "unat (a + word_of_nat i) = unat a + i"
proof -
  have "unat (word_of_nat i :: u64) = i" using assms by (simp add: unat_of_nat)
  with assms show ?thesis using unat_add_no_wrap [of a "word_of_nat i"] by simp
qed

text \<open>Blocks by start and length, and when two of them do not overlap.\<close>

type_synonym block = "nat \<times> nat"

definition apart :: "block \<Rightarrow> block \<Rightarrow> bool" where
  "apart b c \<longleftrightarrow> fst b + snd b \<le> fst c \<or> fst c + snd c \<le> fst b"

definition in_block :: "u64 \<Rightarrow> block \<Rightarrow> bool" where
  "in_block x b \<longleftrightarrow> fst b \<le> unat x \<and> unat x < fst b + snd b"

lemma apart_sym: "apart b c \<Longrightarrow> apart c b"
  by (auto simp: apart_def)

lemma apart_sub: "apart (a, n) c \<Longrightarrow> k \<le> n \<Longrightarrow> apart (a, k) c"
  by (auto simp: apart_def)

lemma fill_bytes_at:
  "unat a + n \<le> 2 ^ 64 \<Longrightarrow>
     fill_bytes a n f m x = (if in_block x (unat a, n) then f (unat (x - a)) else m x)"
  by (simp add: fill_bytes_def in_block_def unat_minus_less)

lemma read_bytes_cong:
  "unat b + k \<le> 2 ^ 64 \<Longrightarrow> (\<And>x. in_block x (unat b, k) \<Longrightarrow> m' x = m x) \<Longrightarrow>
     read_bytes m' b k = read_bytes m b k"
  by (auto simp: read_bytes_def in_block_def unat_plus_offset)

lemma read_bytes_fill:
  assumes "unat a + n \<le> 2 ^ 64"
  shows "read_bytes (fill_bytes a n f m) a n = map f [0..<n]"
proof -
  have "f (unat (word_of_nat i :: u64)) = f i" "unat (word_of_nat i :: u64) < n" if "i < n" for i
    using that assms by (simp_all add: unat_of_nat)
  then show ?thesis by (simp add: read_bytes_def fill_bytes_def)
qed

subsection \<open>Free lists\<close>

lemma read_write_next:
  assumes "unat a + 8 \<le> 2 ^ 64" "p \<noteq> Some 0"
  shows "read_next (write_next a p m) a = p"
proof -
  have "map (\<lambda>i. u64_to_le (address_of p) ! i) [0..<8] = u64_to_le (address_of p)"
    by (rule nth_equalityI) auto
  then show ?thesis
    using assms by (simp add: read_next_def write_next_def read_bytes_fill)
qed

lemma read_next_cong:
  "unat b + 8 \<le> 2 ^ 64 \<Longrightarrow> (\<And>x. in_block x (unat b, 8) \<Longrightarrow> m' x = m x) \<Longrightarrow>
     read_next m' b = read_next m b"
  unfolding read_next_def by (simp cong: read_bytes_cong)

lemma write_next_elsewhere:
  "unat a + 8 \<le> 2 ^ 64 \<Longrightarrow> \<not> in_block x (unat a, 8) \<Longrightarrow> write_next a p m x = m x"
  by (simp add: write_next_def fill_bytes_at)

text \<open>\<open>node_list m p as\<close>: the nodes from \<open>p\<close> on are at \<open>as\<close>.\<close>

fun node_list :: "memory \<Rightarrow> u64 option \<Rightarrow> u64 list \<Rightarrow> bool" where
  "node_list m p [] \<longleftrightarrow> p = None"
| "node_list m p (a # as) \<longleftrightarrow> p = Some a \<and> a \<noteq> 0 \<and> node_list m (read_next m a) as"

lemma node_list_cong:
  "(\<And>a. a \<in> set as \<Longrightarrow> read_next m' a = read_next m a) \<Longrightarrow> node_list m' p as = node_list m p as"
  by (induction as arbitrary: p) auto

lemma node_list_head: "node_list m p as \<Longrightarrow> p \<noteq> Some 0"
  by (cases as) auto

subsection \<open>Size classes\<close>

definition class_size :: "nat \<Rightarrow> nat" where
  "class_size i = unat (SIZE_CLASSES ! i)"

lemma class_size_exp: "i < 10 \<Longrightarrow> class_size i = 2 ^ (i + 3)"
proof -
  assume "i < 10"
  then have "i \<in> {0, 1, 2, 3, 4, 5, 6, 7, 8, 9}" by auto
  then show ?thesis by (auto simp: class_size_def SIZE_CLASSES_def)
qed

lemma class_size_bounds: "i < 10 \<Longrightarrow> 8 \<le> class_size i \<and> class_size i \<le> 4096 \<and> class_size i dvd 4096"
proof -
  assume "i < 10"
  then have "i \<in> {0, 1, 2, 3, 4, 5, 6, 7, 8, 9}" by auto
  then show ?thesis by (auto simp: class_size_def SIZE_CLASSES_def)
qed

lemma class_loop_Some:
  "class_loop k cs sz = Some i \<Longrightarrow> k \<le> i \<and> i - k < length cs \<and> sz \<le> cs ! (i - k)"
proof (induction k cs sz rule: class_loop.induct)
  case (2 k c cs sz)
  then show ?case by (auto simp: nth_Cons' Suc_le_eq split: if_splits)
qed simp

lemma class_loop_None: "class_loop k cs sz = None \<longleftrightarrow> (\<forall>c\<in>set cs. c < sz)"
  by (induction k cs sz rule: class_loop.induct) auto

lemma class_index_Some:
  assumes "class_index_for l = Some i"
  shows "i < 10" and "unat (l_size l) \<le> class_size i" and "unat (l_align l) \<le> class_size i"
proof -
  have i: "i < length SIZE_CLASSES" "max (l_size l) (l_align l) \<le> SIZE_CLASSES ! i"
    using class_loop_Some [of 0 SIZE_CLASSES "max (l_size l) (l_align l)" i] assms
    by (simp_all add: class_index_for_def del: max.bounded_iff)
  then show "i < 10" by (simp add: SIZE_CLASSES_def)
  show "unat (l_size l) \<le> class_size i" "unat (l_align l) \<le> class_size i"
    using i(2) by (simp_all add: class_size_def word_le_nat_alt [symmetric])
qed

lemma class_index_None:
  "class_index_for l = None \<longleftrightarrow> 4096 < unat (l_size l) \<or> 4096 < unat (l_align l)"
proof -
  have "(\<forall>c\<in>set SIZE_CLASSES. c < sz) \<longleftrightarrow> 4096 < unat sz" for sz :: u64
    unfolding SIZE_CLASSES_def list.set ball_simps word_less_nat_alt by simp linarith
  then show ?thesis
    by (simp only: class_index_for_def class_loop_None) (auto simp: max_def word_le_nat_alt)
qed

text \<open>A power of two divides a larger one.\<close>

lemma exp_dvd_exp: "(2 :: nat) ^ j \<le> 2 ^ k \<Longrightarrow> (2 :: nat) ^ j dvd 2 ^ k"
  by (intro le_imp_power_dvd) (simp add: power_le_imp_le_exp)

lemma class_align:
  assumes "valid_layout l" "class_index_for l = Some i"
  shows "unat (l_align l) dvd class_size i"
proof -
  obtain k where k: "k < 64" "l_align l = 2 ^ k"
    using assms(1) by (auto simp: valid_layout_def is_power_of_two_exp)
  then show ?thesis
    using class_index_Some [OF assms(2)] class_size_exp [of i] unat_exp [of k]
    by (simp add: exp_dvd_exp del: power_add)
qed

subsection \<open>The invariant\<close>

text \<open>The free blocks, for the free lists \<open>fls\<close> of the classes from \<open>k\<close> on.\<close>

fun free_blocks :: "nat \<Rightarrow> u64 list list \<Rightarrow> block list" where
  "free_blocks k [] = []"
| "free_blocks k (l # ls) = map (\<lambda>a. (unat a, class_size k)) l @ free_blocks (Suc k) ls"

text \<open>No two blocks overlap. The relation is symmetric, so the order does not matter.\<close>

definition all_apart :: "block list \<Rightarrow> bool" where
  "all_apart bs \<longleftrightarrow> sorted_wrt apart bs"

lemma all_apart_Cons: "all_apart (b # bs) \<longleftrightarrow> (\<forall>c\<in>set bs. apart b c) \<and> all_apart bs"
  by (simp add: all_apart_def)

lemma all_apart_append:
  "all_apart (bs @ cs) \<longleftrightarrow> all_apart bs \<and> all_apart cs \<and> (\<forall>b\<in>set bs. \<forall>c\<in>set cs. apart b c)"
  by (auto simp: all_apart_def sorted_wrt_append)

lemma all_apart_move: "all_apart (bs @ b # cs) \<longleftrightarrow> all_apart (b # bs @ cs)"
  by (auto simp: all_apart_append all_apart_Cons intro: apart_sym)

lemma all_apart_perm: "mset bs = mset cs \<Longrightarrow> all_apart bs = all_apart cs"
proof (induction bs arbitrary: cs)
  case (Cons b bs)
  then have "b \<in> set cs" by (metis list.set_intros(1) set_mset_mset)
  then obtain ys zs where cs: "cs = ys @ b # zs" by (auto dest: split_list)
  then have eq: "mset bs = mset (ys @ zs)" using Cons.prems by simp
  have "all_apart bs = all_apart (ys @ zs)" "set bs = set (ys @ zs)"
    by (rule Cons.IH [OF eq], rule mset_eq_setD [OF eq])
  then show ?case unfolding cs all_apart_move by (simp add: all_apart_Cons)
qed simp

definition limits :: "slab_allocator \<Rightarrow> u64 \<times> u64" where
  "limits s = (heap_start s, heap_end s)"

text \<open>
  \<open>heap_ok s fls R\<close>: the free lists in memory are \<open>fls\<close>, and the blocks \<open>R\<close> are in use; all of
  them lie in the part of the heap that was taken, and are apart from each other.
\<close>

definition lists_ok :: "slab_allocator \<Rightarrow> u64 list list \<Rightarrow> bool" where
  "lists_ok s fls \<longleftrightarrow> length (caches s) = 10 \<and> length fls = 10 \<and>
     (\<forall>i<10. node_list (mem s) (caches s ! i) (fls ! i) \<and>
        (\<forall>a\<in>set (fls ! i). class_size i dvd unat a))"

definition bounds_ok :: "slab_allocator \<Rightarrow> bool" where
  "bounds_ok s \<longleftrightarrow> initialized s \<and> 0 < unat (heap_start s) \<and> unat (heap_start s) \<le> unat (bump s)
     \<and> unat (bump s) \<le> unat (heap_end s) \<and> unat (heap_end s) + 4096 < 2 ^ 64"

definition taken :: "slab_allocator \<Rightarrow> block \<Rightarrow> bool" where
  "taken s b \<longleftrightarrow> unat (heap_start s) \<le> fst b \<and> fst b + snd b \<le> unat (bump s)"

definition heap_ok :: "slab_allocator \<Rightarrow> u64 list list \<Rightarrow> block list \<Rightarrow> bool" where
  "heap_ok s fls R \<longleftrightarrow> bounds_ok s \<and> lists_ok s fls
     \<and> (\<forall>b\<in>set (free_blocks 0 fls @ R). taken s b) \<and> all_apart (free_blocks 0 fls @ R)"

lemma heap_ok_perm: "mset R = mset R' \<Longrightarrow> heap_ok s fls R = heap_ok s fls R'"
  using all_apart_perm [of "free_blocks 0 fls @ R" "free_blocks 0 fls @ R'"]
  by (auto simp: heap_ok_def dest: mset_eq_setD)

lemma heap_ok_split:
  "heap_ok s fls ((a, n + k) # R) \<Longrightarrow> heap_ok s fls ((a, n) # (a + n, k) # R)"
  by (auto simp: heap_ok_def taken_def all_apart_append all_apart_Cons apart_def)

lemma heap_ok_drop: "heap_ok s fls (b # R) \<Longrightarrow> heap_ok s fls R"
  by (auto simp: heap_ok_def all_apart_append all_apart_Cons)

text \<open>Moving a block on or off a free list, seen as a multiset.\<close>

lemma mset_free_blocks_push:
  "i < length ls \<Longrightarrow> mset (free_blocks k (ls[i := a # ls ! i]))
     = add_mset (unat a, class_size (k + i)) (mset (free_blocks k ls))"
proof (induction ls arbitrary: i k)
  case (Cons l ls)
  show ?case
  proof (cases i)
    case (Suc j)
    then show ?thesis using Cons.IH [of j "Suc k"] Cons.prems by simp
  qed simp
qed simp

lemma mset_free_blocks_pop:
  assumes "i < length ls" "ls ! i = a # t"
  shows "mset (free_blocks 0 ls) = add_mset (unat a, class_size i) (mset (free_blocks 0 (ls[i := t])))"
proof -
  have "ls = (ls[i := t])[i := a # (ls[i := t]) ! i]"
    using assms list_update_id [of ls i] by simp
  then show ?thesis using mset_free_blocks_push [of i "ls[i := t]" 0 a] assms(1) by simp
qed

lemma free_block_in: "i < length ls \<Longrightarrow> a \<in> set (ls ! i) \<Longrightarrow> (unat a, class_size (k + i)) \<in> set (free_blocks k ls)"
proof (induction ls arbitrary: i k)
  case (Cons l ls)
  show ?case
  proof (cases i)
    case (Suc j)
    then show ?thesis using Cons.IH [of j "Suc k"] Cons.prems by simp
  qed (use Cons.prems in simp)
qed simp

lemma taken_bound: "bounds_ok s \<Longrightarrow> taken s (unat a, n) \<Longrightarrow> unat a + n \<le> 2 ^ 64 \<and> a \<noteq> 0"
  by (auto simp: bounds_ok_def taken_def)

text \<open>Free lists depend only on the bytes of the free blocks.\<close>

lemma lists_ok_mem:
  assumes ok: "heap_ok s fls R" and s': "caches s' = caches s"
    and same: "\<And>x b. b \<in> set (free_blocks 0 fls) \<Longrightarrow> in_block x b \<Longrightarrow> mem s' x = mem s x"
  shows "lists_ok s' fls"
proof -
  have fls: "lists_ok s fls" using ok by (simp add: heap_ok_def)
  have "read_next (mem s') a = read_next (mem s) a" if i: "i < 10" and a: "a \<in> set (fls ! i)" for i a
  proof (rule read_next_cong)
    have b: "(unat a, class_size i) \<in> set (free_blocks 0 fls)"
      using free_block_in [of i fls a 0] fls i a by (simp add: lists_ok_def)
    then show "unat a + 8 \<le> 2 ^ 64"
      using ok taken_bound [of s a] class_size_bounds [OF i] by (fastforce simp: heap_ok_def)
    show "mem s' x = mem s x" if "in_block x (unat a, 8)" for x
      using same [OF b, of x] that class_size_bounds [OF i] by (auto simp: in_block_def)
  qed
  then have "node_list (mem s') (caches s ! i) (fls ! i) = node_list (mem s) (caches s ! i) (fls ! i)"
    if "i < 10" for i using that by (intro node_list_cong) auto
  then show ?thesis using fls s' by (simp add: lists_ok_def)
qed

text \<open>Whoever owns the used blocks may write to them.\<close>

lemma heap_ok_write:
  assumes ok: "heap_ok s fls R" and m: "\<And>x. mem s x \<noteq> m x \<Longrightarrow> \<exists>b\<in>set R. in_block x b"
  shows "heap_ok (s\<lparr>mem := m\<rparr>) fls R"
proof -
  have "m x = mem s x" if "b \<in> set (free_blocks 0 fls)" "in_block x b" for x b
  proof (rule ccontr)
    assume "m x \<noteq> mem s x"
    then obtain c where c: "c \<in> set R" "in_block x c" using m by force
    then have "apart b c" using ok that(1) by (simp add: heap_ok_def all_apart_append)
    with c(2) that(2) show False by (auto simp: apart_def in_block_def)
  qed
  then have "lists_ok (s\<lparr>mem := m\<rparr>) fls" by (intro lists_ok_mem [OF ok]) auto
  with ok show ?thesis by (simp add: heap_ok_def bounds_ok_def taken_def)
qed

subsection \<open>Pushing and popping\<close>

lemma push_ok:
  assumes ok: "heap_ok s fls ((unat a, class_size i) # R)" and i: "i < 10"
    and dvd: "class_size i dvd unat a"
  shows "heap_ok (push_block i a s) (fls[i := a # fls ! i]) R"
    and "\<And>x. \<not> in_block x (unat a, class_size i) \<Longrightarrow> mem (push_block i a s) x = mem s x"
proof -
  let ?b = "(unat a, class_size i)" and ?s = "push_block i a s"
  have fls: "lists_ok s fls" "length fls = 10" "length (caches s) = 10"
    using ok by (simp_all add: heap_ok_def lists_ok_def)
  have a: "unat a + 8 \<le> 2 ^ 64" "a \<noteq> 0"
    using ok taken_bound [of s a "class_size i"] class_size_bounds [OF i] by (auto simp: heap_ok_def)
  have small: "in_block x ?b" if "in_block x (unat a, 8)" for x
    using that class_size_bounds [OF i] by (auto simp: in_block_def)
  show "\<And>x. \<not> in_block x ?b \<Longrightarrow> mem ?s x = mem s x"
    using small write_next_elsewhere [OF a(1)] by (auto simp: push_block_def)
  let ?s1 = "s\<lparr>mem := write_next a (caches s ! i) (mem s)\<rparr>"
  have ok1: "heap_ok ?s1 fls (?b # R)"
    using small write_next_elsewhere [OF a(1)]
    by (intro heap_ok_write [OF ok]) (metis list.set_intros(1))
  have node: "node_list (mem ?s) (caches s ! j) (fls ! j)" if "j < 10" for j
    using ok1 that by (simp add: heap_ok_def lists_ok_def push_block_def)
  have "caches s ! i \<noteq> Some 0" using fls(1) i node_list_head by (auto simp: lists_ok_def)
  then have nxt: "read_next (mem ?s) a = caches s ! i"
    using read_write_next [OF a(1)] by (simp add: push_block_def)
  have "node_list (mem ?s) (caches ?s ! j) ((fls[i := a # fls ! i]) ! j)
      \<and> (\<forall>c\<in>set ((fls[i := a # fls ! i]) ! j). class_size j dvd unat c)" if j: "j < 10" for j
    using node [OF j] node [OF i] nxt a(2) dvd fls j
    by (cases "j = i") (simp_all add: push_block_def non_null_def lists_ok_def)
  then have "lists_ok ?s (fls[i := a # fls ! i])"
    using fls by (simp add: lists_ok_def push_block_def)
  moreover have "mset (free_blocks 0 (fls[i := a # fls ! i]) @ R) = mset (free_blocks 0 fls @ ?b # R)"
    using mset_free_blocks_push [of i fls 0 a] i fls(2) by simp
  note all_apart_perm [OF this] mset_eq_setD [OF this]
  ultimately show "heap_ok ?s (fls[i := a # fls ! i]) R"
    using ok unfolding heap_ok_def by (simp add: push_block_def bounds_ok_def taken_def)
qed

lemma pop_ok:
  assumes ok: "heap_ok s fls R" and i: "i < 10" and head: "fls ! i = a # t"
  shows "\<exists>s'. pop_block i s = (Ok a, s') \<and> heap_ok s' (fls[i := t]) ((unat a, class_size i) # R)
    \<and> mem s' = mem s \<and> limits s' = limits s"
    and "class_size i dvd unat a" and "a \<noteq> 0"
proof -
  have fls: "lists_ok s fls" "length fls = 10" "length (caches s) = 10"
    using ok by (simp_all add: heap_ok_def lists_ok_def)
  then have n: "node_list (mem s) (caches s ! i) (a # t)"
    and dvd: "\<forall>c\<in>set (a # t). class_size i dvd unat c"
    using i head by (auto simp: lists_ok_def)
  show "class_size i dvd unat a" "a \<noteq> 0" using n dvd by simp_all
  let ?s = "s\<lparr>caches := (caches s)[i := read_next (mem s) a]\<rparr>"
  have "lists_ok ?s (fls[i := t])"
    using fls n dvd i by (auto simp: lists_ok_def nth_list_update)
  moreover have "mset (free_blocks 0 fls @ R) = mset (free_blocks 0 (fls[i := t]) @ (unat a, class_size i) # R)"
    using mset_free_blocks_pop [of i fls a t] i head fls(2) by simp
  note all_apart_perm [OF this] mset_eq_setD [OF this]
  ultimately have "heap_ok ?s (fls[i := t]) ((unat a, class_size i) # R)"
    using ok unfolding heap_ok_def by (simp add: bounds_ok_def taken_def)
  moreover have "pop_block i s = (Ok a, ?s)" using n by (simp add: pop_block_def)
  ultimately show "\<exists>s'. pop_block i s = (Ok a, s') \<and> heap_ok s' (fls[i := t]) ((unat a, class_size i) # R)
    \<and> mem s' = mem s \<and> limits s' = limits s" by (simp add: limits_def)
qed

end
