(* ===== verification/Slab_Alloc.thy ===== *)
theory Slab_Alloc
  imports Slab_Heap
begin

text \<open>
  Allocating and releasing: the bump region, the refill of a free list from a fresh chunk, and
  \<^verbatim>\<open>alloc\<close> and \<^verbatim>\<open>dealloc\<close> composed of them, as moves of blocks between the free lists and the clients.
\<close>

text \<open>\<open>keeps_used R s s'\<close>: the bytes of the blocks in use and the limits of the heap are as before.\<close>

definition keeps_used :: "block list \<Rightarrow> slab_allocator \<Rightarrow> slab_allocator \<Rightarrow> bool" where
  "keeps_used R s s' \<longleftrightarrow> limits s' = limits s
     \<and> (\<forall>b\<in>set R. \<forall>x. in_block x b \<longrightarrow> mem s' x = mem s x)"

lemma keeps_used_refl [simp]: "keeps_used R s s"
  by (simp add: keeps_used_def)

lemma keeps_used_trans: "keeps_used R a b \<Longrightarrow> keeps_used R b c \<Longrightarrow> keeps_used R a c"
  by (simp add: keeps_used_def)

lemma keeps_used_apart:
  assumes "heap_ok s fls (b # R)" "limits s' = limits s"
    and "\<And>x. \<not> in_block x b \<Longrightarrow> mem s' x = mem s x"
  shows "keeps_used R s s'"
  unfolding keeps_used_def
proof (intro conjI ballI allI impI)
  fix c x assume c: "c \<in> set R" "in_block x c"
  then have "apart b c" using assms(1) by (simp add: heap_ok_def all_apart_append all_apart_Cons)
  with c(2) have "\<not> in_block x b" by (auto simp: apart_def in_block_def)
  then show "mem s' x = mem s x" by (rule assms(3))
qed (fact assms(2))

subsection \<open>What is left of the heap\<close>

text \<open>The whole aligned pages after the bump pointer, and the blocks of a class that can still be handed
  out: the free ones, and those of the pages.\<close>

definition pages_left :: "slab_allocator \<Rightarrow> nat" where
  "pages_left s = unat (heap_end s) div 4096 - (unat (bump s) + 4095) div 4096"

definition capacity :: "nat \<Rightarrow> u64 list list \<Rightarrow> slab_allocator \<Rightarrow> nat" where
  "capacity i fls s = length (fls ! i) + 4096 div class_size i * pages_left s"

subsection \<open>The bump region\<close>

lemma grow_ok:
  assumes ok: "heap_ok s fls R" and start: "unat (bump s) \<le> unat a"
    and room: "unat a + n \<le> unat (heap_end s)"
    and s'_def: "s' = s\<lparr>bump := a + word_of_nat n, mem := fill_bytes a n f (mem s)\<rparr>"
  shows "heap_ok s' fls ((unat a, n) # R)" and "keeps_used R s s'"
    and "\<And>i. i < n \<Longrightarrow> mem s' (a + word_of_nat i) = f i"
proof -
  have b: "bounds_ok s" using ok by (simp add: heap_ok_def)
  then have end64: "unat a + n < 2 ^ 64" using room by (simp add: bounds_ok_def)
  then have fits: "unat a + n \<le> 2 ^ 64" by simp
  have "unat (word_of_nat n :: u64) = n" using end64 by (simp add: unat_of_nat)
  then have bump': "unat (bump s') = unat a + n"
    using end64 unat_add_no_wrap [of a "word_of_nat n"] by (simp add: s'_def)
  have mem': "mem s' x = mem s x" if "\<not> in_block x (unat a, n)" for x
    using that fits by (simp add: s'_def fill_bytes_at)
  have old: "apart (unat a, n) c" "taken s' c" if "c \<in> set (free_blocks 0 fls @ R)" for c
  proof -
    have "taken s c" using that ok by (simp add: heap_ok_def)
    then show "apart (unat a, n) c" "taken s' c"
      using start bump' by (auto simp: taken_def apart_def s'_def)
  qed
  have out: "mem s' x = mem s x" if "c \<in> set (free_blocks 0 fls @ R)" "in_block x c" for x c
    using old(1) [OF that(1)] that(2) by (intro mem') (auto simp: apart_def in_block_def)
  have "lists_ok s' fls"
    using out by (intro lists_ok_mem [OF ok]) (auto simp: s'_def)
  moreover have "bounds_ok s'" "taken s' (unat a, n)"
    using b bump' start room by (auto simp: bounds_ok_def taken_def s'_def)
  moreover have "all_apart (free_blocks 0 fls @ (unat a, n) # R)"
    unfolding all_apart_move all_apart_Cons using old(1) ok by (auto simp: heap_ok_def)
  ultimately show "heap_ok s' fls ((unat a, n) # R)"
    using old(2) by (auto simp: heap_ok_def)
  show "keeps_used R s s'" using out by (auto simp: keeps_used_def limits_def s'_def)
  show "\<And>i. i < n \<Longrightarrow> mem s' (a + word_of_nat i) = f i"
    using end64 unat_plus_offset [OF fits] by (simp add: s'_def fill_bytes_def unat_of_nat)
qed

lemma alloc_from_bump_ok:
  assumes ok: "heap_ok s fls R" and align: "is_power_of_two (l_align l)"
    and fits: "unat (heap_end s) + unat (l_align l) < 2 ^ 64"
  shows "\<exists>p s'. alloc_from_bump pf l s = (Ok p, s') \<and>
    (case p of
       None \<Rightarrow> s' = s \<and> unat (heap_end s) < unat (bump s) + unat (l_align l) + unat (l_size l)
         \<and> unat (heap_end s) < unat (l_align l) * ((unat (bump s) + unat (l_align l) - 1) div unat (l_align l)) + unat (l_size l)
     | Some a \<Rightarrow> heap_ok s' fls ((unat a, unat (l_size l)) # R) \<and> unat (l_align l) dvd unat a \<and> a \<noteq> 0
         \<and> keeps_used R s s' \<and> (\<forall>i<unat (l_size l). mem s' (a + word_of_nat i) = 0)
         \<and> unat a = unat (l_align l) * ((unat (bump s) + unat (l_align l) - 1) div unat (l_align l))
         \<and> unat a < unat (bump s) + unat (l_align l) \<and> unat (bump s') = unat a + unat (l_size l))"
proof -
  have b: "bounds_ok s" using ok by (simp add: heap_ok_def)
  then have "unat (bump s) + unat (l_align l) < 2 ^ 64" using fits by (simp add: bounds_ok_def)
  from align_up_spec [OF align this] obtain a where a: "align_up pf (bump s) (l_align l) = Ok a"
    "unat (bump s) \<le> unat a" "unat a < unat (bump s) + unat (l_align l)" "unat (l_align l) dvd unat a"
    "unat a = unat (l_align l) * ((unat (bump s) + unat (l_align l) - 1) div unat (l_align l))"
    by blast
  have a0: "a \<noteq> 0" using a(2) b by (auto simp: bounds_ok_def)
  have asserts: "debug_assert pf (initialized s) = (Ok () :: (unit, unit) res)"
    "debug_assert pf (is_power_of_two (l_align l)) = (Ok () :: (unit, unit) res)"
    using b align by (simp_all add: debug_assert_def bounds_ok_def)
  show ?thesis
  proof (cases "unat a + unat (l_size l) \<le> unat (heap_end s)")
    case True
    have no_wrap: "unat a + unat (l_size l) < 2 ^ 64"
      using True b by (simp add: bounds_ok_def)
    then have "\<not> heap_end s < a + l_size l"
      using True unat_add_no_wrap [of a "l_size l"] by (simp add: word_less_nat_alt)
    then have "alloc_from_bump pf l s = (Ok (Some a),
        s\<lparr>bump := a + word_of_nat (unat (l_size l)), mem := fill_bytes a (unat (l_size l)) (\<lambda>_. 0) (mem s)\<rparr>)"
      using asserts a(1) a0 no_wrap by (simp add: alloc_from_bump_def Let_def non_null_def)
    moreover have "unat (a + word_of_nat (unat (l_size l))) = unat a + unat (l_size l)"
      using no_wrap unat_add_no_wrap [of a "l_size l"] by simp
    ultimately show ?thesis
      using grow_ok [OF ok a(2) True refl, where f = "\<lambda>_. 0"] a(3-5) a0 by simp
  next
    case False
    have "alloc_from_bump pf l s = (Ok None, s)"
    proof (cases "unat a + unat (l_size l) < 2 ^ 64")
      case True
      then have "heap_end s < a + l_size l"
        using False unat_add_no_wrap [of a "l_size l"] by (simp add: word_less_nat_alt)
      with True asserts a(1) show ?thesis by (simp add: alloc_from_bump_def Let_def)
    qed (use asserts a(1) in \<open>simp add: alloc_from_bump_def Let_def\<close>)
    with False a(3,5) show ?thesis by simp
  qed
qed

subsection \<open>Refilling a free list\<close>

lemma refill_loop_ok:
  assumes "heap_ok s fls ((unat off, n * class_size i) # R)" "i < 10" "class_size i dvd unat off"
    and "unat ce = unat off + n * class_size i"
  shows "\<exists>s' new. refill_loop pf i (SIZE_CLASSES ! i) ce off s = Some (Ok True, s')
    \<and> length new = n \<and> heap_ok s' (fls[i := new @ fls ! i]) R \<and> keeps_used R s s' \<and> bump s' = bump s"
  using assms
proof (induction n arbitrary: off s fls)
  case (Suc n)
  let ?bs = "SIZE_CLASSES ! i" and ?b = "class_size i"
  have b: "bounds_ok s" "taken s (unat off, Suc n * ?b)" "i < length fls"
    using Suc.prems(1,2) by (simp_all add: heap_ok_def lists_ok_def)
  have fit: "unat off + unat ?bs < 2 ^ 64"
    using b class_size_bounds [OF Suc.prems(2)] by (simp add: bounds_ok_def taken_def class_size_def)
  note add = add64_Ok [OF fit, of pf] and off' = add64 [OF fit]
  have go: "off + ?bs \<le> ce"
    unfolding word_le_nat_alt off' using Suc.prems(4) by (simp add: class_size_def)
  have ok: "heap_ok s fls ((unat off, ?b) # (unat off + ?b, n * ?b) # R)"
    using Suc.prems(1) by (intro heap_ok_split) simp
  note push = push_ok [OF ok Suc.prems(2,3)]
  let ?s1 = "push_block i off s" and ?fls = "fls[i := off # fls ! i]"
  have ok1: "heap_ok ?s1 ?fls ((unat (off + ?bs), n * ?b) # R)"
    using push(1) by (simp add: off' class_size_def)
  have dvd1: "?b dvd unat (off + ?bs)" "unat ce = unat (off + ?bs) + n * ?b"
    unfolding off' using Suc.prems(3,4) by (simp_all add: class_size_def)
  obtain s' new where s': "refill_loop pf i ?bs ce (off + ?bs) ?s1 = Some (Ok True, s')" "length new = n"
    "heap_ok s' (?fls[i := new @ ?fls ! i]) R" "keeps_used R ?s1 s'" "bump s' = bump ?s1"
    using Suc.IH [OF ok1 Suc.prems(2) dvd1] by (elim exE conjE)
  have "refill_loop pf i ?bs ce off s = Some (Ok True, s')"
    unfolding refill_loop.simps [of pf i ?bs ce off s] add res.case if_P [OF go] by (rule s'(1))
  moreover have "heap_ok s' (fls[i := (new @ [off]) @ fls ! i]) R" using s'(3) b(3) by simp
  moreover have "limits ?s1 = limits s" by (simp add: push_block_def limits_def)
  from keeps_used_apart [OF ok this push(2)] have "keeps_used R s ?s1" by (simp add: keeps_used_def)
  then have "keeps_used R s s'" using s'(4) by (rule keeps_used_trans)
  moreover have "length (new @ [off]) = Suc n" "bump s' = bump s" using s'(2,5) by (simp_all add: push_block_def)
  ultimately show ?case by (intro exI [of _ s'] exI [of _ "new @ [off]"] conjI)
next
  case 0
  have b: "bounds_ok s" "taken s (unat off, 0)" using 0(1) by (simp_all add: heap_ok_def)
  have fit: "unat off + unat (SIZE_CLASSES ! i) < 2 ^ 64"
    using b class_size_bounds [OF 0(2)] by (simp add: bounds_ok_def taken_def class_size_def)
  have "\<not> off + SIZE_CLASSES ! i \<le> ce"
    unfolding word_le_nat_alt add64 [OF fit]
    using 0(4) class_size_bounds [OF 0(2)] by (simp add: class_size_def)
  then have "refill_loop pf i (SIZE_CLASSES ! i) ce off s = Some (Ok True, s)"
    using add64_Ok [OF fit, of pf] by (subst refill_loop.simps) simp
  moreover have "heap_ok s (fls[i := [] @ fls ! i]) R" using heap_ok_drop [OF 0(1)] by simp
  ultimately show ?case by (intro exI [of _ s] exI [of _ "[]"]) simp
qed

lemma valid_chunk: "from_size_align CHUNK_SIZE CHUNK_SIZE = Some \<lparr>l_size = 4096, l_align = 4096\<rparr>"
  by (simp add: from_size_align_def CHUNK_SIZE_def valid_layout_def is_power_of_two_def)

lemma refill_cache_ok:
  assumes ok: "heap_ok s fls R" and i: "i < 10"
  shows "\<exists>b s'. refill_cache pf i s = Some (Ok b, s') \<and>
    (if b then \<exists>new. length new = 4096 div class_size i \<and> heap_ok s' (fls[i := new @ fls ! i]) R \<and> keeps_used R s s'
         \<and> pages_left s = Suc (pages_left s') \<and> unat (bump s') < unat (bump s) + 8192
     else s' = s \<and> unat (heap_end s) < unat (bump s) + 8192 \<and> pages_left s = 0)"
proof -
  let ?l = "\<lparr>l_size = 4096, l_align = 4096\<rparr> :: layout"
  have b: "bounds_ok s" using ok by (simp add: heap_ok_def)
  have l: "is_power_of_two (l_align ?l)" "unat (heap_end s) + unat (l_align ?l) < 2 ^ 64"
    using b by (simp_all add: bounds_ok_def is_power_of_two_def)
  obtain p s1 where p1: "alloc_from_bump pf ?l s = (Ok p, s1)"
    and "case p of
       None \<Rightarrow> s1 = s \<and> unat (heap_end s) < unat (bump s) + unat (l_align ?l) + unat (l_size ?l)
         \<and> unat (heap_end s) < unat (l_align ?l) * ((unat (bump s) + unat (l_align ?l) - 1) div unat (l_align ?l)) + unat (l_size ?l)
     | Some a \<Rightarrow> heap_ok s1 fls ((unat a, unat (l_size ?l)) # R) \<and> unat (l_align ?l) dvd unat a \<and> a \<noteq> 0
         \<and> keeps_used R s s1 \<and> (\<forall>i<unat (l_size ?l). mem s1 (a + word_of_nat i) = 0)
         \<and> unat a = unat (l_align ?l) * ((unat (bump s) + unat (l_align ?l) - 1) div unat (l_align ?l))
         \<and> unat a < unat (bump s) + unat (l_align ?l) \<and> unat (bump s1) = unat a + unat (l_size ?l)"
    using alloc_from_bump_ok [OF ok l, of pf] by blast
  moreover have "unat (l_align ?l) = 4096" "unat (l_size ?l) = 4096" "unat (bump s) + 4096 - 1 = unat (bump s) + 4095"
    by simp_all
  ultimately have p: "alloc_from_bump pf ?l s = (Ok p, s1)"
    "case p of None \<Rightarrow> s1 = s \<and> unat (heap_end s) < unat (bump s) + 4096 + 4096
         \<and> unat (heap_end s) < 4096 * ((unat (bump s) + 4095) div 4096) + 4096
     | Some a \<Rightarrow> heap_ok s1 fls ((unat a, 4096) # R) \<and> 4096 dvd unat a \<and> a \<noteq> 0 \<and> keeps_used R s s1
         \<and> unat a = 4096 * ((unat (bump s) + 4095) div 4096) \<and> unat a < unat (bump s) + 4096 \<and> unat (bump s1) = unat a + 4096"
    by (cases p; simp only: option.case simp_thms)+
  show ?thesis
  proof (cases p)
    case None
    with p have "refill_cache pf i s = Some (Ok False, s)"
      by (simp add: refill_cache_def valid_chunk Let_def)
    moreover have "unat (heap_end s) div 4096 < (unat (bump s) + 4095) div 4096 + 1"
      using None p(2) by (intro less_mult_imp_div_less) simp
    ultimately show ?thesis using None p(2) by (intro exI [of _ False] exI [of _ s]) (simp add: pages_left_def)
  next
    case (Some a)
    with p(2) have a: "heap_ok s1 fls ((unat a, 4096) # R)" "4096 dvd unat a" "keeps_used R s s1"
      and at: "unat a = 4096 * ((unat (bump s) + 4095) div 4096)" "unat a < unat (bump s) + 4096" "unat (bump s1) = unat a + 4096"
      by auto
    define n where "n = 4096 div class_size i"
    have n: "4096 = n * class_size i" "0 < n"
      using class_size_bounds [OF i] by (auto simp: n_def div_greater_zero_iff)
    have "bounds_ok s1" "taken s1 (unat a, 4096)" using a(1) by (simp_all add: heap_ok_def)
    then have fit: "unat a + unat CHUNK_SIZE < 2 ^ 64"
      by (simp add: bounds_ok_def taken_def CHUNK_SIZE_def)
    have ce: "unat (a + CHUNK_SIZE) = unat a + n * class_size i"
      unfolding add64 [OF fit] n(1) [symmetric] by (simp add: CHUNK_SIZE_def)
    have "class_size i dvd unat a" using class_size_bounds [OF i] a(2) by (blast intro: dvd_trans)
    from refill_loop_ok [OF a(1) [unfolded n(1)] i this ce, of pf] obtain s' new where
      s': "refill_loop pf i (SIZE_CLASSES ! i) (a + CHUNK_SIZE) a s1 = Some (Ok True, s')"
      "length new = n" "heap_ok s' (fls[i := new @ fls ! i]) R" "keeps_used R s1 s'" "bump s' = bump s1"
      by blast
    have "refill_cache pf i s = Some (Ok True, s')"
      using p(1) Some s'(1) add64_Ok [OF fit, of pf]
      by (simp add: refill_cache_def valid_chunk Let_def)
    moreover have kept: "keeps_used R s s'" by (rule keeps_used_trans [OF a(3) s'(4)])
    moreover have "pages_left s = Suc (pages_left s') \<and> unat (bump s') < unat (bump s) + 8192"
    proof -
      let ?c = "(unat (bump s) + 4095) div 4096"
      have b': "unat (bump s') = 4096 * (?c + 1)" using at(1,3) s'(5) by simp
      have e: "heap_end s' = heap_end s" using kept by (simp add: keeps_used_def limits_def)
      have "unat (bump s') \<le> unat (heap_end s')" using s'(3) by (simp add: heap_ok_def bounds_ok_def)
      then have "(?c + 1) * 4096 \<le> unat (heap_end s)" unfolding b' e by simp
      then have "?c + 1 \<le> unat (heap_end s) div 4096" by (simp add: less_eq_div_iff_mult_less_eq)
      moreover have "(unat (bump s') + 4095) div 4096 = ?c + 1" unfolding b' by simp
      then have "pages_left s' = unat (heap_end s) div 4096 - (?c + 1)" by (simp only: pages_left_def e)
      ultimately have "pages_left s = Suc (pages_left s')" using Suc_diff_Suc [of ?c "unat (heap_end s) div 4096"] by (simp add: pages_left_def [of s])
      then show ?thesis using at(2,3) s'(5) by simp
    qed
    ultimately show ?thesis using s'(2,3) by (auto simp: n_def)
  qed
qed

end
