(* ===== verification/Slab_Client.thy ===== *)
theory Slab_Client
  imports Slab_Alloc
begin

text \<open>
  What the allocator promises its clients, as the locale \<open>allocator\<close>: blocks handed out do not overlap,
  are aligned, and keep their bytes until their owner frees or writes them. A client is any sequence
  of requests; the locale proves the promise for whole sequences and the slab allocator provides it.
\<close>

subsection \<open>Clients\<close>

text \<open>A block handed out: its address and the layout it was asked with.\<close>

type_synonym handle = "u64 \<times> layout"

text \<open>The bytes a client may use; \<open>separate\<close> handles share none.\<close>

definition client_block :: "handle \<Rightarrow> block" where
  "client_block h = (unat (fst h), unat (l_size (snd h)))"

definition separate :: "handle list \<Rightarrow> bool" where
  "separate live \<longleftrightarrow> all_apart (map client_block live)"

definition aligned :: "handle \<Rightarrow> bool" where
  "aligned h \<longleftrightarrow> fst h \<noteq> 0 \<and> unat (l_align (snd h)) dvd unat (fst h)"

text \<open>It lies inside the region \<open>r\<close>, given by its first address and the one after its end.\<close>

definition inside :: "u64 \<times> u64 \<Rightarrow> handle \<Rightarrow> bool" where
  "inside r h \<longleftrightarrow> unat (fst r) \<le> unat (fst h)
     \<and> unat (fst h) + unat (l_size (snd h)) \<le> unat (snd r)"

lemma inside_fits: "inside r h \<Longrightarrow> unat (fst h) + unat (l_size (snd h)) \<le> 2 ^ 64"
  using unsigned_less [of "snd r", where ?'a = nat] by (simp add: inside_def)

text \<open>
  A request: allocate, free the \<open>k\<close>-th block held, or write byte \<open>i\<close> of it. A client holds blocks and
  remembers what it wrote to each; it makes no request about a block it does not hold, or a byte
  outside of it, so such a request does nothing.
\<close>

datatype request = Alloc layout | Free nat | Store nat nat u8

type_synonym holding = "(handle \<times> (nat \<rightharpoonup> u8)) list"

definition without :: "nat \<Rightarrow> 'a list \<Rightarrow> 'a list" where
  "without k xs = take k xs @ drop (Suc k) xs"

text \<open>\<open>None\<close>: the allocator panics or does not return.\<close>

fun serve ::
  "(layout \<Rightarrow> 's \<Rightarrow> ((unit, u64) res \<times> 's) option) \<Rightarrow> (u64 \<Rightarrow> layout \<Rightarrow> 's \<Rightarrow> 's) \<Rightarrow>
   (u64 \<Rightarrow> u8 \<Rightarrow> 's \<Rightarrow> 's) \<Rightarrow> request \<Rightarrow> 's \<times> holding \<Rightarrow> ('s \<times> holding) option"
where
  "serve al de st (Alloc l) (s, hs) =
     (case al l s of
        Some (Ok p, s') \<Rightarrow> Some (s', if p = 0 then hs else ((p, l), Map.empty) # hs)
      | _ \<Rightarrow> None)"
| "serve al de st (Free k) (s, hs) =
     (if k < length hs then
        (case hs ! k of ((p, l), w) \<Rightarrow> Some (de p l s, without k hs))
      else Some (s, hs))"
| "serve al de st (Store k i v) (s, hs) =
     (if k < length hs then
        (case hs ! k of ((p, l), w) \<Rightarrow>
           if i < unat (l_size l) then Some (st (p + word_of_nat i) v s, hs[k := ((p, l), w(i \<mapsto> v))])
           else Some (s, hs))
      else Some (s, hs))"

fun serve_all ::
  "(layout \<Rightarrow> 's \<Rightarrow> ((unit, u64) res \<times> 's) option) \<Rightarrow> (u64 \<Rightarrow> layout \<Rightarrow> 's \<Rightarrow> 's) \<Rightarrow>
   (u64 \<Rightarrow> u8 \<Rightarrow> 's \<Rightarrow> 's) \<Rightarrow> request list \<Rightarrow> 's \<times> holding \<Rightarrow> ('s \<times> holding) option"
where
  "serve_all al de st [] c = Some c"
| "serve_all al de st (r # rs) c =
     (case serve al de st r c of Some c' \<Rightarrow> serve_all al de st rs c' | None \<Rightarrow> None)"

text \<open>The layouts a list of requests asks for.\<close>

fun layouts_of :: "request list \<Rightarrow> layout list" where
  "layouts_of [] = []"
| "layouts_of (Alloc l # rs) = l # layouts_of rs"
| "layouts_of (r # rs) = layouts_of rs"

text \<open>The memory holds what the client wrote.\<close>

definition remembers :: "(u64 \<Rightarrow> u8) \<Rightarrow> holding \<Rightarrow> bool" where
  "remembers m hs \<longleftrightarrow> (\<forall>(h, w)\<in>set hs. \<forall>i v. w i = Some v \<longrightarrow>
     i < unat (l_size (snd h)) \<and> m (fst h + word_of_nat i) = v)"

lemma mset_without: "k < length xs \<Longrightarrow> mset xs = add_mset (xs ! k) (mset (without k xs))"
  using id_take_nth_drop [of k xs] unfolding without_def
  by (metis mset.simps(2) mset_append union_mset_add_mset_right)

lemma set_without: "k < length xs \<Longrightarrow> set (without k xs) \<subseteq> set xs"
  by (auto simp: without_def dest: in_set_takeD in_set_dropD)

lemma map_without: "map f (without k xs) = without k (map f xs)"
  by (simp add: without_def take_map drop_map)

lemma separate_without:
  assumes "separate live" "k < length live" "h \<in> set (without k live)"
  shows "apart (client_block (live ! k)) (client_block h)"
proof -
  let ?g = "live ! k # without k live"
  have "mset (map client_block ?g) = mset (map client_block live)"
    unfolding mset_map using mset_without [OF assms(2)] by simp
  then have "all_apart (map client_block ?g)"
    using assms(1) all_apart_perm unfolding separate_def by blast
  then show ?thesis using assms(3) by (simp add: all_apart_Cons)
qed

lemma separate_nth:
  assumes "separate live" "k < length live" "j < length live" "j \<noteq> k"
  shows "apart (client_block (live ! k)) (client_block (live ! j))"
proof (rule separate_without [OF assms(1,2)])
  have "live ! j \<in> set (take k live) \<or> live ! j \<in> set (drop (Suc k) live)"
  proof (cases "j < k")
    case True
    then have "take k live ! j = live ! j" "j < length (take k live)" using assms(3) by simp_all
    then show ?thesis by (metis nth_mem)
  next
    case False
    then have "drop (Suc k) live ! (j - Suc k) = live ! j" "j - Suc k < length (drop (Suc k) live)"
      using assms(3,4) by simp_all
    then show ?thesis by (metis nth_mem)
  qed
  then show "live ! j \<in> set (without k live)" by (simp add: without_def)
qed

subsection \<open>The contract\<close>

locale allocator =
  fixes ok :: "'s \<Rightarrow> handle list \<Rightarrow> bool"
    and region :: "'s \<Rightarrow> u64 \<times> u64"
    and good :: "u64 \<times> u64 \<Rightarrow> layout \<Rightarrow> bool"
    and byte :: "'s \<Rightarrow> u64 \<Rightarrow> u8"
    and al :: "layout \<Rightarrow> 's \<Rightarrow> ((unit, u64) res \<times> 's) option"
    and de :: "u64 \<Rightarrow> layout \<Rightarrow> 's \<Rightarrow> 's"
    and st :: "u64 \<Rightarrow> u8 \<Rightarrow> 's \<Rightarrow> 's"
  assumes alloc: "ok s live \<Longrightarrow> good (region s) l \<Longrightarrow>
      \<exists>p s'. al l s = Some (Ok p, s') \<and> ok s' (if p = 0 then live else (p, l) # live)
        \<and> region s' = region s
        \<and> (\<forall>h\<in>set live. \<forall>x. in_block x (client_block h) \<longrightarrow> byte s' x = byte s x)"
    and dealloc: "ok s live \<Longrightarrow> k < length live \<Longrightarrow> live ! k = (p, l) \<Longrightarrow>
      ok (de p l s) (without k live) \<and> region (de p l s) = region s
        \<and> (\<forall>h\<in>set (without k live). \<forall>x. in_block x (client_block h) \<longrightarrow> byte (de p l s) x = byte s x)"
    and store: "ok s live \<Longrightarrow> h \<in> set live \<Longrightarrow> in_block a (client_block h) \<Longrightarrow>
      ok (st a v s) live \<and> region (st a v s) = region s \<and> byte (st a v s) = (byte s)(a := v)"
    and handles: "ok s live \<Longrightarrow> separate live \<and> (\<forall>h\<in>set live. aligned h \<and> inside (region s) h)"
begin

text \<open>What a client relies on: its blocks are good and hold what it wrote.\<close>

definition served :: "'s \<times> holding \<Rightarrow> bool" where
  "served c \<longleftrightarrow> ok (fst c) (map fst (snd c)) \<and> remembers (byte (fst c)) (snd c)"

lemma remembers_keep:
  assumes "ok s (map fst hs)" "remembers (byte s) hs" "set hs' \<subseteq> set hs"
    and "\<forall>h\<in>set (map fst hs'). \<forall>x. in_block x (client_block h) \<longrightarrow> byte s' x = byte s x"
  shows "remembers (byte s') hs'"
  unfolding remembers_def
proof (intro ballI, unfold split_paired_all case_prod_conv, intro allI impI)
  fix p l w i v
  assume h: "((p, l), w) \<in> set hs'" and w: "w i = Some v"
  then have i: "i < unat (l_size l)" "byte s (p + word_of_nat i) = v"
    using assms(2,3) by (fastforce simp: remembers_def)+
  have "(p, l) \<in> set (map fst hs)" using h assms(3) by force
  then have "unat p + unat (l_size l) \<le> 2 ^ 64" using handles [OF assms(1)] inside_fits by fastforce
  then have "in_block (p + word_of_nat i) (client_block (p, l))"
    using i(1) by (simp add: in_block_def client_block_def unat_plus_offset)
  moreover have "(p, l) \<in> set (map fst hs')" using h by force
  ultimately show "i < unat (l_size (snd (p, l))) \<and> byte s' (fst (p, l) + word_of_nat i) = v"
    using i assms(4) by auto
qed

lemma serve_Alloc:
  assumes "served (s, hs)" "good (region s) l"
  shows "\<exists>s' hs'. serve al de st (Alloc l) (s, hs) = Some (s', hs') \<and> served (s', hs') \<and> region s' = region s"
proof -
  have ok: "ok s (map fst hs)" "remembers (byte s) hs" using assms(1) by (simp_all add: served_def)
  obtain p s' where al: "al l s = Some (Ok p, s')" "region s' = region s"
    "ok s' (if p = 0 then map fst hs else (p, l) # map fst hs)"
    "\<forall>h\<in>set (map fst hs). \<forall>x. in_block x (client_block h) \<longrightarrow> byte s' x = byte s x"
    using alloc [OF ok(1) assms(2)] by blast
  have "remembers (byte s') hs" by (rule remembers_keep [OF ok subset_refl al(4)])
  with al(1-3) show ?thesis by (auto simp: served_def remembers_def)
qed

lemma serve_Free:
  assumes "served (s, hs)"
  shows "\<exists>s' hs'. serve al de st (Free k) (s, hs) = Some (s', hs') \<and> served (s', hs') \<and> region s' = region s"
proof (cases "k < length hs")
  case True
  obtain p l w where k: "hs ! k = ((p, l), w)" by (metis prod.exhaust)
  have ok: "ok s (map fst hs)" "remembers (byte s) hs" using assms by (simp_all add: served_def)
  have "map fst hs ! k = (p, l)" using True k by simp
  from dealloc [OF ok(1) _ this] True have de: "ok (de p l s) (map fst (without k hs))"
    "region (de p l s) = region s"
    "\<forall>h\<in>set (map fst (without k hs)). \<forall>x. in_block x (client_block h) \<longrightarrow> byte (de p l s) x = byte s x"
    by (simp_all add: map_without)
  have "remembers (byte (de p l s)) (without k hs)"
    by (rule remembers_keep [OF ok set_without [OF True] de(3)])
  with de(1,2) True k show ?thesis by (simp add: served_def)
qed (use assms in simp)

lemma serve_Store:
  assumes "served (s, hs)"
  shows "\<exists>s' hs'. serve al de st (Store k i v) (s, hs) = Some (s', hs') \<and> served (s', hs') \<and> region s' = region s"
proof -
  obtain p l w where k: "hs ! k = ((p, l), w)" by (metis prod.exhaust)
  show ?thesis
  proof (cases "k < length hs \<and> i < unat (l_size l)")
    case True
    have ok: "ok s (map fst hs)" "remembers (byte s) hs" using assms by (simp_all add: served_def)
    let ?a = "p + word_of_nat i" and ?hs = "hs[k := ((p, l), w(i \<mapsto> v))]"
    have mem: "hs ! n \<in> set hs" "fst (hs ! n) \<in> set (map fst hs)" if "n < length hs" for n
      using that by simp_all
    then have live: "(p, l) \<in> set (map fst hs)" using True k by (metis fst_conv)
    have same: "map fst ?hs = map fst hs" using True k by (simp add: map_update list_update_same_conv)
    have offset: "unat (fst g + word_of_nat j) = unat (fst g) + j"
      if "g \<in> set (map fst hs)" "j < unat (l_size (snd g))" for g j
      using handles [OF ok(1)] inside_fits [of "region s" g] that by (intro unat_plus_offset) auto
    have inb: "in_block (fst g + word_of_nat j) (client_block g)"
      if "g \<in> set (map fst hs)" "j < unat (l_size (snd g))" for g j
      using offset [OF that] that(2) by (simp add: in_block_def client_block_def)
    from store [OF ok(1) live, of ?a v] inb [OF live, of i] True
    have st: "ok (st ?a v s) (map fst hs)" "region (st ?a v s) = region s"
      "byte (st ?a v s) = (byte s)(?a := v)" by simp_all
    have was: "j < unat (l_size (snd (fst (hs ! n)))) \<and> byte s (fst (fst (hs ! n)) + word_of_nat j) = u"
      if "n < length hs" "snd (hs ! n) j = Some u" for n j u
      using ok(2) mem(1) [OF that(1)] that(2) by (fastforce simp: remembers_def)
    have rem: "j < unat (l_size (snd (fst (?hs ! n)))) \<and> byte (st ?a v s) (fst (fst (?hs ! n)) + word_of_nat j) = u"
      if n: "n < length hs" and j: "snd (?hs ! n) j = Some u" for n j u
    proof (cases "n = k")
      case n': True
      have "p + word_of_nat j \<noteq> ?a" if "j < unat (l_size l)" "j \<noteq> i"
        using offset [OF live, of j] offset [OF live, of i] that True by (metis add_left_cancel fst_conv snd_conv)
      with n n' j k True was [of k j u] st(3) show ?thesis by (auto split: if_splits)
    next
      case n': False
      with n j have g: "j < unat (l_size (snd (fst (hs ! n))))" "byte s (fst (fst (hs ! n)) + word_of_nat j) = u"
        using was [of n j u] by simp_all
      have "apart (client_block (map fst hs ! k)) (client_block (map fst hs ! n))"
        using handles [OF ok(1)] True n n' by (intro separate_nth) simp_all
      then have "fst (fst (hs ! n)) + word_of_nat j \<noteq> ?a"
        using inb [OF mem(2) [OF n] g(1)] inb [OF live, of i] True n k
        by (auto simp: apart_def in_block_def)
      with g n' st(3) show ?thesis by simp
    qed
    have "remembers (byte (st ?a v s)) ?hs"
      using rem by (fastforce simp: remembers_def in_set_conv_nth)
    with st same True k show ?thesis by (simp add: served_def)
  qed (use assms k in \<open>auto\<close>)
qed

theorem serve_all_served:
  "served (s, hs) \<Longrightarrow> \<forall>l\<in>set (layouts_of rs). good (region s) l \<Longrightarrow>
     \<exists>s' hs'. serve_all al de st rs (s, hs) = Some (s', hs') \<and> served (s', hs') \<and> region s' = region s"
proof (induction rs arbitrary: s hs)
  case (Cons r rs)
  have "\<exists>s' hs'. serve al de st r (s, hs) = Some (s', hs') \<and> served (s', hs') \<and> region s' = region s"
    using Cons.prems serve_Alloc serve_Free serve_Store by (cases r) auto
  then obtain s1 hs1 where s1: "serve al de st r (s, hs) = Some (s1, hs1)" "served (s1, hs1)" "region s1 = region s"
    by blast
  have "\<forall>l\<in>set (layouts_of rs). good (region s1) l" using Cons.prems(2) s1(3) by (cases r) auto
  from Cons.IH [OF s1(2) this] s1 show ?case by auto
qed simp

end

end
