(* ===== verification/Slab_Spec.thy ===== *)
theory Slab_Spec
  imports Slab_Client
begin

text \<open>
  The slab allocator's own contract, \<^verbatim>\<open>alloc\<close> and \<^verbatim>\<open>dealloc\<close> as its clients see them, and the
  interpretation of \<open>allocator\<close> on it.
\<close>

subsection \<open>The state of an allocator and its clients\<close>

text \<open>The memory set aside for a block: a whole block of its class, or exactly its size.\<close>

definition extent :: "handle \<Rightarrow> block" where
  "extent h = (unat (fst h), case class_index_for (snd h) of
     Some i \<Rightarrow> class_size i | None \<Rightarrow> unat (l_size (snd h)))"

definition handle_ok :: "handle \<Rightarrow> bool" where
  "handle_ok h \<longleftrightarrow> valid_layout (snd h) \<and> aligned h
     \<and> (case class_index_for (snd h) of Some i \<Rightarrow> class_size i dvd unat (fst h) | None \<Rightarrow> True)"

definition slab_ok :: "slab_allocator \<Rightarrow> handle list \<Rightarrow> bool" where
  "slab_ok s live \<longleftrightarrow> (\<exists>fls. heap_ok s fls (map extent live)) \<and> (\<forall>h\<in>set live. handle_ok h)"

text \<open>Layouts that can be asked for: rounding an address of the heap up to the alignment must not
  overflow.\<close>

definition slab_good :: "u64 \<times> u64 \<Rightarrow> layout \<Rightarrow> bool" where
  "slab_good r l \<longleftrightarrow> valid_layout l \<and> unat (snd r) + unat (l_align l) < 2 ^ 64"

definition slab_store :: "u64 \<Rightarrow> u8 \<Rightarrow> slab_allocator \<Rightarrow> slab_allocator" where
  "slab_store a v s = s\<lparr>mem := (mem s)(a := v)\<rparr>"

lemma extent_covers: "\<exists>k. extent h = (unat (fst h), k) \<and> unat (l_size (snd h)) \<le> k"
  using class_index_Some(2) [of "snd h"] by (auto simp: extent_def split: option.splits)

lemma in_extent: "in_block x (client_block h) \<Longrightarrow> in_block x (extent h)"
  using extent_covers [of h] by (auto simp: in_block_def client_block_def)

lemma extents_separate: "all_apart (map extent live) \<Longrightarrow> separate live"
proof (induction live)
  case (Cons g live)
  have "apart (client_block g) (client_block h)" if "h \<in> set live" for h
    using Cons.prems that extent_covers [of g] extent_covers [of h]
    by (fastforce simp: all_apart_Cons client_block_def apart_def)
  with Cons show ?case by (simp add: separate_def all_apart_Cons)
qed (simp add: separate_def all_apart_def)

lemma slab_ok_handles:
  assumes "slab_ok s live"
  shows "separate live" and "h \<in> set live \<Longrightarrow> aligned h" and "h \<in> set live \<Longrightarrow> inside (limits s) h"
proof -
  obtain fls where fls: "heap_ok s fls (map extent live)" using assms by (auto simp: slab_ok_def)
  then show "separate live" by (intro extents_separate) (simp add: heap_ok_def all_apart_append)
  show "h \<in> set live \<Longrightarrow> aligned h" using assms by (auto simp: slab_ok_def handle_ok_def)
  assume "h \<in> set live"
  then have "taken s (extent h)" "bounds_ok s" using fls by (auto simp: heap_ok_def)
  then show "inside (limits s) h"
    using extent_covers [of h] by (auto simp: taken_def inside_def limits_def bounds_ok_def)
qed

subsection \<open>Allocating\<close>

lemma head_None: "heap_ok s fls R \<Longrightarrow> i < 10 \<Longrightarrow> caches s ! i = None \<longleftrightarrow> fls ! i = []"
  by (cases "fls ! i") (auto simp: heap_ok_def lists_ok_def)

lemma slab_alloc_class:
  assumes ok: "heap_ok s fls R" and i: "class_index_for l = Some i"
  shows "\<exists>p s'. slab_alloc pf l s = Some (Ok p, s') \<and>
    (if p = 0 then s' = s \<and> caches s ! i = None \<and> unat (heap_end s) < unat (bump s) + 8192 \<and> capacity i fls s = 0
     else class_size i dvd unat p \<and> keeps_used R s s' \<and> unat (bump s') < unat (bump s) + 8192
       \<and> (\<exists>fls'. heap_ok s' fls' ((unat p, class_size i) # R) \<and> capacity i fls s = Suc (capacity i fls' s')))"
proof -
  note i10 = class_index_Some(1) [OF i]
  have init: "initialized s" and len: "length fls = 10"
    using ok by (simp_all add: heap_ok_def bounds_ok_def lists_ok_def)
  have pop: "\<exists>p s'. pop_block i s1 = (Ok p, s') \<and> p \<noteq> 0 \<and> class_size i dvd unat p \<and> keeps_used R s1 s' \<and> bump s' = bump s1
      \<and> (\<exists>fls'. heap_ok s' fls' ((unat p, class_size i) # R) \<and> capacity i fls1 s1 = Suc (capacity i fls' s'))"
    if st: "heap_ok s1 fls1 R" and hd: "fls1 ! i = a # t" for s1 fls1 a t
  proof -
    obtain s' where s': "pop_block i s1 = (Ok a, s')" "heap_ok s' (fls1[i := t]) ((unat a, class_size i) # R)"
      "mem s' = mem s1" "limits s' = limits s1" and b: "bump s' = bump s1"
      using pop_ok(1) [OF st i10 hd] by (auto simp: pop_block_def split: option.splits)
    have "i < length fls1" using st i10 by (simp add: heap_ok_def lists_ok_def)
    then have "capacity i fls1 s1 = Suc (capacity i (fls1[i := t]) s')"
      using hd b s'(4) by (simp add: capacity_def pages_left_def limits_def)
    with s' b pop_ok(2,3) [OF st i10 hd] show ?thesis by (auto simp: keeps_used_def)
  qed
  show ?thesis
  proof (cases "fls ! i")
    case (Cons a t)
    have "caches s ! i \<noteq> None" using head_None [OF ok i10] Cons by simp
    with pop [OF ok Cons] i init show ?thesis
      by (elim exE conjE) (rule exI, rule exI, rule conjI, simp add: slab_alloc_def, auto)
  next
    case Nil
    obtain b s1 where b: "refill_cache pf i s = Some (Ok b, s1)"
      "if b then \<exists>new. length new = 4096 div class_size i \<and> heap_ok s1 (fls[i := new @ fls ! i]) R \<and> keeps_used R s s1
           \<and> pages_left s = Suc (pages_left s1) \<and> unat (bump s1) < unat (bump s) + 8192
       else s1 = s \<and> unat (heap_end s) < unat (bump s) + 8192 \<and> pages_left s = 0"
      using refill_cache_ok [OF ok i10, of pf] by blast
    have none: "caches s ! i = None" using head_None [OF ok i10] Nil by simp
    show ?thesis
    proof (cases b)
      case True
      have "0 < 4096 div class_size i" using class_size_bounds [OF i10] by (auto simp: div_greater_zero_iff)
      moreover obtain new where "length new = 4096 div class_size i"
        and new: "heap_ok s1 (fls[i := new]) R" "keeps_used R s s1" "pages_left s = Suc (pages_left s1)"
          "unat (bump s1) < unat (bump s) + 8192"
        using True b(2) Nil by auto
      ultimately have "new \<noteq> []" and cap: "capacity i fls s = capacity i (fls[i := new]) s1"
        using i10 len Nil by (auto simp: capacity_def)
      then obtain a t where "(fls[i := new]) ! i = a # t" using i10 len by (cases new) auto
      from pop [OF new(1) this] obtain p s' fls' where p: "pop_block i s1 = (Ok p, s')" "p \<noteq> 0"
        "class_size i dvd unat p" "keeps_used R s1 s'" "bump s' = bump s1"
        "heap_ok s' fls' ((unat p, class_size i) # R)" "capacity i (fls[i := new]) s1 = Suc (capacity i fls' s')"
        by blast
      have "slab_alloc pf l s = Some (Ok p, s')" using b(1) True none i init p(1) by (simp add: slab_alloc_def)
      with p(2-7) new(4) cap keeps_used_trans [OF new(2) p(4)] show ?thesis by auto
    next
      case False
      with b none i init Nil show ?thesis by (simp add: slab_alloc_def capacity_def)
    qed
  qed
qed

lemma slab_alloc_big:
  assumes ok: "heap_ok s fls R" and i: "class_index_for l = None" and l: "slab_good (limits s) l"
  shows "\<exists>p s'. slab_alloc pf l s = Some (Ok p, s') \<and>
    (if p = 0 then s' = s \<and> unat (heap_end s) < unat (bump s) + unat (l_align l) + unat (l_size l)
     else unat (l_align l) dvd unat p \<and> keeps_used R s s' \<and> heap_ok s' fls ((unat p, unat (l_size l)) # R)
       \<and> (\<forall>i<unat (l_size l). mem s' (p + word_of_nat i) = 0)
       \<and> unat (bump s') < unat (bump s) + unat (l_align l) + unat (l_size l))"
proof -
  have "initialized s" using ok by (simp add: heap_ok_def bounds_ok_def)
  moreover have "is_power_of_two (l_align l)" "unat (heap_end s) + unat (l_align l) < 2 ^ 64"
    using l by (simp_all add: slab_good_def limits_def valid_layout_def)
  from alloc_from_bump_ok [OF ok this, of pf] obtain p s' where p: "alloc_from_bump pf l s = (Ok p, s')"
    "case p of None \<Rightarrow> s' = s \<and> unat (heap_end s) < unat (bump s) + unat (l_align l) + unat (l_size l)
     | Some a \<Rightarrow> heap_ok s' fls ((unat a, unat (l_size l)) # R) \<and> unat (l_align l) dvd unat a \<and> a \<noteq> 0
         \<and> keeps_used R s s' \<and> (\<forall>i<unat (l_size l). mem s' (a + word_of_nat i) = 0)
         \<and> unat (bump s') < unat (bump s) + unat (l_align l) + unat (l_size l)"
    by (elim exE conjE) (rule that, assumption, auto split: option.splits)
  ultimately show ?thesis using i by (cases p) (auto simp: slab_alloc_def address_of_def)
qed

text \<open>What allocating does to the clients' blocks.\<close>

lemma slab_alloc_ok:
  assumes ok: "slab_ok s live" and l: "slab_good (limits s) l"
  shows "\<exists>p s'. slab_alloc pf l s = Some (Ok p, s') \<and> slab_ok s' (if p = 0 then live else (p, l) # live)
    \<and> limits s' = limits s
    \<and> (\<forall>h\<in>set live. \<forall>x. in_block x (client_block h) \<longrightarrow> mem s' x = mem s x)
    \<and> (p = 0 \<longrightarrow> s' = s \<and> unat (heap_end s) < unat (bump s)
         + (if class_index_for l = None then unat (l_align l) + unat (l_size l) else 8192))
    \<and> (p \<noteq> 0 \<longrightarrow> class_index_for l = None \<longrightarrow> (\<forall>i<unat (l_size l). mem s' (p + word_of_nat i) = 0))"
proof -
  let ?R = "map extent live"
  obtain fls where fls: "heap_ok s fls ?R" using ok by (auto simp: slab_ok_def)
  have valid: "valid_layout l" using l by (simp add: slab_good_def)
  have keep: "limits s' = limits s \<and> (\<forall>h\<in>set live. \<forall>x. in_block x (client_block h) \<longrightarrow> mem s' x = mem s x)"
    if "keeps_used ?R s s'" for s'
    using that in_extent by (fastforce simp: keeps_used_def)
  show ?thesis
  proof (cases "class_index_for l")
    case None
    have "extent (p, l) = (unat p, unat (l_size l))" for p using None by (simp add: extent_def)
    moreover have "handle_ok (p, l) \<longleftrightarrow> p \<noteq> 0 \<and> unat (l_align l) dvd unat p" for p
      using None valid by (simp add: handle_ok_def aligned_def)
    moreover from slab_alloc_big [OF fls None l, of pf] obtain p s' where
      p: "slab_alloc pf l s = Some (Ok p, s')"
      "p = 0 \<Longrightarrow> s' = s \<and> unat (heap_end s) < unat (bump s) + unat (l_align l) + unat (l_size l)"
      "p \<noteq> 0 \<Longrightarrow> unat (l_align l) dvd unat p \<and> keeps_used ?R s s'
        \<and> heap_ok s' fls ((unat p, unat (l_size l)) # ?R) \<and> (\<forall>i<unat (l_size l). mem s' (p + word_of_nat i) = 0)"
      by (elim exE conjE) (rule that, assumption, auto)
    ultimately show ?thesis
      using keep [of s'] None ok by (cases "p = 0") (auto simp: slab_ok_def)
  next
    case (Some i)
    have "extent (p, l) = (unat p, class_size i)" for p using Some by (simp add: extent_def)
    moreover have "handle_ok (p, l)" if "p \<noteq> 0" "class_size i dvd unat p" for p
      using Some valid class_align [OF valid Some] that
      by (auto simp: handle_ok_def aligned_def intro: dvd_trans)
    moreover from slab_alloc_class [OF fls Some, of pf] obtain p s' where
      p: "slab_alloc pf l s = Some (Ok p, s')"
      "p = 0 \<Longrightarrow> s' = s \<and> unat (heap_end s) < unat (bump s) + 8192"
      "p \<noteq> 0 \<Longrightarrow> class_size i dvd unat p \<and> keeps_used ?R s s'
        \<and> (\<exists>fls'. heap_ok s' fls' ((unat p, class_size i) # ?R))"
      by (elim exE conjE) (rule that, assumption, auto)
    ultimately show ?thesis
      using keep [of s'] Some ok by (cases "p = 0") (auto simp: slab_ok_def)
  qed
qed

text \<open>
  When there is nothing left for a layout. A block of a class comes from its free list, or from a page cut
  into blocks; a larger one from the bump region, from the next address of its alignment on.
\<close>

definition no_room :: "layout \<Rightarrow> slab_allocator \<Rightarrow> bool" where
  "no_room l s \<longleftrightarrow> (case class_index_for l of
     Some i \<Rightarrow> caches s ! i = None \<and> pages_left s = 0
   | None \<Rightarrow> unat (heap_end s)
       < unat (l_align l) * ((unat (bump s) + unat (l_align l) - 1) div unat (l_align l)) + unat (l_size l))"

lemma class_null_iff:
  assumes ok: "heap_ok s fls R" and i: "class_index_for l = Some i" and p: "slab_alloc pf l s = Some (Ok p, s')"
  shows "p = 0 \<longleftrightarrow> no_room l s"
proof -
  note i10 = class_index_Some(1) [OF i]
  have "0 < 4096 div class_size i" using class_size_bounds [OF i10] by (auto simp: div_greater_zero_iff)
  then have "no_room l s \<longleftrightarrow> capacity i fls s = 0"
    using head_None [OF ok i10] by (auto simp: no_room_def i capacity_def)
  moreover have "p = 0 \<longleftrightarrow> capacity i fls s = 0"
    using slab_alloc_class [OF ok i, of pf] p by (auto split: if_splits)
  ultimately show ?thesis by simp
qed

lemma big_null_iff:
  assumes ok: "heap_ok s fls R" and i: "class_index_for l = None" and l: "slab_good (limits s) l"
    and p: "slab_alloc pf l s = Some (Ok p, s')"
  shows "p = 0 \<longleftrightarrow> no_room l s"
proof -
  define at where "at = unat (l_align l) * ((unat (bump s) + unat (l_align l) - 1) div unat (l_align l))"
  have no_room: "no_room l s \<longleftrightarrow> unat (heap_end s) < at + unat (l_size l)" by (simp add: no_room_def i at_def)
  have "is_power_of_two (l_align l)" "unat (heap_end s) + unat (l_align l) < 2 ^ 64"
    using l by (simp_all add: slab_good_def limits_def valid_layout_def)
  from alloc_from_bump_ok [OF ok this, of pf, folded at_def] obtain q s1 where q: "alloc_from_bump pf l s = (Ok q, s1)"
    and c: "case q of
       None \<Rightarrow> s1 = s \<and> unat (heap_end s) < unat (bump s) + unat (l_align l) + unat (l_size l)
         \<and> unat (heap_end s) < at + unat (l_size l)
     | Some a \<Rightarrow> heap_ok s1 fls ((unat a, unat (l_size l)) # R) \<and> unat (l_align l) dvd unat a \<and> a \<noteq> 0
         \<and> keeps_used R s s1 \<and> (\<forall>i<unat (l_size l). mem s1 (a + word_of_nat i) = 0)
         \<and> unat a = at \<and> unat a < unat (bump s) + unat (l_align l) \<and> unat (bump s1) = unat a + unat (l_size l)"
    by blast
  have "initialized s" using ok by (simp add: heap_ok_def bounds_ok_def)
  with p q i have p: "p = address_of q" by (simp add: slab_alloc_def)
  show ?thesis
  proof (cases q)
    case None
    with c p no_room show ?thesis by (simp add: address_of_def)
  next
    case (Some a)
    with c have a: "bounds_ok s1" "limits s1 = limits s" "a \<noteq> 0" "unat (bump s1) = at + unat (l_size l)"
      by (simp_all add: heap_ok_def keeps_used_def)
    have "unat (bump s1) \<le> unat (heap_end s1)" using a(1) by (simp add: bounds_ok_def)
    moreover have "heap_end s1 = heap_end s" using a(2) by (simp add: limits_def)
    ultimately have "\<not> no_room l s" unfolding no_room a(4) by simp
    with a(3) p Some show ?thesis by (simp add: address_of_def)
  qed
qed

lemma slab_alloc_null_iff:
  assumes "slab_ok s live" "slab_good (limits s) l" "slab_alloc pf l s = Some (Ok p, s')"
  shows "p = 0 \<longleftrightarrow> no_room l s"
proof -
  obtain fls where "heap_ok s fls (map extent live)" using assms(1) by (auto simp: slab_ok_def)
  with assms(2,3) show ?thesis
    using class_null_iff big_null_iff by (cases "class_index_for l") blast+
qed

subsection \<open>Releasing\<close>

lemma slab_dealloc_ok:
  assumes ok: "slab_ok s live" and k: "k < length live" "live ! k = (p, l)"
  shows "slab_ok (slab_dealloc p l s) (without k live) \<and> limits (slab_dealloc p l s) = limits s
    \<and> (\<forall>h\<in>set (without k live). \<forall>x. in_block x (client_block h) \<longrightarrow>
         mem (slab_dealloc p l s) x = mem s x)"
proof -
  let ?R = "map extent (without k live)"
  obtain fls where "heap_ok s fls (map extent live)" using ok by (auto simp: slab_ok_def)
  moreover have "mset (map extent live) = mset (extent (p, l) # ?R)"
    unfolding mset_map using mset_without [OF k(1)] k(2) by simp
  ultimately have fls: "heap_ok s fls (extent (p, l) # ?R)" using heap_ok_perm by blast
  have hs: "\<forall>h\<in>set (without k live). handle_ok h"
    using ok set_without [OF k(1)] by (auto simp: slab_ok_def)
  have "(p, l) \<in> set live" using k nth_mem by metis
  then have h: "handle_ok (p, l)" using ok by (auto simp: slab_ok_def)
  then have p: "p \<noteq> 0" "initialized s"
    using fls by (simp_all add: handle_ok_def aligned_def heap_ok_def bounds_ok_def)
  show ?thesis
  proof (cases "class_index_for l")
    case None
    with p have "slab_dealloc p l s = s" by (simp add: slab_dealloc_def)
    with heap_ok_drop [OF fls] hs show ?thesis by (auto simp: slab_ok_def)
  next
    case (Some i)
    then have e: "extent (p, l) = (unat p, class_size i)" by (simp add: extent_def)
    have d: "class_size i dvd unat p" using h Some by (simp add: handle_ok_def)
    have de: "slab_dealloc p l s = push_block i p s" using p Some by (simp add: slab_dealloc_def)
    note push = push_ok [OF fls [unfolded e] class_index_Some(1) [OF Some] d]
    have lim: "limits (push_block i p s) = limits s" by (simp add: push_block_def limits_def)
    have "keeps_used ?R s (push_block i p s)"
      by (rule keeps_used_apart [OF fls [unfolded e] lim push(2)])
    then show ?thesis
      unfolding de using push(1) hs lim in_extent by (fastforce simp: slab_ok_def keeps_used_def)
  qed
qed

lemma slab_store_ok:
  assumes "slab_ok s live" "h \<in> set live" "in_block a (client_block h)"
  shows "slab_ok (slab_store a v s) live"
proof -
  obtain fls where "heap_ok s fls (map extent live)" using assms(1) by (auto simp: slab_ok_def)
  then have "heap_ok (s\<lparr>mem := (mem s)(a := v)\<rparr>) fls (map extent live)"
    using assms(2) in_extent [OF assms(3)] by (intro heap_ok_write) (auto split: if_splits)
  with assms(1) show ?thesis by (auto simp: slab_ok_def slab_store_def)
qed

subsection \<open>The contract holds\<close>

interpretation slab: allocator slab_ok limits slab_good mem "slab_alloc pf" slab_dealloc slab_store for pf
proof
  fix s live l
  assume "slab_ok s live" "slab_good (limits s) l"
  from slab_alloc_ok [OF this, of pf]
  show "\<exists>p s'. slab_alloc pf l s = Some (Ok p, s') \<and> slab_ok s' (if p = 0 then live else (p, l) # live)
      \<and> limits s' = limits s
      \<and> (\<forall>h\<in>set live. \<forall>x. in_block x (client_block h) \<longrightarrow> mem s' x = mem s x)"
    by blast
next
  fix s live k p l
  assume "slab_ok s live" "k < length live" "live ! k = (p, l)"
  then show "slab_ok (slab_dealloc p l s) (without k live) \<and> limits (slab_dealloc p l s) = limits s
      \<and> (\<forall>h\<in>set (without k live). \<forall>x. in_block x (client_block h) \<longrightarrow>
           mem (slab_dealloc p l s) x = mem s x)"
    by (rule slab_dealloc_ok)
next
  fix s live h a v
  assume "slab_ok s live" "h \<in> set live" "in_block a (client_block h)"
  from slab_store_ok [OF this]
  show "slab_ok (slab_store a v s) live \<and> limits (slab_store a v s) = limits s
      \<and> mem (slab_store a v s) = (mem s)(a := v)"
    by (simp add: slab_store_def limits_def)
next
  fix s live
  assume "slab_ok s live"
  from slab_ok_handles [OF this]
  show "separate live \<and> (\<forall>h\<in>set live. aligned h \<and> inside (limits s) h)" by blast
qed

end
