(* ===== verification/Slab_Use.thy ===== *)
theory Slab_Use
  imports Slab_Spec
begin

text \<open>
  Using the slab allocator: from \<^verbatim>\<open>init\<close> to whole sequences of requests, reuse of released blocks, and
  when the loop that cuts chunks ends.
\<close>

subsection \<open>Aligning\<close>

text \<open>\<^verbatim>\<open>align_up\<close> is the least multiple of the alignment from its argument on.\<close>

theorem align_up_least:
  assumes "is_power_of_two a" "unat x + unat a < 2 ^ 64"
  shows "\<exists>y. align_up pf x a = Ok y \<and> unat x \<le> unat y \<and> unat a dvd unat y
    \<and> (\<forall>z. unat x \<le> z \<longrightarrow> unat a dvd z \<longrightarrow> unat y \<le> z)"
proof -
  obtain y where y: "align_up pf x a = Ok y" "unat x \<le> unat y" "unat y < unat x + unat a" "unat a dvd unat y"
    using align_up_spec [OF assms] by blast
  have "unat y \<le> z" if z: "unat x \<le> z" "unat a dvd z" for z
  proof (rule ccontr)
    assume "\<not> unat y \<le> z"
    moreover have "unat a dvd unat y - z" using y(4) z(2) by simp
    ultimately show False using y(3) z(1) dvd_imp_le [of "unat a" "unat y - z"] by simp
  qed
  with y show ?thesis by blast
qed

lemma align_up_least_witness:
  "\<exists>y. align_up Debug 4097 64 = Ok y \<and> 4097 \<le> unat y \<and> 64 dvd unat y \<and> unat y \<le> 4160"
proof -
  have "is_power_of_two (64 :: u64)" "unat (4097 :: u64) + unat (64 :: u64) < 2 ^ 64"
    by (simp_all add: is_power_of_two_def)
  from align_up_least [OF this, of Debug] obtain y where y: "align_up Debug 4097 64 = Ok y"
    "4097 \<le> unat y" "64 dvd unat y" "\<forall>z. 4097 \<le> z \<longrightarrow> 64 dvd z \<longrightarrow> unat y \<le> z"
    by auto
  moreover have "(64 :: nat) dvd 4160" by simp
  ultimately show ?thesis by auto
qed

subsection \<open>Starting\<close>

lemma len10: "length SIZE_CLASSES = 10"
  by (simp add: SIZE_CLASSES_def)

lemma slab_init_heap:
  assumes "0 < unat start" "unat start + unat sz + 4096 < 2 ^ 64"
  shows "\<exists>s. slab_init pf start sz (slab_new m) = (Ok (), s) \<and> heap_ok s (replicate 10 []) [] \<and> mem s = m
    \<and> limits s = (start, start + sz) \<and> bump s = start \<and> initialized s"
proof -
  have add: "arith_add pf start sz = (Ok (start + sz) :: (unit, u64) res)" "unat (start + sz) = unat start + unat sz"
    using assms by (simp_all add: add64_Ok add64)
  let ?s = "(slab_new m)\<lparr>heap_start := start, heap_end := start + sz, bump := start, initialized := True\<rparr>"
  have "free_blocks k (replicate n []) = []" for k n by (induction n arbitrary: k) simp_all
  moreover have "lists_ok ?s (replicate 10 [])"
    by (simp only: lists_ok_def slab_new_def len10)
      (simp del: replicate_0 replicate_Suc add: nth_replicate)
  ultimately have "heap_ok ?s (replicate 10 []) []"
    using assms add(2) by (simp add: heap_ok_def bounds_ok_def all_apart_def)
  moreover have "slab_init pf start sz (slab_new m) = (Ok (), ?s)"
    using add(1) by (simp add: slab_init_def slab_new_def Let_def)
  ultimately show ?thesis by (simp add: limits_def slab_new_def)
qed

lemma slab_init_ok:
  assumes "0 < unat start" "unat start + unat sz + 4096 < 2 ^ 64"
  shows "\<exists>s. slab_init pf start sz (slab_new m) = (Ok (), s) \<and> slab_ok s [] \<and> mem s = m
    \<and> limits s = (start, start + sz) \<and> bump s = start \<and> initialized s"
  using slab_init_heap [OF assms, of pf m] by (auto simp: slab_ok_def)

text \<open>An allocator on a heap of 64 KiB at address 65536.\<close>

definition small_heap :: slab_allocator where
  "small_heap = snd (slab_init Debug 0x10000 0x10000 (slab_new (\<lambda>_. 0)))"

lemma small_heap: "slab_init Debug 0x10000 0x10000 (slab_new (\<lambda>_. 0)) = (Ok (), small_heap)"
  "slab_ok small_heap []" "limits small_heap = (0x10000, 0x20000)"
  using slab_init_ok [of "0x10000" "0x10000" Debug "\<lambda>_. 0"] by (auto simp: small_heap_def)

definition page :: layout where
  "page = \<lparr>l_size = 4096, l_align = 64\<rparr>"

lemma page: "valid_layout page" "class_index_for page = Some 9" "slab_good (limits small_heap) page"
  by (simp_all add: page_def valid_layout_def is_power_of_two_def class_index_for_def SIZE_CLASSES_def
    slab_good_def small_heap)

subsection \<open>Whole clients\<close>

text \<open>C21: after \<^verbatim>\<open>init\<close>, any sequence of allocations, releases and writes by clients that touch only the
  blocks they hold runs to its end without a panic. The blocks held then do not overlap, are aligned
  as asked, lie in the heap, and every byte written to one of them reads back as written last.\<close>

theorem slab_clients_safe:
  assumes "0 < unat start" "unat start + unat sz + 4096 < 2 ^ 64"
    and "slab_init pf start sz (slab_new m) = (Ok (), s0)"
    and "\<forall>l\<in>set (layouts_of rs). valid_layout l \<and> unat start + unat sz + unat (l_align l) < 2 ^ 64"
  shows "\<exists>s hs. serve_all (slab_alloc pf) slab_dealloc slab_store rs (s0, []) = Some (s, hs)
    \<and> separate (map fst hs)
    \<and> (\<forall>h\<in>set (map fst hs). aligned h \<and> inside (start, start + sz) h)
    \<and> remembers (mem s) hs"
proof -
  have s0: "slab_ok s0 []" "limits s0 = (start, start + sz)"
    using slab_init_ok [OF assms(1,2), of pf m] assms(3) by auto
  have "unat (start + sz) = unat start + unat sz" using assms(2) by (simp add: add64)
  then have "\<forall>l\<in>set (layouts_of rs). slab_good (limits s0) l" using assms(4) s0(2) by (simp add: slab_good_def)
  moreover have "slab.served (s0, [])" using s0(1) by (simp add: slab.served_def remembers_def)
  ultimately obtain s hs where s: "slab.served (s, hs)" "limits s = limits s0"
    "serve_all (slab_alloc pf) slab_dealloc slab_store rs (s0, []) = Some (s, hs)"
    using slab.serve_all_served by blast
  then have ok: "slab_ok s (map fst hs)" "remembers (mem s) hs" by (simp_all add: slab.served_def)
  from slab.handles [OF ok(1)] have "separate (map fst hs)"
    "\<forall>h\<in>set (map fst hs). aligned h \<and> inside (start, start + sz) h"
    using s(2) s0(2) by simp_all
  with s(3) ok(2) show ?thesis by blast
qed

lemma slab_clients_safe_witness:
  "\<exists>s hs. serve_all (slab_alloc Debug) slab_dealloc slab_store
       [Alloc page, Store 0 7 42, Alloc \<lparr>l_size = 24, l_align = 32\<rparr>, Free 1] (small_heap, []) = Some (s, hs)
    \<and> separate (map fst hs) \<and> remembers (mem s) hs"
proof -
  have "\<forall>l\<in>set (layouts_of [Alloc page, Store 0 7 42, Alloc \<lparr>l_size = 24, l_align = 32\<rparr>, Free 1]).
      valid_layout l \<and> unat (0x10000 :: u64) + unat (0x10000 :: u64) + unat (l_align l) < 2 ^ 64"
    by (simp add: page_def valid_layout_def is_power_of_two_def)
  from slab_clients_safe [OF _ _ small_heap(1) this] show ?thesis by auto
qed

text \<open>C22: allocating from a sound state returns. The block is aligned as asked, inside the heap, apart from
  every block held, and no byte of those changes; blocks over 4096 bytes are zeroed. It returns null exactly when
  there is no room, and then changes nothing: for a class, when the free list is empty and no whole aligned page is
  left after the bump pointer; for a larger block, when it does not fit from the next aligned address on.\<close>

theorem slab_alloc_spec:
  assumes "slab_ok s live" "valid_layout l" "unat (heap_end s) + unat (l_align l) < 2 ^ 64"
  shows "\<exists>p s'. slab_alloc pf l s = Some (Ok p, s') \<and>
    (p = 0 \<longleftrightarrow> no_room l s) \<and>
    (if p = 0 then s' = s \<and> (case class_index_for l of
         None \<Rightarrow> unat (heap_end s) < unat (bump s) + unat (l_align l) + unat (l_size l)
       | Some i \<Rightarrow> unat (heap_end s) < unat (bump s) + 8192)
     else slab_ok s' ((p, l) # live) \<and> aligned (p, l) \<and> inside (limits s) (p, l)
       \<and> (\<forall>h\<in>set live. apart (client_block (p, l)) (client_block h)
            \<and> (\<forall>x. in_block x (client_block h) \<longrightarrow> mem s' x = mem s x))
       \<and> (4096 < unat (l_size l) \<longrightarrow> (\<forall>i<unat (l_size l). mem s' (p + word_of_nat i) = 0)))"
proof -
  have l: "slab_good (limits s) l" using assms(2,3) by (simp add: slab_good_def limits_def)
  obtain p s' where p: "slab_alloc pf l s = Some (Ok p, s')" "limits s' = limits s"
    "slab_ok s' (if p = 0 then live else (p, l) # live)"
    "\<forall>h\<in>set live. \<forall>x. in_block x (client_block h) \<longrightarrow> mem s' x = mem s x"
    "p = 0 \<longrightarrow> s' = s \<and> unat (heap_end s) < unat (bump s)
         + (if class_index_for l = None then unat (l_align l) + unat (l_size l) else 8192)"
    "p \<noteq> 0 \<longrightarrow> class_index_for l = None \<longrightarrow> (\<forall>i<unat (l_size l). mem s' (p + word_of_nat i) = 0)"
    using slab_alloc_ok [OF assms(1) l, of pf] by (elim exE conjE) (rule that)
  have null: "p = 0 \<longleftrightarrow> no_room l s" by (rule slab_alloc_null_iff [OF assms(1) l p(1)])
  show ?thesis
  proof (cases "p = 0")
    case True
    with p(1,5) null show ?thesis by (auto split: option.splits)
  next
    case False
    with p(3) have ok: "slab_ok s' ((p, l) # live)" by simp
    from slab_ok_handles [OF ok] have "aligned (p, l)" "inside (limits s) (p, l)"
      "\<forall>h\<in>set live. apart (client_block (p, l)) (client_block h)"
      using p(2) by (auto simp: separate_def all_apart_Cons)
    moreover have "class_index_for l = None" if "4096 < unat (l_size l)" using that by (simp add: class_index_None)
    ultimately show ?thesis using False null ok p by auto
  qed
qed

lemma slab_alloc_spec_witness:
  "\<exists>p s'. slab_alloc Debug page small_heap = Some (Ok p, s') \<and> p \<noteq> 0 \<and> aligned (p, page)"
  using slab_alloc_spec [of small_heap "[]" page Debug] small_heap page
  by (auto simp: limits_def page_def small_heap_def slab_init_def slab_new_def arith_add_def class_index_for_def SIZE_CLASSES_def split: if_splits)

lemma slab_alloc_page: "\<exists>p s'. slab_alloc Debug page small_heap = Some (Ok p, s') \<and> p \<noteq> 0"
proof -
  have "bump small_heap = 0x10000" by (simp add: small_heap_def slab_init_def slab_new_def arith_add_def)
  moreover have "heap_end small_heap = 0x20000" using small_heap(3) by (simp add: limits_def)
  moreover obtain p s' where "slab_alloc Debug page small_heap = Some (Ok p, s')"
    "p = 0 \<longrightarrow> unat (heap_end small_heap) < unat (bump small_heap) + 8192"
    using slab_alloc_ok [OF small_heap(2) page(3), of Debug] page(2) by auto
  ultimately show ?thesis by auto
qed

subsection \<open>Reuse\<close>

text \<open>C24: a released block is the next one handed out for its class, and its free list is then as before the
  release; nothing but the first eight bytes of the block has changed.\<close>

theorem slab_reuse_lifo:
  assumes "slab_ok s live" "(p, l) \<in> set live"
    and "class_index_for l = Some i" "class_index_for l' = Some i"
  shows "\<exists>s'. slab_alloc pf l' (slab_dealloc p l s) = Some (Ok p, s') \<and> caches s' = caches s
    \<and> bump s' = bump s \<and> (\<forall>x. \<not> in_block x (unat p, 8) \<longrightarrow> mem s' x = mem s x)"
proof -
  obtain fls where fls: "heap_ok s fls (map extent live)" using assms(1) by (auto simp: slab_ok_def)
  note i = class_index_Some(1) [OF assms(3)]
  have p: "p \<noteq> 0" "initialized s" "length (caches s) = 10"
    using assms(1,2) fls by (auto simp: slab_ok_def handle_ok_def aligned_def heap_ok_def bounds_ok_def lists_ok_def)
  have "taken s (extent (p, l))" "bounds_ok s" using fls assms(2) by (auto simp: heap_ok_def)
  then have "unat p + class_size i \<le> 2 ^ 64"
    using taken_bound [of s p "class_size i"] assms(3) by (simp add: extent_def)
  then have fits: "unat p + 8 \<le> 2 ^ 64" using class_size_bounds [OF i] by simp
  have "caches s ! i \<noteq> Some 0"
    using fls i node_list_head by (auto simp: heap_ok_def lists_ok_def)
  then have nxt: "read_next (write_next p (caches s ! i) (mem s)) p = caches s ! i"
    using read_write_next [OF fits] by simp
  have de: "slab_dealloc p l s = push_block i p s" using p assms(3) by (simp add: slab_dealloc_def)
  show ?thesis
    unfolding de using p i nxt assms(4) write_next_elsewhere [OF fits]
    by (simp add: slab_alloc_def pop_block_def push_block_def non_null_def)
qed

lemma slab_reuse_lifo_witness:
  "\<exists>p s s'. slab_alloc Debug page small_heap = Some (Ok p, s)
    \<and> slab_alloc Debug \<lparr>l_size = 3000, l_align = 8\<rparr> (slab_dealloc p page s) = Some (Ok p, s')"
proof -
  obtain p s where p: "slab_alloc Debug page small_heap = Some (Ok p, s)" "p \<noteq> 0" "slab_ok s [(p, page)]"
    using slab_alloc_ok [OF small_heap(2) page(3), of Debug] slab_alloc_page by auto
  have "class_index_for \<lparr>l_size = 3000, l_align = 8\<rparr> = Some 9"
    by (simp add: class_index_for_def SIZE_CLASSES_def)
  from slab_reuse_lifo [OF p(3) _ page(2) this, of p Debug] p(1) show ?thesis by auto
qed

subsection \<open>Cutting chunks\<close>

text \<open>C25: refilling a free list ends. It takes the next whole page of the heap and cuts it into
  \<open>4096 / size\<close> new free blocks, or there is no page left, and then it changes nothing.\<close>

theorem refill_terminates:
  assumes "heap_ok s fls R" "i < 10"
  shows "\<exists>b s'. refill_cache pf i s = Some (Ok b, s') \<and>
    (if b then pages_left s = Suc (pages_left s')
         \<and> (\<exists>new. length new = 4096 div class_size i \<and> heap_ok s' (fls[i := new @ fls ! i]) R)
     else s' = s \<and> pages_left s = 0)"
proof -
  from refill_cache_ok [OF assms, of pf] obtain b s' where "refill_cache pf i s = Some (Ok b, s')"
    "if b then \<exists>new. length new = 4096 div class_size i \<and> heap_ok s' (fls[i := new @ fls ! i]) R \<and> keeps_used R s s'
         \<and> pages_left s = Suc (pages_left s') \<and> unat (bump s') < unat (bump s) + 8192
     else s' = s \<and> unat (heap_end s) < unat (bump s) + 8192 \<and> pages_left s = 0"
    by blast
  then show ?thesis by (intro exI [of _ b] exI [of _ s']) auto
qed

lemma refill_terminates_witness:
  "\<exists>b s'. refill_cache Debug 0 small_heap = Some (Ok b, s')"
proof -
  obtain fls where "heap_ok small_heap fls []" using small_heap(2) by (auto simp: slab_ok_def)
  from refill_terminates [OF this, of 0 Debug] show ?thesis by auto
qed

text \<open>In the last page but one the loop goes round and round.\<close>

lemma last_page_step:
  fixes off :: u64
  assumes "unat off mod 4096 = 0"
  shows "off + 4096 \<le> 0xFFFFFFFFFFFFF000" and "unat (off + 4096) mod 4096 = 0"
proof -
  obtain q where q: "unat off = 4096 * q" using assms by (auto simp: mod_eq_0_iff_dvd elim: dvdE)
  define r where "r = (q + 1) mod 2 ^ 52"
  have n: "unat (4096 :: u64) = 4096" "LENGTH(64) = 64" by simp_all
  have f: "(2 :: nat) ^ 64 = 4096 * 2 ^ 52" by simp
  have "unat (off + 4096) = (4096 * (q + 1)) mod (4096 * 2 ^ 52)"
    unfolding unat_word_ariths(1) q n f distrib_left mult_1_right ..
  then have e: "unat (off + 4096) = 4096 * r" by (simp only: mult_mod_right r_def)
  have "r < 2 ^ 52" by (simp add: r_def)
  then show "off + 4096 \<le> 0xFFFFFFFFFFFFF000" by (simp add: word_le_nat_alt e)
  show "unat (off + 4096) mod 4096 = 0" by (simp add: e)
qed

lemma refill_loop_stuck:
  assumes "refill_loop pf idx bs ce off s = Some r"
  shows "\<not> (pf = Release \<and> bs = 4096 \<and> ce = 0xFFFFFFFFFFFFF000 \<and> unat off mod 4096 = 0)"
proof (rule refill_loop.raw_induct [OF _ assms], rule notI)
  fix loop and pf :: profile and idx :: nat and bs ce off :: u64 and s :: slab_allocator and r
  assume IH: "\<And>pf idx bs ce off s r. loop pf idx bs ce off s = Some r \<Longrightarrow>
      \<not> (pf = Release \<and> bs = 4096 \<and> ce = 0xFFFFFFFFFFFFF000 \<and> unat off mod 4096 = 0)"
    and run: "(case arith_add pf off bs of
        Ok e \<Rightarrow> if e \<le> ce then loop pf idx bs ce e (push_block idx off s) else Some (Ok True, s)
      | Err u \<Rightarrow> Some (Err u, s) | Panic \<Rightarrow> Some (Panic, s)) = Some r"
    and at: "pf = Release \<and> bs = 4096 \<and> ce = 0xFFFFFFFFFFFFF000 \<and> unat off mod 4096 = 0"
  then have "unat off mod 4096 = 0" by simp
  note step = last_page_step [OF this]
  have "loop pf idx bs ce (off + 4096) (push_block idx off s) = Some r" using run at step(1) by simp
  from IH [OF this] at step(2) show False by blast
qed

lemma refill_loop_diverges:
  assumes "unat off mod 4096 = 0"
  shows "refill_loop Release idx 4096 0xFFFFFFFFFFFFF000 off s = None"
proof (rule ccontr)
  assume "refill_loop Release idx 4096 0xFFFFFFFFFFFFF000 off s \<noteq> None"
  then obtain r where "refill_loop Release idx 4096 0xFFFFFFFFFFFFF000 off s = Some r" by blast
  from refill_loop_stuck [OF this] assms show False by blast
qed

text \<open>The chunk taken for the last page but one.\<close>

lemma last_chunk:
  assumes "initialized s" "bump s = 0xFFFFFFFFFFFFE000" "heap_end s = 0xFFFFFFFFFFFFF000"
  shows "refill_cache pf 9 s = refill_loop pf 9 4096 0xFFFFFFFFFFFFF000 0xFFFFFFFFFFFFE000
    (s\<lparr>bump := 0xFFFFFFFFFFFFF000, mem := fill_bytes 0xFFFFFFFFFFFFE000 4096 (\<lambda>_. 0) (mem s)\<rparr>)"
proof -
  let ?s = "s\<lparr>bump := 0xFFFFFFFFFFFFF000, mem := fill_bytes 0xFFFFFFFFFFFFE000 4096 (\<lambda>_. 0) (mem s)\<rparr>"
  have "alloc_from_bump pf \<lparr>l_size = 4096, l_align = 4096\<rparr> s = (Ok (Some 0xFFFFFFFFFFFFE000), ?s)"
    using assms by (simp add: alloc_from_bump_def debug_assert_def is_power_of_two_def
      align_up_def arith_add_def arith_sub_def non_null_def Let_def)
  moreover have "arith_add pf 0xFFFFFFFFFFFFE000 CHUNK_SIZE = (Ok 0xFFFFFFFFFFFFF000 :: (unit, u64) res)"
    by (simp add: arith_add_def CHUNK_SIZE_def)
  ultimately show ?thesis by (simp add: refill_cache_def valid_chunk SIZE_CLASSES_def)
qed

text \<open>C26: a heap that ends at the last page boundary of the address space. When a block of the largest class
  is cut from its last page, the sum \<^verbatim>\<open>off + block_size\<close> overflows: with overflow checks \<^verbatim>\<open>alloc\<close>
  panics, without them it never returns.\<close>

theorem slab_alloc_hangs:
  assumes "initialized s" "bump s = 0xFFFFFFFFFFFFE000" "heap_end s = 0xFFFFFFFFFFFFF000"
    and "class_index_for l = Some 9" "caches s ! 9 = None"
  shows "slab_alloc Release l s = None \<and> (\<exists>s'. slab_alloc Debug l s = Some (Panic, s'))"
proof
  have "unat (0xFFFFFFFFFFFFE000 :: u64) mod 4096 = 0" by simp
  then show "slab_alloc Release l s = None"
    using assms by (simp add: slab_alloc_def last_chunk refill_loop_diverges)
  have "\<exists>s'. refill_loop Debug 9 4096 0xFFFFFFFFFFFFF000 0xFFFFFFFFFFFFE000 s1 = Some (Panic, s')" for s1
    by (simp add: refill_loop.simps arith_add_def)
  then show "\<exists>s'. slab_alloc Debug l s = Some (Panic, s')"
    using assms by (simp add: slab_alloc_def last_chunk) (metis (mono_tags, lifting) option.simps(5) case_prod_conv res.simps)
qed

definition top_heap :: slab_allocator where
  "top_heap = snd (slab_init Debug 0xFFFFFFFFFFFFE000 0x1000 (slab_new (\<lambda>_. 0)))"

lemma slab_alloc_hangs_witness:
  "slab_alloc Release page top_heap = None \<and> (\<exists>s'. slab_alloc Debug page top_heap = Some (Panic, s'))"
  by (rule slab_alloc_hangs)
    (simp_all add: top_heap_def slab_init_def slab_new_def arith_add_def page SIZE_CLASSES_def)

text \<open>
  An alignment so large that rounding up the bump pointer overflows: without overflow checks the pointer
  becomes 0 and the bump pointer moves below the heap, into memory that is not the allocator's.
\<close>

lemma bump_leaves_heap:
  fixes s :: slab_allocator
  defines "s \<equiv> snd (slab_init Release 0xFFFF800000000000 0x20000 (slab_new (\<lambda>_. 0)))"
    and "l \<equiv> \<lparr>l_size = 8192, l_align = 0x4000000000000000\<rparr>"
  shows "valid_layout l" and "\<exists>s'. slab_alloc Release l s = Some (Ok 0, s') \<and> bump s' = 8192 \<and> bump s' < heap_start s'"
  by (simp_all add: l_def s_def valid_layout_def is_power_of_two_def slab_init_def slab_new_def slab_alloc_def
    class_index_for_def SIZE_CLASSES_def alloc_from_bump_def debug_assert_def align_up_def non_null_def
    address_of_def Let_def)

end
