(* ===== verification/Serial.thy ===== *)
theory Serial
  imports Prelude
begin

text \<open>
  The serial port of the kernel, from \<^verbatim>\<open>kernel/src/main.rs\<close>: port accesses, and writing a text byte by byte
  once the device is ready. The state is the history of port accesses; the device is a parameter,
  which answers a read from that history. Waiting for a device that is never ready does not return.
\<close>

subsection \<open>Ports\<close>

datatype io = In u16 u8 | Out u16 u8

type_synonym device = "io list \<Rightarrow> u16 \<Rightarrow> u8"

definition outb :: "u16 \<Rightarrow> u8 \<Rightarrow> io list \<Rightarrow> io list" where
  "outb port val h = h @ [Out port val]"

definition inb :: "device \<Rightarrow> u16 \<Rightarrow> io list \<Rightarrow> u8 \<times> io list" where
  "inb dev port h = (let v = dev h port in (v, h @ [In port v]))"

subsection \<open>The serial port\<close>

definition serial_init :: "io list \<Rightarrow> io list" where
  "serial_init h =
     (let h = outb (0x3F8 + 1) 0x00 h;
          h = outb (0x3F8 + 3) 0x80 h;
          h = outb (0x3F8 + 0) 0x01 h;
          h = outb (0x3F8 + 1) 0x00 h;
          h = outb (0x3F8 + 3) 0x03 h;
          h = outb (0x3F8 + 2) 0xC7 h
      in outb (0x3F8 + 4) 0x0B h)"

text \<open>The loop that polls the line status register; \<open>None\<close> when it does not end.\<close>

partial_function (option) serial_wait :: "device \<Rightarrow> io list \<Rightarrow> io list option" where
  "serial_wait dev h =
     (case inb dev (0x3F8 + 5) h of (v, h') \<Rightarrow>
        if v AND 0x20 = 0 then serial_wait dev h' else Some h')"

definition serial_write_byte :: "device \<Rightarrow> u8 \<Rightarrow> io list \<Rightarrow> io list option" where
  "serial_write_byte dev b h =
     (case serial_wait dev h of None \<Rightarrow> None | Some h' \<Rightarrow> Some (outb 0x3F8 b h'))"

fun serial_bytes :: "device \<Rightarrow> rstr \<Rightarrow> io list \<Rightarrow> io list option" where
  "serial_bytes dev [] h = Some h"
| "serial_bytes dev (b # s) h =
     (case serial_write_byte dev b h of None \<Rightarrow> None | Some h' \<Rightarrow> serial_bytes dev s h')"

definition serial_write_str :: "device \<Rightarrow> rstr \<Rightarrow> io list \<Rightarrow> io list option" where
  "serial_write_str dev s h =
     (case serial_bytes dev s h of None \<Rightarrow> None | Some h' \<Rightarrow> serial_write_byte dev (of_char CHR ''\<newline>'') h')"

subsection \<open>Waiting\<close>

text \<open>The history after \<open>n\<close> more polls, and whether the next one finds the device ready.\<close>

primrec polls :: "device \<Rightarrow> nat \<Rightarrow> io list \<Rightarrow> io list" where
  "polls dev 0 h = h"
| "polls dev (Suc n) h = polls dev n h @ [In 0x3FD (dev (polls dev n h) 0x3FD)]"

definition ready :: "device \<Rightarrow> io list \<Rightarrow> bool" where
  "ready dev h \<longleftrightarrow> dev h 0x3FD AND 0x20 \<noteq> 0"

text \<open>Wherever it is left, the device becomes ready after some polls.\<close>

definition responsive :: "device \<Rightarrow> bool" where
  "responsive dev \<longleftrightarrow> (\<forall>h. \<exists>n. ready dev (polls dev n h))"

lemma polls_first: "polls dev (Suc n) h = polls dev n (h @ [In 0x3FD (dev h 0x3FD)])"
  by (induction n) simp_all

lemma serial_wait_step:
  "serial_wait dev h = (if ready dev h then Some (polls dev 1 h) else serial_wait dev (polls dev 1 h))"
  by (subst serial_wait.simps) (simp add: inb_def ready_def Let_def)

lemma serial_wait_Some:
  "ready dev (polls dev n h) \<Longrightarrow> \<forall>k<n. \<not> ready dev (polls dev k h) \<Longrightarrow>
     serial_wait dev h = Some (polls dev (Suc n) h)"
proof (induction n arbitrary: h)
  case 0
  then show ?case by (simp add: serial_wait_step)
next
  case (Suc n)
  have "\<not> ready dev h" using Suc.prems(2) by force
  moreover have "\<forall>k<n. \<not> ready dev (polls dev k (polls dev 1 h))"
    using Suc.prems(2) polls_first [of dev _ h] by (metis One_nat_def Suc_mono polls.simps)
  ultimately show ?case
    using Suc.IH [of "polls dev 1 h"] Suc.prems(1) polls_first [of dev _ h] serial_wait_step [of dev h]
    by (simp del: polls.simps(2) add: polls_first)
qed

lemma serial_wait_ready:
  assumes "serial_wait dev h = Some h'"
  shows "\<exists>n. ready dev (polls dev n h)"
proof (rule serial_wait.raw_induct [OF _ assms])
  fix loop and dev :: device and h h' :: "io list"
  assume IH: "\<And>dev h h'. loop dev h = Some h' \<Longrightarrow> \<exists>n. ready dev (polls dev n h)"
    and run: "(case inb dev (0x3F8 + 5) h of (v, h') \<Rightarrow>
      if v AND 0x20 = 0 then loop dev h' else Some h') = Some h'"
  show "\<exists>n. ready dev (polls dev n h)"
  proof (cases "ready dev h")
    case True
    then show ?thesis by (intro exI [of _ 0]) simp
  next
    case False
    then have "loop dev (h @ [In 0x3FD (dev h 0x3FD)]) = Some h'" using run by (simp add: inb_def ready_def Let_def)
    from IH [OF this] obtain n where "ready dev (polls dev n (h @ [In 0x3FD (dev h 0x3FD)]))" by blast
    then show ?thesis by (intro exI [of _ "Suc n"]) (simp only: polls_first)
  qed
qed

lemma serial_wait_eq:
  "serial_wait dev h =
     (if \<exists>n. ready dev (polls dev n h) then Some (polls dev (Suc (LEAST n. ready dev (polls dev n h))) h) else None)"
proof (cases "\<exists>n. ready dev (polls dev n h)")
  case True
  then have "ready dev (polls dev (LEAST n. ready dev (polls dev n h)) h)" by (rule LeastI_ex)
  moreover have "\<forall>k<LEAST n. ready dev (polls dev n h). \<not> ready dev (polls dev k h)"
    using not_less_Least by blast
  ultimately show ?thesis using True serial_wait_Some by simp
next
  case False
  then show ?thesis using serial_wait_ready by (cases "serial_wait dev h") auto
qed

text \<open>C39: \<^verbatim>\<open>serial_write_byte\<close> returns exactly when some poll finds the device ready. It polls until the first
  that does, then sends the byte; a device that is never ready blocks the kernel.\<close>

theorem serial_write_byte_blocks:
  "serial_write_byte dev b h =
     (if \<exists>n. ready dev (polls dev n h)
      then Some (polls dev (Suc (LEAST n. ready dev (polls dev n h))) h @ [Out 0x3F8 b])
      else None)"
  by (simp add: serial_write_byte_def serial_wait_eq outb_def)

subsection \<open>What is sent\<close>

fun sent :: "io list \<Rightarrow> u8 list" where
  "sent [] = []"
| "sent (Out p b # h) = (if p = 0x3F8 then b # sent h else sent h)"
| "sent (In p v # h) = sent h"

text \<open>Every byte is sent right after a poll that found the device ready; \<open>r\<close> tells of the access before.\<close>

fun paced :: "bool \<Rightarrow> io list \<Rightarrow> bool" where
  "paced r [] \<longleftrightarrow> True"
| "paced r (In p v # h) \<longleftrightarrow> paced (p = 0x3FD \<and> v AND 0x20 \<noteq> 0) h"
| "paced r (Out p b # h) \<longleftrightarrow> (p = 0x3F8 \<longrightarrow> r) \<and> paced False h"

lemma sent_append [simp]: "sent (g @ h) = sent g @ sent h"
  by (induction g rule: sent.induct) simp_all

lemma polls_reads: "\<exists>t. polls dev n h = h @ t \<and> sent t = [] \<and> (\<forall>r v g. paced r (t @ In 0x3FD v # g) = paced (v AND 0x20 \<noteq> 0) g)"
proof (induction n)
  case (Suc n)
  then obtain t where "polls dev n h = h @ t" "sent t = []"
    "\<And>r v g. paced r (t @ In 0x3FD v # g) = paced (v AND 0x20 \<noteq> 0) g" by blast
  then show ?case by (intro exI [of _ "t @ [In 0x3FD (dev (polls dev n h) 0x3FD)]"]) simp
qed simp

lemma serial_byte_sent:
  assumes "serial_write_byte dev b h = Some h'"
  shows "\<exists>t. h' = h @ t \<and> sent t = [b] \<and> (\<forall>r g. paced r (t @ g) = paced False g)"
proof -
  obtain n where n: "ready dev (polls dev n h)" "h' = polls dev (Suc n) h @ [Out 0x3F8 b]"
    using assms LeastI_ex [of "\<lambda>n. ready dev (polls dev n h)"]
    by (auto simp: serial_write_byte_def serial_wait_eq outb_def simp del: polls.simps split: if_splits)
  obtain t where t: "polls dev n h = h @ t" "sent t = []"
    "\<And>r v g. paced r (t @ In 0x3FD v # g) = paced (v AND 0x20 \<noteq> 0) g"
    using polls_reads [of dev n h] by blast
  show ?thesis
    using n t by (intro exI [of _ "t @ [In 0x3FD (dev (polls dev n h) 0x3FD), Out 0x3F8 b]"]) (simp add: ready_def)
qed

lemma serial_bytes_sent:
  "serial_bytes dev s h = Some h' \<Longrightarrow> \<exists>t. h' = h @ t \<and> sent t = s \<and> (\<forall>g. paced False g \<longrightarrow> paced False (t @ g))"
proof (induction s arbitrary: h)
  case (Cons b s)
  then obtain h1 where h1: "serial_write_byte dev b h = Some h1" "serial_bytes dev s h1 = Some h'"
    by (auto split: option.splits)
  obtain t u where "h1 = h @ t" "sent t = [b]" "\<And>r g. paced r (t @ g) = paced False g"
    "h' = h1 @ u" "sent u = s" "\<And>g. paced False g \<Longrightarrow> paced False (u @ g)"
    using serial_byte_sent [OF h1(1)] Cons.IH [OF h1(2)] by blast
  then show ?case by (intro exI [of _ "t @ u"]) simp
qed simp

lemma serial_str_sent:
  assumes "serial_write_str dev s h = Some h'"
  shows "\<exists>t. h' = h @ t \<and> sent t = s @ [0x0A] \<and> (\<forall>g. paced False g \<longrightarrow> paced False (t @ g))"
proof -
  obtain h1 where h1: "serial_bytes dev s h = Some h1" "serial_write_byte dev 0x0A h1 = Some h'"
    using assms by (auto simp: serial_write_str_def split: option.splits)
  obtain t u where "h1 = h @ t" "sent t = s" "\<And>g. paced False g \<Longrightarrow> paced False (t @ g)"
    "h' = h1 @ u" "sent u = [0x0A]" "\<And>r g. paced r (u @ g) = paced False g"
    using serial_bytes_sent [OF h1(1)] serial_byte_sent [OF h1(2)] by blast
  then show ?thesis by (intro exI [of _ "t @ u"]) simp
qed

lemma responsive_byte: "responsive dev \<Longrightarrow> \<exists>h'. serial_write_byte dev b h = Some h'"
  by (simp add: serial_write_byte_def serial_wait_eq responsive_def)

lemma responsive_str: "responsive dev \<Longrightarrow> \<exists>h'. serial_write_str dev s h = Some h'"
proof -
  assume dev: "responsive dev"
  have "\<exists>h'. serial_bytes dev s h = Some h'"
  proof (induction s arbitrary: h)
    case (Cons b s)
    then show ?case using responsive_byte [OF dev, of b h] by auto
  qed simp
  then show ?thesis using responsive_byte [OF dev] by (auto simp: serial_write_str_def)
qed

text \<open>On a device that always becomes ready again, \<^verbatim>\<open>serial_write_str\<close> returns. It has sent exactly the
  text and a newline, each byte right after a poll that found the device ready.\<close>

theorem serial_write_str_sends:
  assumes "responsive dev"
  shows "\<exists>t. serial_write_str dev s h = Some (h @ t) \<and> sent t = s @ [0x0A] \<and> paced False t"
proof -
  obtain h' where h': "serial_write_str dev s h = Some h'" using responsive_str [OF assms] by blast
  from serial_str_sent [OF h'] obtain t where
    t: "h' = h @ t" "sent t = s @ [0x0A]" "\<And>g. paced False g \<Longrightarrow> paced False (t @ g)" by blast
  from t(3) [of "[]"] have "paced False t" by simp
  with h' t(1,2) show ?thesis by blast
qed

text \<open>A device that is ready at every third access.\<close>

definition slow_uart :: device where
  "slow_uart h p = (if length h mod 3 = 0 then 0x20 else 0)"

lemma length_polls [simp]: "length (polls dev n h) = length h + n"
  by (induction n) simp_all

lemma slow_uart_responsive: "responsive slow_uart"
  unfolding responsive_def
proof
  fix h :: "io list"
  have "(length h + 2 * length h) mod 3 = 0" by simp
  then show "\<exists>n. ready slow_uart (polls slow_uart n h)"
    by (intro exI [of _ "2 * length h"]) (simp add: ready_def slow_uart_def)
qed

lemma serial_write_str_sends_witness:
  "\<exists>t. serial_write_str slow_uart (bytes ''OK'') [] = Some t \<and> sent t = bytes ''OK'' @ [0x0A]"
  using serial_write_str_sends [OF slow_uart_responsive, of "bytes ''OK''" "[]"] by auto

end
