(* ===== verification/Spin_Lock.thy ===== *)
theory Spin_Lock
  imports Prelude
begin

text \<open>
  The spin lock, from \<^verbatim>\<open>slaballoc/src/lib.rs\<close>; \<^verbatim>\<open>kernel/src/vga.rs\<close> has its own copy of it (\<open>Vga_Lock\<close>). Any
  number of threads call operations on the value the lock guards; a step is one access of one thread
  to the lock or to the value. What an operation does is a parameter here, \<open>exec\<close>; it is \<open>None\<close> when the
  operation panics or does not return, and its thread then keeps the lock for good.
\<close>

subsection \<open>The lock\<close>

record 's spin_lock =
  locked :: bool
  inner :: 's

definition spin_lock_new :: "'s \<Rightarrow> 's spin_lock" where
  "spin_lock_new v = \<lparr>locked = False, inner = v\<rparr>"

text \<open>\<^verbatim>\<open>AtomicBool::compare_exchange\<close>: \<open>Inr\<close> is \<^verbatim>\<open>Ok\<close>, and the new value of the cell is beside it.\<close>

definition compare_exchange :: "bool \<Rightarrow> bool \<Rightarrow> bool \<Rightarrow> (bool + bool) \<times> bool" where
  "compare_exchange cell expected new = (if cell = expected then (Inr cell, new) else (Inl cell, cell))"

text \<open>One turn of the loop of \<^verbatim>\<open>lock\<close>: whether the lock was taken, and the lock after it.\<close>

definition try_lock :: "'s spin_lock \<Rightarrow> bool \<times> 's spin_lock" where
  "try_lock l = (case compare_exchange (locked l) False True of
      (Inr _, v) \<Rightarrow> (True, l\<lparr>locked := v\<rparr>)
    | (Inl _, v) \<Rightarrow> (False, l\<lparr>locked := v\<rparr>))"

definition guard_drop :: "'s spin_lock \<Rightarrow> 's spin_lock" where
  "guard_drop l = l\<lparr>locked := False\<rparr>"

text \<open>What the guard gives access to: \<^verbatim>\<open>deref\<close> reads the value, and through \<^verbatim>\<open>deref_mut\<close> it is replaced.\<close>

definition guard_deref :: "'s spin_lock \<Rightarrow> 's" where
  "guard_deref l = inner l"

definition guard_deref_mut :: "'s \<Rightarrow> 's spin_lock \<Rightarrow> 's spin_lock" where
  "guard_deref_mut v l = l\<lparr>inner := v\<rparr>"

lemma guard_simps [simp]: "guard_deref l = inner l" "guard_deref_mut v l = l\<lparr>inner := v\<rparr>"
  by (simp_all add: guard_deref_def guard_deref_mut_def)

lemma try_lock_eq: "try_lock l = (\<not> locked l, l\<lparr>locked := True\<rparr>)"
  by (cases l) (simp add: try_lock_def compare_exchange_def)

subsection \<open>Threads\<close>

text \<open>
  Where a thread is in \<^verbatim>\<open>let mut g = lock.lock(); g.op()\<close>: outside, in the loop, holding the guard, inside
  the operation with the value it read, or about to drop the guard with the result.
\<close>

datatype ('op, 's, 'r) pc =
    Idle
  | Spinning 'op
  | Guarded 'op
  | Working 'op 's
  | Dropping 'op 'r

fun in_section :: "('op, 's, 'r) pc \<Rightarrow> bool" where
  "in_section (Guarded op) \<longleftrightarrow> True"
| "in_section (Working op s) \<longleftrightarrow> True"
| "in_section (Dropping op r) \<longleftrightarrow> True"
| "in_section _ \<longleftrightarrow> False"

text \<open>The \<open>history\<close> records the finished operations in order, with their threads and results.\<close>

record ('op, 's, 'r) system =
  lock :: "'s spin_lock"
  pcs :: "nat \<Rightarrow> ('op, 's, 'r) pc"
  history :: "(nat \<times> 'op \<times> 'r) list"

definition move :: "nat \<Rightarrow> ('op, 's, 'r) pc \<Rightarrow> ('op, 's, 'r) system \<Rightarrow> ('op, 's, 'r) system" where
  "move t p c = c\<lparr>pcs := (pcs c)(t := p)\<rparr>"

definition start_system :: "'s \<Rightarrow> ('op, 's, 'r) system" where
  "start_system s = \<lparr>lock = spin_lock_new s, pcs = (\<lambda>_. Idle), history = []\<rparr>"

text \<open>
  A step of thread \<open>t\<close>. The operation reads the value in one step and writes it back in another, so
  that another thread inside its section would be seen to interfere.
\<close>

inductive lock_step ::
  "('op \<Rightarrow> 's \<Rightarrow> ('r \<times> 's) option) \<Rightarrow> nat \<Rightarrow> ('op, 's, 'r) system \<Rightarrow> ('op, 's, 'r) system \<Rightarrow> bool"
  for exec t
where
  rest: "pcs c t = Idle \<Longrightarrow> lock_step exec t c c"
| call: "pcs c t = Idle \<Longrightarrow> lock_step exec t c (move t (Spinning op) c)"
| spin: "pcs c t = Spinning op \<Longrightarrow> try_lock (lock c) = (False, l) \<Longrightarrow> lock_step exec t c (c\<lparr>lock := l\<rparr>)"
| acquire: "pcs c t = Spinning op \<Longrightarrow> try_lock (lock c) = (True, l) \<Longrightarrow>
    lock_step exec t c (move t (Guarded op) (c\<lparr>lock := l\<rparr>))"
| enter: "pcs c t = Guarded op \<Longrightarrow> lock_step exec t c (move t (Working op (guard_deref (lock c))) c)"
| leave: "pcs c t = Working op s \<Longrightarrow> exec op s = Some (r, s') \<Longrightarrow>
    lock_step exec t c (move t (Dropping op r)
      (c\<lparr>lock := guard_deref_mut s' (lock c), history := history c @ [(t, op, r)]\<rparr>))"
| hang: "pcs c t = Working op s \<Longrightarrow> exec op s = None \<Longrightarrow> lock_step exec t c c"
| release: "pcs c t = Dropping op r \<Longrightarrow>
    lock_step exec t c (move t Idle (c\<lparr>lock := guard_drop (lock c)\<rparr>))"

inductive_cases lock_stepE: "lock_step exec t c c'"

inductive reach :: "('op \<Rightarrow> 's \<Rightarrow> ('r \<times> 's) option) \<Rightarrow> 's \<Rightarrow> ('op, 's, 'r) system \<Rightarrow> bool"
  for exec s0
where
  init: "reach exec s0 (start_system s0)"
| step: "reach exec s0 c \<Longrightarrow> lock_step exec t c c' \<Longrightarrow> reach exec s0 c'"

lemmas system_simps = move_def start_system_def spin_lock_new_def guard_drop_def try_lock_eq

text \<open>A step of \<open>t\<close> leaves the other threads where they are.\<close>

lemma step_others: "lock_step exec t c c' \<Longrightarrow> u \<noteq> t \<Longrightarrow> pcs c' u = pcs c u"
  by (erule lock_stepE) (auto simp: move_def)

subsection \<open>Mutual exclusion\<close>

text \<open>The lock is taken exactly when one thread is in its section, and the value that thread read is
  still the value of the lock.\<close>

definition holders :: "('op, 's, 'r) system \<Rightarrow> nat set" where
  "holders c = {t. in_section (pcs c t)}"

definition lock_inv :: "('op, 's, 'r) system \<Rightarrow> bool" where
  "lock_inv c \<longleftrightarrow> (if locked (lock c) then \<exists>h. holders c = {h} else holders c = {})
     \<and> (\<forall>t op s. pcs c t = Working op s \<longrightarrow> s = inner (lock c))"

lemma holders_move [simp]:
  "holders (move t p c) = (if in_section p then insert t (holders c) else holders c - {t})"
  by (auto simp: holders_def move_def)

lemma holders_lock [simp]: "holders (c\<lparr>lock := l\<rparr>) = holders c"
  "holders (c\<lparr>lock := l, history := h\<rparr>) = holders c"
  by (simp_all add: holders_def)

lemma holderI: "in_section (pcs c t) \<Longrightarrow> t \<in> holders c"
  by (simp add: holders_def)

lemma lock_inv_start: "lock_inv (start_system s)"
  by (simp add: lock_inv_def holders_def system_simps)

lemma lock_inv_holder: "lock_inv c \<Longrightarrow> in_section (pcs c t) \<Longrightarrow> locked (lock c) \<and> holders c = {t}"
  by (auto simp: lock_inv_def dest!: holderI split: if_splits)

text \<open>No other thread is inside an operation while \<open>t\<close> is in its section.\<close>

lemma lock_inv_alone: "lock_inv c \<Longrightarrow> in_section (pcs c t) \<Longrightarrow> u \<noteq> t \<Longrightarrow> pcs c u \<noteq> Working op s"
  using lock_inv_holder [of c t] holderI [of c u] by force

lemma lock_invI:
  "holders c = (if locked (lock c) then {h} else {}) \<Longrightarrow>
     (\<And>t op s. pcs c t = Working op s \<Longrightarrow> s = inner (lock c)) \<Longrightarrow> lock_inv c"
  by (auto simp: lock_inv_def)

lemma lock_inv_step:
  assumes "lock_step exec t c c'" and inv: "lock_inv c"
  shows "lock_inv c'"
  using assms(1)
proof (cases rule: lock_step.cases)
  case (call op)
  have "holders c - {t} = holders c" using call(2) by (auto simp: holders_def)
  then have "holders c' = holders c" using call(1) by simp
  moreover have "pcs c u = Working op' s" if "pcs c' u = Working op' s" for u op' s
    using that call(1) by (simp add: move_def split: if_splits)
  ultimately show ?thesis using inv call(1) by (simp add: lock_inv_def move_def)
next
  case (spin op l)
  then have "l = lock c" by (cases "lock c") (auto simp: try_lock_eq)
  then have "c' = c" using spin(1) by (cases c) simp
  with inv show ?thesis by simp
next
  case (acquire op l)
  then have free: "\<not> locked (lock c)" "l = (lock c)\<lparr>locked := True\<rparr>" by (simp_all add: try_lock_eq)
  then have "holders c = {}" using inv by (simp add: lock_inv_def)
  with acquire(1) free inv show ?thesis
    by (intro lock_invI [of _ t], simp) (auto simp: move_def lock_inv_def split: if_splits)
next
  case (enter op)
  have h: "locked (lock c)" "holders c = {t}" using lock_inv_holder [OF inv, of t] enter(2) by simp_all
  with enter(1) inv show ?thesis
    by (intro lock_invI [of _ t], simp) (auto simp: move_def lock_inv_def split: if_splits)
next
  case (leave op s r s')
  have h: "locked (lock c)" "holders c = {t}" using lock_inv_holder [OF inv, of t] leave(2) by simp_all
  with leave(1,2) lock_inv_alone [OF inv, of t] show ?thesis
    by (intro lock_invI [of _ t], simp) (auto simp: move_def split: if_splits)
next
  case (release op r)
  have h: "holders c = {t}" using lock_inv_holder [OF inv, of t] release(2) by simp
  with release(1,2) lock_inv_alone [OF inv, of t] show ?thesis
    by (intro lock_invI [of _ t], simp add: guard_drop_def) (auto simp: move_def guard_drop_def split: if_splits)
qed (use inv in simp_all)

lemma reach_inv: "reach exec s0 c \<Longrightarrow> lock_inv c"
  by (induction rule: reach.induct) (auto intro: lock_inv_start lock_inv_step)

subsection \<open>The operations take effect one after the other\<close>

fun replay :: "('op \<Rightarrow> 's \<Rightarrow> ('r \<times> 's) option) \<Rightarrow> (nat \<times> 'op \<times> 'r) list \<Rightarrow> 's \<Rightarrow> 's option" where
  "replay exec [] s = Some s"
| "replay exec ((t, op, r) # h) s =
     (case exec op s of
        Some (r', s') \<Rightarrow> if r' = r then replay exec h s' else None
      | None \<Rightarrow> None)"

lemma replay_snoc:
  "replay exec h s = Some s1 \<Longrightarrow> exec op s1 = Some (r, s2) \<Longrightarrow> replay exec (h @ [(t, op, r)]) s = Some s2"
  by (induction exec h s rule: replay.induct) (auto split: option.splits if_splits)

lemma reach_replay: "reach exec s0 c \<Longrightarrow> replay exec (history c) s0 = Some (inner (lock c))"
proof (induction rule: reach.induct)
  case init
  then show ?case by (simp add: system_simps)
next
  case (step c t c')
  from step(2) show ?case
  proof (cases rule: lock_step.cases)
    case (leave op s r s')
    then have "s = inner (lock c)" using reach_inv [OF step(1)] by (simp add: lock_inv_def)
    with leave step(3) replay_snoc show ?thesis by (simp add: move_def)
  qed (use step(3) in \<open>auto simp: system_simps\<close>)
qed

text \<open>A thread about to return has its operation and its result in the history.\<close>

lemma reach_result: "reach exec s0 c \<Longrightarrow> pcs c t = Dropping op r \<Longrightarrow> (t, op, r) \<in> set (history c)"
proof (induction rule: reach.induct)
  case init
  then show ?case by (simp add: system_simps)
next
  case (step c u c')
  from step(2) show ?case
    by (cases rule: lock_step.cases) (use step(3,4) in \<open>auto simp: system_simps split: if_splits\<close>)
qed

subsection \<open>Progress\<close>

text \<open>An infinite run, the thread \<open>who i\<close> taking step \<open>i\<close>. It is fair when every thread that has
  something to do gets its turn.\<close>

definition run_of ::
  "('op \<Rightarrow> 's \<Rightarrow> ('r \<times> 's) option) \<Rightarrow> (nat \<Rightarrow> nat) \<Rightarrow> (nat \<Rightarrow> ('op, 's, 'r) system) \<Rightarrow> bool" where
  "run_of exec who c \<longleftrightarrow> (\<forall>i. lock_step exec (who i) (c i) (c (Suc i)))"

definition fair_run :: "(nat \<Rightarrow> nat) \<Rightarrow> (nat \<Rightarrow> ('op, 's, 'r) system) \<Rightarrow> bool" where
  "fair_run who c \<longleftrightarrow> (\<forall>t i. pcs (c i) t \<noteq> Idle \<longrightarrow> (\<exists>j\<ge>i. who j = t))"

text \<open>No operation panics or fails to return.\<close>

definition never_stuck :: "('op \<Rightarrow> 's \<Rightarrow> ('r \<times> 's) option) \<Rightarrow> (nat \<Rightarrow> ('op, 's, 'r) system) \<Rightarrow> bool" where
  "never_stuck exec c \<longleftrightarrow> (\<forall>i t op s. pcs (c i) t = Working op s \<longrightarrow> exec op s \<noteq> None)"

lemma run_reach: "run_of exec who c \<Longrightarrow> c 0 = start_system s0 \<Longrightarrow> reach exec s0 (c i)"
  by (induction i) (auto simp: run_of_def intro: reach.intros)

lemma wait_turn:
  assumes "run_of exec who c" "fair_run who c" "pcs (c i) t \<noteq> Idle"
  shows "\<exists>j\<ge>i. who j = t \<and> pcs (c j) t = pcs (c i) t"
proof -
  have "\<exists>j. i \<le> j \<and> who j = t" using assms(2,3) by (auto simp: fair_run_def)
  then obtain j where j: "i \<le> j" "who j = t" and first: "\<forall>k<j. \<not> (i \<le> k \<and> who k = t)"
    using exists_least_iff [of "\<lambda>j. i \<le> j \<and> who j = t"] by blast
  have "k \<le> j \<longrightarrow> pcs (c k) t = pcs (c i) t" if "i \<le> k" for k
    using that
  proof (induction k rule: dec_induct)
    case (step n)
    have "pcs (c (Suc n)) t = pcs (c n) t" if "n < j"
      using assms(1) first that step(1) by (intro step_others) (auto simp: run_of_def)
    with step(3) show ?case by simp
  qed simp
  with j show ?thesis by blast
qed

text \<open>What a thread does at its next turn.\<close>

lemma turn_Spinning:
  "lock_step exec t c c' \<Longrightarrow> pcs c t = Spinning op \<Longrightarrow>
     pcs c' t = (if locked (lock c) then Spinning op else Guarded op)"
  by (erule lock_stepE) (simp_all add: system_simps)

lemma turn_Guarded: "lock_step exec t c c' \<Longrightarrow> pcs c t = Guarded op \<Longrightarrow> \<exists>s. pcs c' t = Working op s"
  by (erule lock_stepE) (simp_all add: system_simps)

lemma turn_Working:
  "lock_step exec t c c' \<Longrightarrow> pcs c t = Working op s \<Longrightarrow> exec op s \<noteq> None \<Longrightarrow> \<exists>r. pcs c' t = Dropping op r"
  by (erule lock_stepE) (simp_all add: system_simps)

lemma turn_Dropping: "lock_step exec t c c' \<Longrightarrow> pcs c t = Dropping op r \<Longrightarrow> \<not> locked (lock c')"
  by (erule lock_stepE) (simp_all add: system_simps)

text \<open>The lock is taken only by a thread that gets the guard.\<close>

lemma step_free:
  "lock_step exec t c c' \<Longrightarrow> \<not> locked (lock c) \<Longrightarrow> \<not> in_section (pcs c' t) \<Longrightarrow> \<not> locked (lock c')"
  by (erule lock_stepE) (simp_all add: system_simps)

text \<open>A thread in its section leaves it and frees the lock.\<close>

lemma section_ends:
  assumes run: "run_of exec who c" "fair_run who c" "never_stuck exec c"
  shows "in_section (pcs (c i) t) \<Longrightarrow> \<exists>j\<ge>i. \<not> locked (lock (c j))"
proof -
  have step: "lock_step exec (who j) (c j) (c (Suc j))" for j using run(1) by (simp add: run_of_def)
  have drop: "\<exists>j\<ge>i. \<not> locked (lock (c j))" if p: "pcs (c i) t = Dropping op r" for i op r
  proof -
    obtain j where j: "j \<ge> i" "who j = t" "pcs (c j) t = Dropping op r"
      using wait_turn [OF run(1,2), of i t, unfolded p] by blast
    from turn_Dropping [OF step [of j, unfolded j(2)] j(3)] have "\<not> locked (lock (c (Suc j)))" .
    with j(1) show ?thesis by (meson le_SucI)
  qed
  have work: "\<exists>j\<ge>i. \<not> locked (lock (c j))" if p: "pcs (c i) t = Working op s" for i op s
  proof -
    obtain j where j: "j \<ge> i" "who j = t" "pcs (c j) t = Working op s"
      using wait_turn [OF run(1,2), of i t, unfolded p] by blast
    then have "exec op s \<noteq> None" using run(3) by (auto simp: never_stuck_def)
    with turn_Working [OF step [of j, unfolded j(2)] j(3)] obtain r where "pcs (c (Suc j)) t = Dropping op r"
      by blast
    from drop [OF this] j(1) show ?thesis by (meson Suc_leD le_trans)
  qed
  have enter: "\<exists>j\<ge>i. \<not> locked (lock (c j))" if p: "pcs (c i) t = Guarded op" for i op
  proof -
    obtain j where j: "j \<ge> i" "who j = t" "pcs (c j) t = Guarded op"
      using wait_turn [OF run(1,2), of i t, unfolded p] by blast
    with turn_Guarded [OF step [of j, unfolded j(2)] j(3)] obtain s where "pcs (c (Suc j)) t = Working op s"
      by blast
    from work [OF this] j(1) show ?thesis by (meson Suc_leD le_trans)
  qed
  show "in_section (pcs (c i) t) \<Longrightarrow> \<exists>j\<ge>i. \<not> locked (lock (c j))"
    using drop work enter by (cases "pcs (c i) t") auto
qed

text \<open>While a thread waits, some thread gets the lock.\<close>

lemma someone_acquires:
  assumes run: "run_of exec who c" "fair_run who c" "never_stuck exec c" "c 0 = start_system s0"
    and t: "pcs (c i) t = Spinning op"
  shows "\<exists>j\<ge>i. \<not> locked (lock (c j)) \<and> in_section (pcs (c (Suc j)) (who j))"
proof (rule ccontr)
  assume never: "\<not> ?thesis"
  have st: "lock_step exec (who j) (c j) (c (Suc j))" for j using run(1) by (simp add: run_of_def)
  note inv = reach_inv [OF run_reach [OF run(1,4)]]
  obtain k where k: "k \<ge> i" "\<not> locked (lock (c k))"
  proof (cases "locked (lock (c i))")
    case True
    then obtain h where "in_section (pcs (c i) h)" using inv [of i] True by (force simp: lock_inv_def holders_def)
    from section_ends [OF run(1-3) this] that show ?thesis by blast
  qed (use that in auto)
  have none: "locked (lock (c j)) \<or> \<not> in_section (pcs (c (Suc j)) (who j))" if "j \<ge> i" for j
    using never that by blast
  have free: "\<not> locked (lock (c j))" if "j \<ge> k" for j
    using that
  proof (induction j rule: dec_induct)
    case (step n)
    with none [of n] k(1) step_free [OF st [of n]] show ?case by simp
  qed (rule k(2))
  have spin: "pcs (c j) t = Spinning op" if "j \<ge> i" for j
    using that
  proof (induction j rule: dec_induct)
    case (step n)
    show ?case
    proof (cases "who n = t")
      case True
      with turn_Spinning [OF st [of n, unfolded True] step(3)] none [OF step(1)] show ?thesis
        by (auto split: if_splits)
    qed (use step_others [OF st [of n]] step in auto)
  qed (rule t)
  obtain j where j: "j \<ge> k" "who j = t" using run(2) spin [OF k(1)] unfolding fair_run_def by (metis pc.distinct(1))
  then have p: "pcs (c j) t = Spinning op" "\<not> locked (lock (c j))" using spin free k(1) by simp_all
  with turn_Spinning [OF st [of j, unfolded j(2)] p(1)] have "in_section (pcs (c (Suc j)) t)" by simp
  with none [of j] p(2) j k(1) show False by simp
qed

subsection \<open>Operations that keep an invariant\<close>

text \<open>The operations that threads have under way.\<close>

fun called :: "('op, 's, 'r) pc \<Rightarrow> 'op option" where
  "called Idle = None"
| "called (Spinning op) = Some op"
| "called (Guarded op) = Some op"
| "called (Working op s) = Some op"
| "called (Dropping op r) = Some op"

definition calls_ok :: "('op \<Rightarrow> bool) \<Rightarrow> ('op, 's, 'r) system \<Rightarrow> bool" where
  "calls_ok P c \<longleftrightarrow> (\<forall>t op. called (pcs c t) = Some op \<longrightarrow> P op)"

text \<open>States reached by threads that only call operations with \<open>P\<close>.\<close>

inductive reach_calling ::
  "('op \<Rightarrow> 's \<Rightarrow> ('r \<times> 's) option) \<Rightarrow> ('op \<Rightarrow> bool) \<Rightarrow> 's \<Rightarrow> ('op, 's, 'r) system \<Rightarrow> bool"
  for exec P s0
where
  init: "reach_calling exec P s0 (start_system s0)"
| step: "reach_calling exec P s0 c \<Longrightarrow> lock_step exec t c c' \<Longrightarrow> calls_ok P c' \<Longrightarrow> reach_calling exec P s0 c'"

lemma reach_calling_ok: "reach_calling exec P s0 c \<Longrightarrow> reach exec s0 c \<and> calls_ok P c"
proof (induction rule: reach_calling.induct)
  case init
  show ?case by (rule conjI, rule reach.init) (simp add: calls_ok_def system_simps)
qed (blast intro: reach.step)

lemma calls_okD: "calls_ok P c \<Longrightarrow> pcs c t = Working op s \<Longrightarrow> P op"
  unfolding calls_ok_def by (metis called.simps(4))

lemma reach_calling_all: "reach exec s0 c \<Longrightarrow> reach_calling exec (\<lambda>_. True) s0 c"
  by (induction rule: reach.induct) (auto intro: reach_calling.intros simp: calls_ok_def)

lemma run_reach_calling:
  "run_of exec who c \<Longrightarrow> c 0 = start_system s0 \<Longrightarrow> \<forall>i. calls_ok P (c i) \<Longrightarrow> reach_calling exec P s0 (c i)"
  by (induction i) (auto simp: run_of_def intro: reach_calling.intros)

locale guarded =
  fixes exec :: "'op \<Rightarrow> 's \<Rightarrow> ('r \<times> 's) option"
    and allowed :: "'op \<Rightarrow> bool"
    and inv :: "'s \<Rightarrow> bool"
  assumes exec_keeps: "inv s \<Longrightarrow> allowed op \<Longrightarrow> \<exists>r s'. exec op s = Some (r, s') \<and> inv s'"
begin

text \<open>The guarded value satisfies the invariant whenever it can be seen, and no thread gets stuck.\<close>

lemma inner_inv: "reach_calling exec allowed s0 c \<Longrightarrow> inv s0 \<Longrightarrow> inv (inner (lock c))"
proof (induction rule: reach_calling.induct)
  case init
  then show ?case by (simp add: system_simps)
next
  case (step c t c')
  from step(2) show ?case
  proof (cases rule: lock_step.cases)
    case (leave op s r s')
    have r: "reach exec s0 c" "calls_ok allowed c" using reach_calling_ok [OF step(1)] by simp_all
    then have "s = inner (lock c)" using reach_inv [of exec s0 c] leave(2) by (simp add: lock_inv_def)
    moreover have "allowed op" using r(2) leave(2) by (rule calls_okD)
    ultimately have "inv s'" using exec_keeps [of s op] step(4,5) leave(3) by auto
    with leave(1) show ?thesis by (simp add: move_def)
  qed (use step(4,5) in \<open>auto simp: system_simps\<close>)
qed

lemma not_stuck: "reach_calling exec allowed s0 c \<Longrightarrow> inv s0 \<Longrightarrow> pcs c t = Working op s \<Longrightarrow> exec op s \<noteq> None"
proof -
  assume reach: "reach_calling exec allowed s0 c" "inv s0" and p: "pcs c t = Working op s"
  have r: "reach exec s0 c" "calls_ok allowed c" using reach_calling_ok [OF reach(1)] by simp_all
  have "s = inner (lock c)" using reach_inv [OF r(1)] p by (simp add: lock_inv_def)
  then have "inv s" using inner_inv [OF reach] by simp
  from exec_keeps [OF this calls_okD [OF r(2) p]] show "exec op s \<noteq> None" by auto
qed

lemma progress:
  assumes "run_of exec who c" "fair_run who c" "c 0 = start_system s0" "inv s0"
    and "\<forall>i. calls_ok allowed (c i)" "pcs (c i) t = Spinning op"
  shows "\<exists>j\<ge>i. \<not> locked (lock (c j)) \<and> in_section (pcs (c (Suc j)) (who j))"
proof -
  have "never_stuck exec c"
    unfolding never_stuck_def using not_stuck [OF run_reach_calling [OF assms(1,3,5)] assms(4)] by blast
  from someone_acquires [OF assms(1,2) this assms(3,6)] show ?thesis .
qed

end

subsection \<open>A run of one thread\<close>

text \<open>Thread 0 calls \<open>op\<close> once and then rests; the states of its run, for witnesses.\<close>

definition solo :: "'op \<Rightarrow> 's \<Rightarrow> 'r \<Rightarrow> 's \<Rightarrow> nat \<Rightarrow> ('op, 's, 'r) system" where
  "solo op s r s' i =
     (if i = 0 then start_system s
      else if i = 1 then move 0 (Spinning op) (start_system s)
      else if i = 2 then (start_system s)\<lparr>lock := \<lparr>locked = True, inner = s\<rparr>, pcs := (\<lambda>_. Idle)(0 := Guarded op)\<rparr>
      else if i = 3 then (start_system s)\<lparr>lock := \<lparr>locked = True, inner = s\<rparr>, pcs := (\<lambda>_. Idle)(0 := Working op s)\<rparr>
      else if i = 4 then \<lparr>lock = \<lparr>locked = True, inner = s'\<rparr>, pcs = (\<lambda>_. Idle)(0 := Dropping op r), history = [(0, op, r)]\<rparr>
      else \<lparr>lock = \<lparr>locked = False, inner = s'\<rparr>, pcs = (\<lambda>_. Idle), history = [(0, op, r)]\<rparr>)"

lemma solo_run:
  fixes op :: 'op and s s' :: 's and r :: 'r
  assumes "exec op s = Some (r, s')"
  shows "run_of exec (\<lambda>_. 0) (solo op s r s')"
  unfolding run_of_def
proof
  fix i :: nat
  consider "i = 0" | "i = 1" | "i = 2" | "i = 3" | "i = 4" | "i > 4" by linarith
  then show "lock_step exec 0 (solo op s r s' i) (solo op s r s' (Suc i))"
  proof cases
    case 1
    with lock_step.call [of "start_system s" 0 exec op] show ?thesis by (simp add: solo_def system_simps)
  next
    case 2
    with lock_step.acquire [of "move 0 (Spinning op) (start_system s)" 0 op _ exec] show ?thesis
      by (simp add: solo_def system_simps)
  next
    case 3
    with lock_step.enter [of "solo op s r s' 2" 0 op exec] show ?thesis
      by (simp add: solo_def system_simps)
  next
    case 4
    with lock_step.leave [of "solo op s r s' 3" 0 op s exec] assms show ?thesis
      by (simp add: solo_def system_simps)
  next
    case 5
    have upd: "(\<lambda>_. x)(a := x) = (\<lambda>_. x)" for a :: nat and x :: "('op, 's, 'r) pc" by auto
    from 5 lock_step.release [of "solo op s r s' 4" 0 op r exec] show ?thesis
      by (simp add: solo_def system_simps upd)
  next
    case 6
    with lock_step.rest [of "solo op s r s' i" 0 exec] show ?thesis by (simp add: solo_def)
  qed
qed

lemma solo_start: "solo op s r s' 0 = start_system s"
  by (simp add: solo_def)

lemma reach_solo: "exec op s = Some (r, s') \<Longrightarrow> reach exec s (solo op s r s' i)"
  by (rule run_reach [OF solo_run solo_start])

lemma solo_fair: "fair_run (\<lambda>_. 0) (solo op s r s')"
  by (auto simp: fair_run_def solo_def system_simps split: if_splits)

lemma solo_calls: "P op \<Longrightarrow> calls_ok P (solo op s r s' i)"
  by (auto simp: calls_ok_def solo_def system_simps split: if_splits)

end
