(* ===== verification/Vga_Lock.thy ===== *)
theory Vga_Lock
  imports Spin_Lock
begin

text \<open>
  The copy of the spin lock that \<^verbatim>\<open>kernel/src/vga.rs\<close> has for itself. It is the lock of \<^verbatim>\<open>slaballoc/src/lib.rs\<close>
  under other names, so that what holds of the threads at that one holds of those at the screen.
\<close>

record 's vga_lock =
  vga_locked :: bool
  vga_inner :: 's

definition vga_lock_new :: "'s \<Rightarrow> 's vga_lock" where
  "vga_lock_new v = \<lparr>vga_locked = False, vga_inner = v\<rparr>"

text \<open>One turn of the loop of \<^verbatim>\<open>lock\<close>; it goes on while the exchange is an error.\<close>

definition vga_try_lock :: "'s vga_lock \<Rightarrow> bool \<times> 's vga_lock" where
  "vga_try_lock l = (case compare_exchange (vga_locked l) False True of
      (Inl _, v) \<Rightarrow> (False, l\<lparr>vga_locked := v\<rparr>)
    | (Inr _, v) \<Rightarrow> (True, l\<lparr>vga_locked := v\<rparr>))"

definition vga_deref :: "'s vga_lock \<Rightarrow> 's" where
  "vga_deref l = vga_inner l"

definition vga_deref_mut :: "'s \<Rightarrow> 's vga_lock \<Rightarrow> 's vga_lock" where
  "vga_deref_mut v l = l\<lparr>vga_inner := v\<rparr>"

definition vga_guard_drop :: "'s vga_lock \<Rightarrow> 's vga_lock" where
  "vga_guard_drop l = l\<lparr>vga_locked := False\<rparr>"

text \<open>The same lock in the vocabulary of \<open>Spin_Lock\<close>.\<close>

definition as_spin_lock :: "'s vga_lock \<Rightarrow> 's spin_lock" where
  "as_spin_lock l = \<lparr>locked = vga_locked l, inner = vga_inner l\<rparr>"

lemma as_spin_lock_simps [simp]:
  "locked (as_spin_lock l) = vga_locked l" "inner (as_spin_lock l) = vga_inner l"
  by (simp_all add: as_spin_lock_def)

lemma vga_lock_new_same [simp]: "as_spin_lock (vga_lock_new v) = spin_lock_new v"
  by (simp add: as_spin_lock_def vga_lock_new_def spin_lock_new_def)

text \<open>Every operation of the copy is the operation of the original, result and lock.\<close>

lemma vga_lock_same:
  "try_lock (as_spin_lock l) = (fst (vga_try_lock l), as_spin_lock (snd (vga_try_lock l)))"
  "guard_deref (as_spin_lock l) = vga_deref l"
  "guard_deref_mut v (as_spin_lock l) = as_spin_lock (vga_deref_mut v l)"
  "guard_drop (as_spin_lock l) = as_spin_lock (vga_guard_drop l)"
  by (auto simp: try_lock_eq vga_try_lock_def compare_exchange_def as_spin_lock_def vga_deref_def
      vga_deref_mut_def guard_drop_def vga_guard_drop_def)

lemma as_spin_lock_inj: "as_spin_lock l = as_spin_lock l' \<longleftrightarrow> l = l'"
  by (cases l; cases l') (auto simp: as_spin_lock_def)

end
