(* ===== verification/Vga.thy ===== *)
theory Vga
  imports Vga_Lock
begin

text \<open>
  The text-mode screen, from \<^verbatim>\<open>kernel/src/vga.rs\<close>: a writer with a cursor over the 80 by 25 character cells
  at address \<open>0xb8000\<close>, each of them a character byte and an attribute byte. The screen memory is a map
  from addresses to bytes, and it stands in the state beside the fields of \<^verbatim>\<open>Writer\<close>. A \<^verbatim>\<open>usize\<close> is a
  natural number: \<open>printing_stays_on_screen\<close> bounds every index.
\<close>

subsection \<open>The writer\<close>

record vga_writer =
  row :: nat
  col :: nat
  attr :: u8
  vram :: "nat \<Rightarrow> u8"

definition vga_buffer :: nat where
  "vga_buffer = 0xb8000"

text \<open>The initial \<^verbatim>\<open>WRITER\<close>, on whatever the screen shows.\<close>

definition WRITER :: "(nat \<Rightarrow> u8) \<Rightarrow> vga_writer spin_lock" where
  "WRITER m = as_spin_lock (vga_lock_new \<lparr>row = 0, col = 0, attr = 0x0F, vram = m\<rparr>)"

text \<open>One turn of the loops of \<^verbatim>\<open>newline\<close>: moving the cell below up, and blanking a cell of the last line.\<close>

definition move_cell :: "nat \<Rightarrow> nat \<Rightarrow> (nat \<Rightarrow> u8) \<Rightarrow> nat \<Rightarrow> u8" where
  "move_cell r c m =
     (let src = ((r + 1) * 80 + c) * 2;
          dst = (r * 80 + c) * 2;
          ch = m (vga_buffer + src);
          at = m (vga_buffer + (src + 1))
      in m(vga_buffer + dst := ch, vga_buffer + (dst + 1) := at))"

definition blank_cell :: "u8 \<Rightarrow> nat \<Rightarrow> nat \<Rightarrow> (nat \<Rightarrow> u8) \<Rightarrow> nat \<Rightarrow> u8" where
  "blank_cell a r c m =
     (let idx = (r * 80 + c) * 2
      in m(vga_buffer + idx := of_char CHR '' '', vga_buffer + (idx + 1) := a))"

definition vga_newline :: "vga_writer \<Rightarrow> vga_writer" where
  "vga_newline w =
     (let w = w\<lparr>col := 0\<rparr> in
      if row w < 24 then w\<lparr>row := row w + 1\<rparr>
      else
        let m = fold (\<lambda>r. fold (\<lambda>c. move_cell r c) [0..<80]) [0..<24] (vram w);
            m = fold (\<lambda>c. blank_cell (attr w) 24 c) [0..<80] m
        in w\<lparr>vram := m, row := 24\<rparr>)"

definition write_byte :: "u8 \<Rightarrow> vga_writer \<Rightarrow> vga_writer" where
  "write_byte b w =
     (if b = of_char CHR ''\<newline>'' then vga_newline w
      else
        let idx = (row w * 80 + col w) * 2;
            w = w\<lparr>vram := (vram w)(vga_buffer + idx := b, vga_buffer + (idx + 1) := attr w)\<rparr>;
            w = w\<lparr>col := col w + 1\<rparr>
        in if 80 \<le> col w then vga_newline w else w)"

definition vga_write_str :: "rstr \<Rightarrow> vga_writer \<Rightarrow> vga_writer" where
  "vga_write_str s w = fold write_byte s w"

text \<open>\<^verbatim>\<open>_print\<close>: formatting hands the pieces of the text to \<^verbatim>\<open>write_str\<close> one after the other.\<close>

definition vga_print :: "rstr list \<Rightarrow> vga_writer \<Rightarrow> vga_writer" where
  "vga_print pieces w = fold vga_write_str pieces w"

text \<open>
  The macros. A format string is a list of literal text and of holes for values, here with the text the
  value is shown as. \<^verbatim>\<open>vga_println!\<close> appends a newline to the string itself: to its last literal, or as a
  new one. Empty pieces are not written.
\<close>

datatype format_piece = Literal rstr | Value rstr

fun piece_text :: "format_piece \<Rightarrow> rstr" where
  "piece_text (Literal s) = s"
| "piece_text (Value s) = s"

definition format_args :: "format_piece list \<Rightarrow> rstr list" where
  "format_args ps = filter (\<lambda>s. s \<noteq> []) (map piece_text ps)"

fun concat_newline :: "format_piece list \<Rightarrow> format_piece list" where
  "concat_newline [] = [Literal (bytes ''\<newline>'')]"
| "concat_newline [Literal s] = [Literal (s @ bytes ''\<newline>'')]"
| "concat_newline (p # ps) = p # concat_newline ps"

definition vga_print_macro :: "format_piece list \<Rightarrow> vga_writer \<Rightarrow> vga_writer" where
  "vga_print_macro ps w = vga_print (format_args ps) w"

definition vga_println_macro :: "format_piece list \<Rightarrow> vga_writer \<Rightarrow> vga_writer" where
  "vga_println_macro ps w = vga_print (format_args (concat_newline ps)) w"

lemma concat_format_args: "concat (format_args ps) = concat (map piece_text ps)"
  by (induction ps) (auto simp: format_args_def)

lemma concat_newline_text: "concat (map piece_text (concat_newline ps)) = concat (map piece_text ps) @ bytes ''\<newline>''"
  by (induction ps rule: concat_newline.induct) auto

lemma vga_print_text: "vga_print ps w = vga_write_str (concat ps) w"
  by (induction ps arbitrary: w) (simp_all add: vga_print_def vga_write_str_def)

text \<open>\<^verbatim>\<open>vga_println!\<close> prints what \<^verbatim>\<open>vga_print!\<close> does and then a newline.\<close>

theorem vga_println_newline: "vga_println_macro ps w = vga_newline (vga_print_macro ps w)"
proof -
  have "bytes ''\<newline>'' = [of_char CHR ''\<newline>'']" by code_simp
  then show ?thesis
    by (simp add: vga_println_macro_def vga_print_macro_def vga_print_text concat_format_args concat_newline_text
        vga_write_str_def write_byte_def)
qed

definition vga_clear :: "vga_writer \<Rightarrow> vga_writer" where
  "vga_clear w =
     w\<lparr>vram := fold (\<lambda>r. fold (\<lambda>c. blank_cell (attr w) r c) [0..<80]) [0..<25] (vram w), row := 0, col := 0\<rparr>"

subsection \<open>Colours\<close>

datatype color =
    Black | Blue | Green | Cyan | Red | Magenta | Brown | LightGray
  | DarkGray | LightBlue | LightGreen | LightCyan | LightRed | Pink | Yellow | White

fun color_code :: "color \<Rightarrow> u8" where
  "color_code Black = 0x00" | "color_code Blue = 0x01" | "color_code Green = 0x02" | "color_code Cyan = 0x03"
| "color_code Red = 0x04" | "color_code Magenta = 0x05" | "color_code Brown = 0x06" | "color_code LightGray = 0x07"
| "color_code DarkGray = 0x08" | "color_code LightBlue = 0x09" | "color_code LightGreen = 0x0A"
| "color_code LightCyan = 0x0B" | "color_code LightRed = 0x0C" | "color_code Pink = 0x0D"
| "color_code Yellow = 0x0E" | "color_code White = 0x0F"

definition vga_set_color :: "u8 \<Rightarrow> u8 \<Rightarrow> vga_writer \<Rightarrow> vga_writer" where
  "vga_set_color fg bg w = w\<lparr>attr := push_bit 4 (bg AND 0x0F) OR (fg AND 0x0F)\<rparr>"

definition vga_set_colors :: "color \<Rightarrow> color \<Rightarrow> vga_writer \<Rightarrow> vga_writer" where
  "vga_set_colors foreground background w =
     w\<lparr>attr := push_bit 4 (color_code background AND 0x0F) OR (color_code foreground AND 0x0F)\<rparr>"

subsection \<open>Scrolling and clearing in one go\<close>

text \<open>The cells as one row of 2000, and the loops over them as one loop.\<close>

definition shift_cell :: "nat \<Rightarrow> (nat \<Rightarrow> u8) \<Rightarrow> nat \<Rightarrow> u8" where
  "shift_cell k m = m(vga_buffer + 2 * k := m (vga_buffer + 2 * k + 160),
     vga_buffer + (2 * k + 1) := m (vga_buffer + 2 * k + 161))"

definition wipe_cell :: "u8 \<Rightarrow> nat \<Rightarrow> (nat \<Rightarrow> u8) \<Rightarrow> nat \<Rightarrow> u8" where
  "wipe_cell a k m = m(vga_buffer + 2 * k := 0x20, vga_buffer + (2 * k + 1) := a)"

lemma move_cell_shift: "move_cell r = (\<lambda>c. shift_cell (r * 80 + c))"
  by (intro ext) (simp add: move_cell_def shift_cell_def Let_def algebra_simps)

lemma blank_cell_wipe: "blank_cell a r = (\<lambda>c. wipe_cell a (r * 80 + c))"
  by (intro ext) (simp add: blank_cell_def wipe_cell_def Let_def algebra_simps)

lemma fold_rows: "fold (\<lambda>r. fold (\<lambda>c. f (r * 80 + c)) [0..<80]) [0..<n] = fold f [0..<n * 80]"
proof (induction n)
  case (Suc n)
  have "[0..<Suc n * 80] = [0..<n * 80] @ [n * 80..<n * 80 + 80]"
    using upt_add_eq_append [of 0 "n * 80" 80] by (simp add: add.commute)
  also have "[n * 80..<n * 80 + 80] = map (\<lambda>c. n * 80 + c) [0..<80]"
    using map_add_upt [of "n * 80" 80] by (simp only: add.commute)
  finally have cells: "[0..<Suc n * 80] = [0..<n * 80] @ map ((+) (n * 80)) [0..<80]" .
  have rows: "[0..<Suc n] = [0..<n] @ [n]" by simp
  show ?case unfolding cells rows fold_append Suc.IH by (simp add: fold_map comp_def del: upt_Suc)
qed simp

lemma fold_shift:
  "fold shift_cell [0..<n] m x =
     (if vga_buffer \<le> x \<and> x < vga_buffer + 2 * n then m (x + 160) else m x)"
proof (induction n arbitrary: x)
  case (Suc n)
  then show ?case by (auto simp: shift_cell_def fun_upd_def) (auto simp: le_Suc_eq less_Suc_eq intro: arg_cong [of _ _ m])
qed auto

lemma fold_wipe:
  "fold (wipe_cell a) [k..<n] m x =
     (if vga_buffer + 2 * k \<le> x \<and> x < vga_buffer + 2 * n then (if even (x - vga_buffer) then 0x20 else a) else m x)"
proof (induction n)
  case (Suc n)
  then show ?case by (auto simp: wipe_cell_def)
qed auto

text \<open>The loops of \<^verbatim>\<open>newline\<close> and \<^verbatim>\<open>vga_clear\<close>, byte by byte.\<close>

lemma scroll_loop:
  "fold (\<lambda>r. fold (move_cell r) [0..<80]) [0..<24] m x =
     (if vga_buffer \<le> x \<and> x < vga_buffer + 3840 then m (x + 160) else m x)"
  by (simp only: move_cell_shift fold_rows fold_shift) simp

lemma last_line_loop:
  "fold (blank_cell a 24) [0..<80] m x =
     (if vga_buffer + 3840 \<le> x \<and> x < vga_buffer + 4000 then (if even (x - vga_buffer) then 0x20 else a) else m x)"
proof -
  have "[1920..<2000] = map (\<lambda>i. i + 1920) [0..<80]" by (subst map_add_upt) simp
  then have "fold (blank_cell a 24) [0..<80] = fold (wipe_cell a) [1920..<2000]"
    by (simp only: blank_cell_wipe fold_map comp_def add.commute) (simp del: upt_Suc)
  then show ?thesis by (simp only: fold_wipe) simp
qed

lemma clear_loop:
  "fold (\<lambda>r. fold (blank_cell a r) [0..<80]) [0..<25] m x =
     (if vga_buffer \<le> x \<and> x < vga_buffer + 4000 then (if even (x - vga_buffer) then 0x20 else a) else m x)"
  by (simp only: blank_cell_wipe fold_rows fold_wipe) simp

end
