(* ===== verification/Kernel.thy ===== *)
theory Kernel
  imports Test_Volume Write_Boot Slab_Use Serial Vga Utf8
begin

text \<open>
  The kernel, from \<^verbatim>\<open>kernel/src/main.rs\<close>: writing a line of the screen, and \<^verbatim>\<open>demo\<close>, which starts the
  allocator and the serial port, mounts the volume it has built, lists and reads it, writes a file, and
  allocates and frees a block. Its state is the history of the ports, the screen memory and the
  global allocator, whose lock nobody contends for.
\<close>

subsection \<open>Screen lines\<close>

text \<open>The loop over the bytes of the line, from column \<open>c\<close> on.\<close>

fun write_cells :: "nat \<Rightarrow> nat \<Rightarrow> rstr \<Rightarrow> (nat \<Rightarrow> u8) \<Rightarrow> nat \<Rightarrow> u8" where
  "write_cells r c [] m = m"
| "write_cells r c (b # s) m =
     (let off = (r * 80 + c) * 2;
          m = m(vga_buffer + off := b, vga_buffer + (off + 1) := 0x07);
          c = c + 1
      in if 80 \<le> c then m else write_cells r c s m)"

definition vga_write_line :: "nat \<Rightarrow> rstr \<Rightarrow> (nat \<Rightarrow> u8) \<Rightarrow> nat \<Rightarrow> u8" where
  "vga_write_line r s m = write_cells r 0 s m"

subsection \<open>Running the kernel\<close>

record kernel =
  ports :: "io list"
  screen :: "nat \<Rightarrow> u8"
  heap :: slab_allocator

type_synonym 'a kprog = "(kernel, 'a) hprog"

definition on_ports :: "(io list \<Rightarrow> io list option) \<Rightarrow> unit kprog" where
  "on_ports f = (\<lambda>k. case f (ports k) of None \<Rightarrow> None | Some h \<Rightarrow> Some (Ok (), k\<lparr>ports := h\<rparr>))"

definition on_screen :: "((nat \<Rightarrow> u8) \<Rightarrow> nat \<Rightarrow> u8) \<Rightarrow> unit kprog" where
  "on_screen f = (\<lambda>k. Some (Ok (), k\<lparr>screen := f (screen k)\<rparr>))"

definition on_heap :: "(slab_allocator \<Rightarrow> ((unit, 'a) res \<times> slab_allocator) option) \<Rightarrow> 'a kprog" where
  "on_heap f = (\<lambda>k. case f (heap k) of None \<Rightarrow> None | Some (r, s) \<Rightarrow> Some (r, k\<lparr>heap := s\<rparr>))"

text \<open>
  What the vectors and strings of the standard library ask of the global allocator while the
  demonstration runs, a parameter: any list of requests about blocks of their own. A request that
  cannot be served ends the program.
\<close>

fun library_run :: "profile \<Rightarrow> request list \<Rightarrow> slab_allocator \<times> holding \<Rightarrow> ((unit, unit) res \<times> slab_allocator) option" where
  "library_run pf [] (s, hs) = Some (Ok (), s)"
| "library_run pf (r # rs) (s, hs) =
     (case serve (slab_alloc pf) slab_dealloc slab_store r (s, hs) of
        None \<Rightarrow> None
      | Some (s', hs') \<Rightarrow>
          if (case r of Alloc l \<Rightarrow> length hs' = length hs | _ \<Rightarrow> False) then Some (Panic, s')
          else library_run pf rs (s', hs'))"

subsection \<open>The demonstration\<close>

definition HEAP_SIZE :: u64 where
  "HEAP_SIZE = 128 * 1024"

text \<open>A line to the serial port and to the screen.\<close>

definition report :: "device \<Rightarrow> nat \<Rightarrow> rstr \<Rightarrow> unit kprog" where
  "report dev r s = hbind (on_ports (serial_write_str dev s)) (\<lambda>_. on_screen (vga_write_line r s))"

text \<open>The address of the heap's memory is \<open>p\<close>; the requests of the library come at the end of its use.\<close>

definition demo :: "profile \<Rightarrow> device \<Rightarrow> u64 \<Rightarrow> request list \<Rightarrow> unit kprog" where
  "demo pf dev p rs =
     hbind (on_heap (\<lambda>s. Some (slab_init pf p HEAP_SIZE s))) (\<lambda>_.
     hbind (on_ports (\<lambda>h. Some (serial_init h))) (\<lambda>_.
     hbind (report dev 0 (bytes ''The Heap - kernel'')) (\<lambda>_.
     let disk = build_test_image in
     hbind (unwrap (fat32_new disk)) (\<lambda>ro.
     hbind (unwrap (list_root ro)) (\<lambda>root.
     let names = map e_name root in
     hbind (report dev 1 (bytes ''ROOT: '' @ join [space] names)) (\<lambda>_.
     hbind (unwrap (read_file_by_path ro (bytes ''/HELLO.TXT''))) (\<lambda>found.
     hbind (unwrap_some found) (\<lambda>hello.
     hbind (unwrap_some (from_utf8 hello)) (\<lambda>hello_s.
     hbind (report dev 2 hello_s) (\<lambda>_.
     hbind (unwrap (fat32_mut_new disk)) (\<lambda>rw.
     case write_file_by_path pf (bytes ''/NEW.TXT'') (bytes ''NEW!'') rw of (written, rw') \<Rightarrow>
     let disk = m_disk rw' in
     hbind (unwrap written) (\<lambda>_.
     hbind (unwrap (fat32_new disk)) (\<lambda>ro2.
     hbind (unwrap (list_root ro2)) (\<lambda>root2.
     let names2 = map e_name root2 in
     hbind (report dev 3 (bytes ''ROOT (apres ecriture): '' @ join [space] names2)) (\<lambda>_.
     hbind (unwrap (read_file_by_path ro2 (bytes ''/NEW.TXT''))) (\<lambda>found2.
     hbind (unwrap_some found2) (\<lambda>newc.
     hbind (unwrap_some (from_utf8 newc)) (\<lambda>new_s.
     hbind (report dev 4 new_s) (\<lambda>_.
     hbind (on_heap (\<lambda>s. library_run pf rs (s, []))) (\<lambda>_.
     hbind (unwrap_some (from_size_align 32 8)) (\<lambda>l.
     hbind (on_heap (slab_alloc pf l)) (\<lambda>q.
     hbind (assert_that (q \<noteq> 0)) (\<lambda>_.
     hbind (on_heap (\<lambda>s. Some (Ok (), slab_dealloc q l s))) (\<lambda>_.
       report dev 5 (bytes ''The Heap: allocator OK'')))))))))))))))))))))))))"

end
