(* ===== verification/Kernel_Demo.thy ===== *)
theory Kernel_Demo
  imports Kernel
begin

text \<open>
  What the kernel's demonstration does: with a serial device that keeps becoming ready and a heap that the
  library does not exhaust, it runs to its end without a panic, and its six lines reach the serial port
  and the screen.
\<close>

subsection \<open>Lines of the screen\<close>

text \<open>Row \<open>r\<close> of the screen begins with the text \<open>s\<close>, light grey on black.\<close>

definition shows_line :: "(nat \<Rightarrow> u8) \<Rightarrow> nat \<Rightarrow> rstr \<Rightarrow> bool" where
  "shows_line m r s \<longleftrightarrow> (\<forall>c<length s. m (vga_buffer + (r * 80 + c) * 2) = s ! c
     \<and> m (vga_buffer + ((r * 80 + c) * 2 + 1)) = 0x07)"

text \<open>Writing one cell.\<close>

definition put_cell :: "nat \<Rightarrow> nat \<Rightarrow> u8 \<Rightarrow> (nat \<Rightarrow> u8) \<Rightarrow> nat \<Rightarrow> u8" where
  "put_cell r c b m = m(vga_buffer + (r * 80 + c) * 2 := b, vga_buffer + ((r * 80 + c) * 2 + 1) := 0x07)"

lemma write_cells_Cons [simp]:
  "write_cells r c (b # s) m = (if 79 \<le> c then put_cell r c b m else write_cells r (Suc c) s (put_cell r c b m))"
  by (simp add: put_cell_def Let_def)

declare write_cells.simps(2) [simp del]

text \<open>An address that is not of cell \<open>(r, c)\<close>.\<close>

definition off_cell :: "nat \<Rightarrow> nat \<Rightarrow> nat \<Rightarrow> bool" where
  "off_cell x r c \<longleftrightarrow> x \<noteq> vga_buffer + (r * 80 + c) * 2 \<and> x \<noteq> vga_buffer + ((r * 80 + c) * 2 + 1)"

lemma put_cell_off [simp]: "off_cell x r c \<Longrightarrow> put_cell r c b m x = m x"
  by (simp add: put_cell_def off_cell_def)

lemma put_cell_at [simp]:
  "put_cell r c b m (vga_buffer + (r * 80 + c) * 2) = b"
  "put_cell r c b m (vga_buffer + ((r * 80 + c) * 2 + 1)) = 0x07"
  by (simp_all add: put_cell_def)

lemma write_cells_elsewhere:
  "(\<And>i. c \<le> i \<Longrightarrow> i < 80 \<Longrightarrow> i < c + length s \<Longrightarrow> off_cell x r i) \<Longrightarrow> c < 80 \<Longrightarrow> write_cells r c s m x = m x"
proof (induction s arbitrary: c m)
  case (Cons b s)
  have "off_cell x r c" using Cons.prems by simp
  with Cons show ?case by simp
qed simp

lemma cells_differ:
  fixes a b v :: nat
  assumes "a \<noteq> b"
  shows "v + a * 2 \<noteq> v + b * 2 \<and> v + a * 2 \<noteq> v + (b * 2 + 1) \<and> v + (a * 2 + 1) \<noteq> v + b * 2
    \<and> v + (a * 2 + 1) \<noteq> v + (b * 2 + 1)"
proof -
  have "a * 2 \<noteq> b * 2 + 1" "a * 2 + 1 \<noteq> b * 2" by presburger+
  with assms show ?thesis by simp
qed

lemma off_cell_other: "r' * 80 + c' \<noteq> r * 80 + c \<Longrightarrow> off_cell (vga_buffer + (r' * 80 + c') * 2) r c
    \<and> off_cell (vga_buffer + ((r' * 80 + c') * 2 + 1)) r c"
  unfolding off_cell_def using cells_differ by blast

lemma write_cells_at:
  "i < length s \<Longrightarrow> c + i < 80 \<Longrightarrow>
     write_cells r c s m (vga_buffer + (r * 80 + (c + i)) * 2) = s ! i
     \<and> write_cells r c s m (vga_buffer + ((r * 80 + (c + i)) * 2 + 1)) = 0x07"
proof (induction s arbitrary: i c m)
  case (Cons b s)
  show ?case
  proof (cases i)
    case 0
    have "off_cell (vga_buffer + (r * 80 + c) * 2) r k \<and> off_cell (vga_buffer + ((r * 80 + c) * 2 + 1)) r k"
      if "Suc c \<le> k" for k using that by (intro off_cell_other) simp
    then show ?thesis
      using 0 Cons.prems write_cells_elsewhere [of "Suc c" s _ r "put_cell r c b m"]
      by (simp add: put_cell_def)
  next
    case (Suc j)
    then show ?thesis using Cons.IH [of j "Suc c" "put_cell r c b m"] Cons.prems by simp
  qed
qed simp

lemma shows_line_write: "shows_line (vga_write_line r s m) r (take 80 s)"
  using write_cells_at [of _ s 0 r m] by (simp add: shows_line_def vga_write_line_def)

lemma shows_line_other:
  assumes "shows_line m r' l" "r \<noteq> r'" "length l \<le> 80"
  shows "shows_line (vga_write_line r s m) r' l"
proof -
  have "off_cell (vga_buffer + (r' * 80 + c) * 2) r i \<and> off_cell (vga_buffer + ((r' * 80 + c) * 2 + 1)) r i"
    if "c < length l" "i < 80" for c i
  proof (rule off_cell_other)
    have "(r' * 80 + c) div 80 = r'" "(r * 80 + i) div 80 = r" using that assms(3) by simp_all
    with assms(2) show "r' * 80 + c \<noteq> r * 80 + i" by metis
  qed
  then have "write_cells r 0 s m (vga_buffer + (r' * 80 + c) * 2) = m (vga_buffer + (r' * 80 + c) * 2)"
    "write_cells r 0 s m (vga_buffer + ((r' * 80 + c) * 2 + 1)) = m (vga_buffer + ((r' * 80 + c) * 2 + 1))"
    if "c < length l" for c
    using that by (auto intro!: write_cells_elsewhere)
  with assms(1) show ?thesis by (simp add: shows_line_def vga_write_line_def)
qed

text \<open>\<^verbatim>\<open>vga_write_line\<close> puts the first 80 bytes of the text into its row, light grey on black, and changes
  no other byte: neither the rest of the row nor another row.\<close>

theorem vga_write_line_spec:
  "shows_line (vga_write_line r s m) r (take 80 s)
    \<and> (\<forall>x. (\<forall>c<min 80 (length s). off_cell x r c) \<longrightarrow> vga_write_line r s m x = m x)"
  using write_cells_elsewhere [of 0 s _ r m] shows_line_write by (simp add: vga_write_line_def)

subsection \<open>The demonstration\<close>

lemma hbind_cong_weak: "p = q \<Longrightarrow> hbind p f = hbind q f"
  by simp

lemma on_heap_run: "f (heap k) = Some (r, s) \<Longrightarrow> on_heap f k = Some (r, k\<lparr>heap := s\<rparr>)"
  by (simp add: on_heap_def)

text \<open>The lines, and that the first \<open>n\<close> of them are out.\<close>

definition demo_lines :: "rstr list" where
  "demo_lines = [bytes ''The Heap - kernel'', bytes ''ROOT: HELLO.TXT DIR'', bytes ''HELLO'',
     bytes ''ROOT (apres ecriture): HELLO.TXT DIR NEW.TXT'', bytes ''NEW!'', bytes ''The Heap: allocator OK'']"

definition reported :: "io list \<Rightarrow> nat \<Rightarrow> kernel \<Rightarrow> bool" where
  "reported h n k \<longleftrightarrow> (\<exists>t. ports k = h @ t \<and> sent t = concat (map (\<lambda>l. l @ [0x0A]) (take n demo_lines))
     \<and> (\<forall>g. paced False g \<longrightarrow> paced False (t @ g))) \<and> (\<forall>r<n. shows_line (screen k) r (demo_lines ! r))"

lemma reported_heap [simp]: "reported h n (k\<lparr>heap := s\<rparr>) = reported h n k"
  by (simp add: reported_def)

lemma demo_lines_short: "i < 6 \<Longrightarrow> length (demo_lines ! i) \<le> 80"
proof -
  assume "i < 6"
  then have "i \<in> {0, 1, 2, 3, 4, 5}" by auto
  then show ?thesis by (auto simp: demo_lines_def)
qed

lemma report_next:
  assumes "responsive dev" "reported h n k" "n < 6" "n' = Suc n"
  shows "\<exists>k'. report dev n (demo_lines ! n) k = Some (Ok (), k') \<and> reported h n' k' \<and> heap k' = heap k"
proof -
  let ?l = "demo_lines ! n"
  obtain h' where h': "serial_write_str dev ?l (ports k) = Some h'" using responsive_str [OF assms(1)] by blast
  let ?k = "k\<lparr>ports := h', screen := vga_write_line n ?l (screen k)\<rparr>"
  have run: "report dev n ?l k = Some (Ok (), ?k)"
    using h' by (simp add: report_def on_ports_def on_screen_def hbind_def)
  obtain t u where t: "ports k = h @ t" "sent t = concat (map (\<lambda>l. l @ [0x0A]) (take n demo_lines))"
      "\<And>g. paced False g \<Longrightarrow> paced False (t @ g)"
    and u: "h' = ports k @ u" "sent u = ?l @ [0x0A]" "\<And>g. paced False g \<Longrightarrow> paced False (u @ g)"
    using assms(2) serial_str_sent [OF h'] by (auto simp: reported_def)
  have "take (Suc n) demo_lines = take n demo_lines @ [?l]"
    using assms(3) by (intro take_Suc_conv_app_nth) (simp add: demo_lines_def)
  then have "h' = h @ (t @ u) \<and> sent (t @ u) = concat (map (\<lambda>l. l @ [0x0A]) (take (Suc n) demo_lines))
      \<and> (\<forall>g. paced False g \<longrightarrow> paced False ((t @ u) @ g))"
    using t u by simp
  moreover have "shows_line (screen ?k) r (demo_lines ! r)" if "r < Suc n" for r
  proof (cases "r = n")
    case True
    then show ?thesis
      using shows_line_write [of n ?l "screen k"] demo_lines_short [OF assms(3)] by simp
  next
    case False
    with that assms(2,3) show ?thesis
      by (auto simp: reported_def intro!: shows_line_other demo_lines_short)
  qed
  ultimately have "reported h (Suc n) ?k" unfolding reported_def by (intro conjI exI [of _ "t @ u"]) simp_all
  with run assms(4) show ?thesis by auto
qed

lemma demo_reads:
  "fat32_new build_test_image = Ok (as_read test_volume)"
  "\<exists>es. list_root (as_read test_volume) = Ok es \<and> map e_name es = [bytes ''HELLO.TXT'', bytes ''DIR'']"
  "read_file_by_path (as_read test_volume) (bytes ''/HELLO.TXT'') = Ok (Some (bytes ''HELLO''))"
proof -
  show "fat32_new build_test_image = Ok (as_read test_volume)"
    using boot_same_mount(2) [of test_volume test_volume] mount_test_image by simp
  show "\<exists>es. list_root (as_read test_volume) = Ok es \<and> map e_name es = [bytes ''HELLO.TXT'', bytes ''DIR'']"
    using list_test_root by (simp add: list_root_def)
  let ?hello = "\<lparr>e_name = bytes ''HELLO.TXT'', e_attrs = from_byte 0x20, e_first_cluster = 3, e_size = 5\<rparr>"
  have "components (bytes ''/HELLO.TXT'') = [bytes ''HELLO.TXT'']" "starts_with slash (bytes ''/HELLO.TXT'')"
    by code_simp+
  then have path: "open_path (as_read test_volume) (bytes ''/HELLO.TXT'') = Ok (Some ?hello)"
    using open_path_loop [of "bytes ''/HELLO.TXT''" "as_read test_volume"] list_test_root by simp
  have isf: "is_file ?hello" by (simp add: is_file_def from_byte_def)
  have "read_file (as_read test_volume) ?hello = Ok (take 5 (cluster_bytes (as_read test_volume) 3))"
    using read_file_chain [of test_volume ?hello "[3]"] isf chain_at_test_volume(2)
    by (simp add: chain_bytes_def)
  then show "read_file_by_path (as_read test_volume) (bytes ''/HELLO.TXT'') = Ok (Some (bytes ''HELLO''))"
    using path isf cluster_bytes_test_volume by (simp add: read_file_by_path_def)
qed

lemma takeWhile_used_root: "takeWhile used (dir_slots (as_read test_volume) [2]) = [hello_entry, subdir_entry]"
proof -
  have "used hello_entry" "used subdir_entry" unfolding hello_entry_eq subdir_entry_eq by code_simp+
  moreover have "replicate 14 (replicate 32 (0 :: u8)) = replicate 32 0 # replicate 13 (replicate 32 0)"
    by (simp flip: replicate_Suc)
  ultimately show ?thesis by (simp add: test_root_slots used_def)
qed

lemma demo_writes:
  "\<exists>m' es. write_file_by_path pf (bytes ''/NEW.TXT'') (bytes ''NEW!'') test_volume = (Ok (), m')
    \<and> fat32_new (m_disk m') = Ok (as_read m') \<and> list_root (as_read m') = Ok es
    \<and> map e_name es = [bytes ''HELLO.TXT'', bytes ''DIR'', bytes ''NEW.TXT'']
    \<and> read_file_by_path (as_read m') (bytes ''/NEW.TXT'') = Ok (Some (bytes ''NEW!''))"
proof -
  have "components (bytes ''/'') = []" by code_simp
  then obtain m' where m': "write_file_by_path pf (bytes ''/NEW.TXT'') (bytes ''NEW!'') test_volume = (Ok (), m')"
    "read_file_by_path (as_read m') (bytes ''/NEW.TXT'') = Ok (Some (bytes ''NEW!''))"
    using write_reads_path [of test_volume pf, OF new_txt] by auto
  note boot = write_file_boot [OF m'(1)]
  have ro: "fat32_new (m_disk m') = Ok (as_read m')"
    using boot_same_mount(2) [OF _ boot] mount_test_image by simp
  have "root_cluster (as_read m') = 2"
    using boot same_shapeD(7) [of test_volume m'] by (simp add: boot_same_def as_read_def)
  let ?en = "\<lambda>fc. file_entry (bytes ''NEW     '') (bytes ''TXT'') fc (word_of_nat (length (bytes ''NEW!'')))"
  have room: "div_ceil (length (bytes ''NEW!'')) (m_cluster_size test_volume)
      \<le> min 4096 (length (usable test_volume 9 (set [])))"
    using new_txt(15) by simp
  obtain es fc where es: "list_dir_cluster (as_read m') 2 = Ok es" "chain_at m' 2 [2]"
    "dir_updated test_volume m' [2] None None (?en fc)"
    using write_file_run [of test_volume pf, OF new_txt(1-14) room] roomy_test_root m'(1) by auto
  then obtain A B where "es = A @ ?en fc # B" "list_dir_cluster (as_read test_volume) 2 = Ok (A @ B)"
    "A = listing (takeWhile used (dir_slots (as_read test_volume) [2]))"
    using list_dir_chain [OF es(2)] list_dir_chain [OF chain_at_test_volume(1)] by (auto simp: dir_updated_def shown_def)
  note es = es(1) this
  have h: "live hello_entry" "live subdir_entry" unfolding hello_entry_eq subdir_entry_eq by code_simp+
  then have "map e_name A = [bytes ''HELLO.TXT'', bytes ''DIR'']" "length A = 2"
    using es(4) by (simp_all add: takeWhile_used_root listing_Cons shown_def parse_image_entries)
  then have "B = []" using es(3) list_test_root by (auto simp: length_Suc_conv)
  have "short_name (bytes ''NEW     '') (bytes ''TXT'') = bytes ''NEW.TXT''" by code_simp
  then have "map e_name es = [bytes ''HELLO.TXT'', bytes ''DIR'', bytes ''NEW.TXT'']"
    using es(2) \<open>map e_name A = _\<close> \<open>B = []\<close> by simp
  with m' ro es(1) \<open>root_cluster (as_read m') = 2\<close> show ?thesis by (auto simp: list_root_def)
qed

lemma library_run_serves:
  "library_run pf rs c = Some (Ok (), s) \<Longrightarrow>
     \<exists>hs. serve_all (slab_alloc pf) slab_dealloc slab_store rs c = Some (s, hs)"
proof (induction rs arbitrary: c)
  case (Cons r rs)
  then show ?case
    by (cases c) (auto simp del: serve.simps split: option.splits if_splits request.splits)
next
  case Nil
  then show ?case by (cases c) simp
qed

text \<open>The block the demonstration asks for, after the library's requests.\<close>

lemma demo_block:
  assumes "0 < unat p" "unat p + 0x20000 + 4096 < 2 ^ 64"
    and "\<forall>l\<in>set (layouts_of rs). valid_layout l \<and> unat p + 0x20000 + unat (l_align l) < 2 ^ 64"
    and "library_run pf rs (snd (slab_init pf p HEAP_SIZE (slab_new m)), []) = Some (Ok (), s)"
    and "caches s ! 2 \<noteq> None \<or> 0 < pages_left s"
  shows "\<exists>q s'. slab_alloc pf \<lparr>l_size = 32, l_align = 8\<rparr> s = Some (Ok q, s') \<and> q \<noteq> 0"
proof -
  have size: "unat HEAP_SIZE = 0x20000" by (simp add: HEAP_SIZE_def)
  obtain s0 where s0: "slab_init pf p HEAP_SIZE (slab_new m) = (Ok (), s0)" "slab_ok s0 []"
    "limits s0 = (p, p + HEAP_SIZE)"
    using slab_init_ok [of p HEAP_SIZE pf m] assms(1,2) size by auto
  have e: "unat (p + HEAP_SIZE) = unat p + 0x20000" using assms(2) size add64 [of p HEAP_SIZE] by simp
  obtain hs where hs: "serve_all (slab_alloc pf) slab_dealloc slab_store rs (s0, []) = Some (s, hs)"
    using library_run_serves assms(4) s0(1) by fastforce
  have "\<forall>l\<in>set (layouts_of rs). slab_good (limits s0) l" using assms(3) s0(3) e by (simp add: slab_good_def)
  moreover have "slab.served (s0, [])" using s0(2) by (simp add: slab.served_def remembers_def)
  ultimately obtain s1 hs1 where "serve_all (slab_alloc pf) slab_dealloc slab_store rs (s0, []) = Some (s1, hs1)"
    "slab.served (s1, hs1)" "limits s1 = limits s0"
    using slab.serve_all_served by blast
  then have "slab.served (s, hs)" "limits s = limits s0" using hs by simp_all
  then have ok: "slab_ok s (map fst hs)" by (simp add: slab.served_def)
  obtain fls where fls: "heap_ok s fls (map extent (map fst hs))" using ok by (auto simp: slab_ok_def)
  have i: "class_index_for \<lparr>l_size = 32, l_align = 8\<rparr> = Some 2"
    by (simp add: class_index_for_def SIZE_CLASSES_def)
  obtain q s' where q: "slab_alloc pf \<lparr>l_size = 32, l_align = 8\<rparr> s = Some (Ok q, s')"
    "q = 0 \<Longrightarrow> caches s ! 2 = None \<and> capacity 2 fls s = 0"
    using slab_alloc_class [OF fls i, of pf] by (auto split: if_splits)
  have "4096 div class_size 2 = 128" by (simp add: class_size_def SIZE_CLASSES_def)
  then have "q \<noteq> 0" using q(2) assms(5) by (auto simp: capacity_def)
  with q(1) show ?thesis by blast
qed

lemma demo_heap:
  assumes "0 < unat p" "unat p + 0x20000 + 4096 < 2 ^ 64"
    and "\<forall>l\<in>set (layouts_of rs). valid_layout l \<and> unat p + 0x20000 + unat (l_align l) < 2 ^ 64"
    and "library_run pf rs (snd (slab_init pf p HEAP_SIZE (slab_new m)), []) = Some (Ok (), s)"
    and "caches s ! 2 \<noteq> None \<or> 0 < pages_left s"
    and "heap k = snd (slab_init pf p HEAP_SIZE (slab_new m))"
  shows "\<exists>s'. \<forall>f. hbind (on_heap (\<lambda>s. library_run pf rs (s, []))) (\<lambda>_.
      hbind (unwrap_some (from_size_align 32 8)) (\<lambda>l. hbind (on_heap (slab_alloc pf l)) (\<lambda>q. hbind (assert_that (q \<noteq> 0)) (\<lambda>_.
      hbind (on_heap (\<lambda>s. Some (Ok (), slab_dealloc q l s))) f)))) k = f () (k\<lparr>heap := s'\<rparr>)"
proof -
  obtain q s' where q: "slab_alloc pf \<lparr>l_size = 32, l_align = 8\<rparr> s = Some (Ok q, s')" "q \<noteq> 0"
    using demo_block [OF assms(1-5)] by (elim exE conjE) (rule that)
  have "from_size_align 32 8 = Some \<lparr>l_size = 32, l_align = 8\<rparr>"
    by (simp add: from_size_align_def valid_layout_def is_power_of_two_def)
  with assms(4,6) q show ?thesis
    by (intro exI [of _ "slab_dealloc q \<lparr>l_size = 32, l_align = 8\<rparr> s'"])
      (simp add: hbind_def on_heap_def assert_that_def unwrap_some_def)
qed

lemma demo_texts:
  "bytes ''The Heap - kernel'' = demo_lines ! 0"
  "bytes ''ROOT: '' @ join [space] [bytes ''HELLO.TXT'', bytes ''DIR''] = demo_lines ! 1"
  "bytes ''HELLO'' = demo_lines ! 2"
  "bytes ''ROOT (apres ecriture): '' @ join [space] [bytes ''HELLO.TXT'', bytes ''DIR'', bytes ''NEW.TXT''] = demo_lines ! 3"
  "bytes ''NEW!'' = demo_lines ! 4" "bytes ''The Heap: allocator OK'' = demo_lines ! 5"
  by code_simp+

lemma demo_utf8: "from_utf8 (demo_lines ! 2) = Some (demo_lines ! 2)" "from_utf8 (demo_lines ! 4) = Some (demo_lines ! 4)"
  by code_simp+

text \<open>C37: the kernel's demonstration. With a serial device that keeps becoming ready, and a heap on which every
  request of the library is served and a block of 32 bytes or a page is left, \<^verbatim>\<open>demo\<close> runs to its end: no
  \<^verbatim>\<open>unwrap\<close> and no assertion fails. After the set-up of the port it sends its six lines and
  nothing else, and they stand in the first six rows of the screen.\<close>

theorem kernel_demo_runs:
  assumes "responsive dev" "0 < unat p" "unat p + 0x20000 + 4096 < 2 ^ 64" "heap k = slab_new m"
    and "\<forall>l\<in>set (layouts_of rs). valid_layout l \<and> unat p + 0x20000 + unat (l_align l) < 2 ^ 64"
    and "library_run pf rs (snd (slab_init pf p HEAP_SIZE (heap k)), []) = Some (Ok (), s)"
    and "caches s ! 2 \<noteq> None \<or> 0 < pages_left s"
  shows "\<exists>k' t. demo pf dev p rs k = Some (Ok (), k') \<and> ports k' = serial_init (ports k) @ t
    \<and> sent t = concat (map (\<lambda>l. l @ [0x0A]) demo_lines) \<and> paced False t
    \<and> (\<forall>r<6. shows_line (screen k') r (demo_lines ! r))"
proof -
  let ?h = "serial_init (ports k)"
  note next_line = report_next [OF assms(1)]
  obtain s0 where s0: "slab_init pf p HEAP_SIZE (heap k) = (Ok (), s0)"
    using slab_init_ok [of p HEAP_SIZE pf m] assms(2-4) by (auto simp: HEAP_SIZE_def)
  define k0 where "k0 = k\<lparr>heap := s0, ports := ?h\<rparr>"
  have start: "hbind (on_heap (\<lambda>s. Some (slab_init pf p HEAP_SIZE s))) (\<lambda>_.
      hbind (on_ports (\<lambda>h. Some (serial_init h))) f) k = f () k0" for f :: "unit \<Rightarrow> unit kprog"
    using s0 by (simp add: hbind_def on_heap_def on_ports_def k0_def)
  have r0: "reported ?h 0 k0" "heap k0 = s0" by (simp_all add: reported_def k0_def)
  have "\<exists>k'. report dev 0 (demo_lines ! 0) k0 = Some (Ok (), k') \<and> reported ?h 1 k' \<and> heap k' = heap k0"
    by (rule next_line [OF r0(1)]) simp_all
  then obtain k1 where k1: "report dev 0 (demo_lines ! 0) k0 = Some (Ok (), k1)" "reported ?h 1 k1"
    "heap k1 = s0" unfolding r0(2) by (elim exE conjE) (rule that)
  have "\<exists>k'. report dev 1 (demo_lines ! 1) k1 = Some (Ok (), k') \<and> reported ?h 2 k' \<and> heap k' = heap k1"
    by (rule next_line [OF k1(2)]) simp_all
  then obtain k2 where k2: "report dev 1 (demo_lines ! 1) k1 = Some (Ok (), k2)" "reported ?h 2 k2"
    "heap k2 = s0" unfolding k1(3) by (elim exE conjE) (rule that)
  have "\<exists>k'. report dev 2 (demo_lines ! 2) k2 = Some (Ok (), k') \<and> reported ?h 3 k' \<and> heap k' = heap k2"
    by (rule next_line [OF k2(2)]) simp_all
  then obtain k3 where k3: "report dev 2 (demo_lines ! 2) k2 = Some (Ok (), k3)" "reported ?h 3 k3"
    "heap k3 = s0" unfolding k2(3) by (elim exE conjE) (rule that)
  have "\<exists>k'. report dev 3 (demo_lines ! 3) k3 = Some (Ok (), k') \<and> reported ?h 4 k' \<and> heap k' = heap k3"
    by (rule next_line [OF k3(2)]) simp_all
  then obtain k4 where k4: "report dev 3 (demo_lines ! 3) k3 = Some (Ok (), k4)" "reported ?h 4 k4"
    "heap k4 = s0" unfolding k3(3) by (elim exE conjE) (rule that)
  have "\<exists>k'. report dev 4 (demo_lines ! 4) k4 = Some (Ok (), k') \<and> reported ?h 5 k' \<and> heap k' = heap k4"
    by (rule next_line [OF k4(2)]) simp_all
  then obtain k5 where k5: "report dev 4 (demo_lines ! 4) k4 = Some (Ok (), k5)" "reported ?h 5 k5"
    "heap k5 = s0" unfolding k4(3) by (elim exE conjE) (rule that)
  have "heap k5 = snd (slab_init pf p HEAP_SIZE (slab_new m))" using s0 k5(3) assms(4) by simp
  from demo_heap [OF assms(2,3,5) assms(6) [unfolded assms(4)] assms(7) this]
  obtain s' where heap: "hbind (on_heap (\<lambda>s. library_run pf rs (s, []))) (\<lambda>_.
      hbind (unwrap_some (from_size_align 32 8)) (\<lambda>l. hbind (on_heap (slab_alloc pf l)) (\<lambda>q. hbind (assert_that (q \<noteq> 0)) (\<lambda>_.
      hbind (on_heap (\<lambda>s. Some (Ok (), slab_dealloc q l s))) f)))) k5 = f () (k5\<lparr>heap := s'\<rparr>)" for f :: "unit \<Rightarrow> unit kprog"
    by (elim exE) (rule that, erule spec)
  define k6 where "k6 = k5\<lparr>heap := s'\<rparr>"
  have r6: "reported ?h 5 k6" using k5(2) by (simp add: k6_def)
  have "\<exists>k'. report dev 5 (demo_lines ! 5) k6 = Some (Ok (), k') \<and> reported ?h 6 k' \<and> heap k' = heap k6"
    by (rule next_line [OF r6]) simp_all
  then obtain k7 where k7: "report dev 5 (demo_lines ! 5) k6 = Some (Ok (), k7)" "reported ?h 6 k7"
    by (elim exE conjE) (rule that)
  obtain es where es: "list_root (as_read test_volume) = Ok es" "map e_name es = [bytes ''HELLO.TXT'', bytes ''DIR'']"
    using demo_reads(2) by (elim exE conjE) (rule that)
  obtain m' es' where w: "write_file_by_path pf (bytes ''/NEW.TXT'') (bytes ''NEW!'') test_volume = (Ok (), m')"
    "fat32_new (m_disk m') = Ok (as_read m')" "list_root (as_read m') = Ok es'"
    "map e_name es' = [bytes ''HELLO.TXT'', bytes ''DIR'', bytes ''NEW.TXT'']"
    "read_file_by_path (as_read m') (bytes ''/NEW.TXT'') = Ok (Some (bytes ''NEW!''))"
    using demo_writes [of pf] by (elim exE conjE) (rule that)
  have "demo pf dev p rs k = Some (Ok (), k7)"
    unfolding demo_def start Let_def
    by (simp only: hbind_run hang_steps demo_reads(1) demo_reads(3) [unfolded demo_texts(3)] es
      w [unfolded demo_texts(5)] prod.case demo_texts demo_utf8 mount_test_image
      k1(1) k2(1) k3(1) k4(1) k5(1) heap [folded k6_def] k7(1) cong: hbind_cong_weak)
  moreover obtain t where "ports k7 = ?h @ t" "sent t = concat (map (\<lambda>l. l @ [0x0A]) (take 6 demo_lines))"
    "\<And>g. paced False g \<Longrightarrow> paced False (t @ g)" "\<forall>r<6. shows_line (screen k7) r (demo_lines ! r)"
    using k7(2) by (auto simp: reported_def)
  moreover have "take 6 demo_lines = demo_lines" by (simp add: demo_lines_def)
  moreover have "paced False t" using calculation(4) [of "[]"] by simp
  ultimately show ?thesis by auto
qed

text \<open>The library's requests in the witness: one buffer, written and released.\<close>

definition one_buffer :: "request list" where
  "one_buffer = [Alloc \<lparr>l_size = 8192, l_align = 8\<rparr>, Store 0 3 7, Free 0]"

definition booted :: kernel where
  "booted = \<lparr>ports = [], screen = (\<lambda>_. 0), heap = slab_new (\<lambda>_. 0)\<rparr>"

lemma kernel_demo_runs_witness:
  "\<exists>k' t. demo Debug slow_uart 0x100000 one_buffer booted = Some (Ok (), k') \<and> ports k' = serial_init [] @ t
    \<and> sent t = concat (map (\<lambda>l. l @ [0x0A]) demo_lines)"
proof -
  obtain s where s: "library_run Debug one_buffer (snd (slab_init Debug 0x100000 HEAP_SIZE (heap booted)), []) = Some (Ok (), s)"
    "bump s = 0x102000" "heap_end s = 0x120000"
    by (simp add: one_buffer_def booted_def HEAP_SIZE_def slab_init_def slab_new_def slab_alloc_def slab_dealloc_def
      slab_store_def class_index_for_def SIZE_CLASSES_def alloc_from_bump_def debug_assert_def is_power_of_two_def
      align_up_def non_null_def address_of_def Let_def arith_add_def arith_sub_def without_def)
  have l: "\<forall>l\<in>set (layouts_of one_buffer). valid_layout l \<and> unat (0x100000 :: u64) + 0x20000 + unat (l_align l) < 2 ^ 64"
    by (simp add: one_buffer_def valid_layout_def is_power_of_two_def)
  have "heap booted = slab_new (\<lambda>_. 0)" by (simp add: booted_def)
  moreover have "0 < pages_left s" using s(2,3) by (simp add: pages_left_def)
  ultimately show ?thesis
    using kernel_demo_runs [OF slow_uart_responsive _ _ _ l s(1), of "\<lambda>_. 0"] by (auto simp: booted_def)
qed

end
