(* ===== verification/Kernel_Main.thy ===== *)
theory Kernel_Main
  imports Kernel_Demo
begin

text \<open>
  The entry of the kernel and its panic handler, from \<^verbatim>\<open>kernel/src/main.rs\<close>, in the ordinary build and in
  the test build, which also runs the tests and tells QEMU how it went. Both end in a loop that
  spins for ever: a run is the state in which that loop is entered, or \<open>None\<close> when it is not.
\<close>

subsection \<open>The test build\<close>

datatype qemu_exit_code = Success | Failed

fun exit_byte :: "qemu_exit_code \<Rightarrow> u8" where
  "exit_byte Success = 0x10"
| "exit_byte Failed = 0x11"

definition exit_qemu :: "qemu_exit_code \<Rightarrow> io list \<Rightarrow> io list" where
  "exit_qemu code h = outb 0xF4 (exit_byte code) h"

fun test_runner :: "unit kprog list \<Rightarrow> unit kprog" where
  "test_runner [] = hret ()"
| "test_runner (t # ts) = hbind t (\<lambda>_. test_runner ts)"

definition it_works :: "unit kprog" where
  "it_works = assert_that ((1 :: 32 word) + 1 = 2)"

text \<open>The test harness hands the functions marked as tests to \<^verbatim>\<open>test_runner\<close>.\<close>

definition test_main :: "unit kprog" where
  "test_main = test_runner [it_works]"

subsection \<open>Entry and panic\<close>

definition panic :: "bool \<Rightarrow> kernel \<Rightarrow> kernel" where
  "panic test k = (if test then k\<lparr>ports := exit_qemu Failed (ports k)\<rparr> else k)"

text \<open>A panic anywhere goes to the handler; \<open>test\<close> tells the build.\<close>

definition kernel_main :: "bool \<Rightarrow> profile \<Rightarrow> device \<Rightarrow> u64 \<Rightarrow> request list \<Rightarrow> kernel \<Rightarrow> kernel option" where
  "kernel_main test pf dev p rs k =
     (let body =
        (if test then
           hbind (demo pf dev p rs) (\<lambda>_.
           hbind test_main (\<lambda>_.
             on_ports (\<lambda>h. Some (exit_qemu Success h))))
         else demo pf dev p rs)
      in case body k of
           None \<Rightarrow> None
         | Some (Ok _, k') \<Rightarrow> Some k'
         | Some (_, k') \<Rightarrow> Some (panic test k'))"

subsection \<open>Who writes the exit code\<close>

text \<open>The bytes written to the exit port.\<close>

fun exits :: "io list \<Rightarrow> u8 list" where
  "exits [] = []"
| "exits (Out p b # h) = (if p = 0xF4 then b # exits h else exits h)"
| "exits (In p v # h) = exits h"

lemma exits_append [simp]: "exits (g @ h) = exits g @ exits h"
  by (induction g rule: exits.induct) simp_all

text \<open>A program that writes none, however it ends.\<close>

definition quiet :: "'a kprog \<Rightarrow> bool" where
  "quiet p \<longleftrightarrow> (\<forall>k r k'. p k = Some (r, k') \<longrightarrow> exits (ports k') = exits (ports k))"

lemma quiet_hbind: "quiet p \<Longrightarrow> (\<And>x. quiet (f x)) \<Longrightarrow> quiet (hbind p f)"
  unfolding quiet_def hbind_def by (auto split: option.splits prod.splits res.splits)

lemma quiet_steps [simp]:
  "quiet (unwrap r)" "quiet (unwrap_some x)" "quiet (assert_that b)" "quiet (on_screen g)" "quiet (on_heap f)"
  by (auto simp: quiet_def unwrap_def unwrap_some_def assert_that_def on_screen_def on_heap_def
      split: res.splits option.splits)

lemma quiet_on_ports: "(\<And>h h'. f h = Some h' \<Longrightarrow> exits h' = exits h) \<Longrightarrow> quiet (on_ports f)"
  by (auto simp: quiet_def on_ports_def split: option.splits)

lemma quiet_polls: "exits (polls dev n h) = exits h"
  by (induction n) simp_all

lemma quiet_byte: "serial_write_byte dev b h = Some h' \<Longrightarrow> exits h' = exits h"
  by (auto simp: serial_write_byte_def serial_wait_eq outb_def quiet_polls simp del: polls.simps split: if_splits)

lemma quiet_bytes: "serial_bytes dev s h = Some h' \<Longrightarrow> exits h' = exits h"
  by (induction s arbitrary: h) (auto dest: quiet_byte split: option.splits)

lemma quiet_str: "serial_write_str dev s h = Some h' \<Longrightarrow> exits h' = exits h"
  using quiet_bytes [of dev s h] quiet_byte by (fastforce simp: serial_write_str_def split: option.splits)

lemma quiet_report: "quiet (report dev r s)"
  unfolding report_def by (intro quiet_hbind quiet_on_ports quiet_steps quiet_str)

lemma quiet_split: "(\<And>a b. quiet (f a b)) \<Longrightarrow> quiet (case x of (a, b) \<Rightarrow> f a b)"
  by (cases x) simp

lemma quiet_demo: "quiet (demo pf dev p rs)"
proof -
  have init: "quiet (on_ports (\<lambda>h. Some (serial_init h)))"
    by (rule quiet_on_ports) (auto simp: serial_init_def outb_def Let_def)
  show ?thesis
    unfolding demo_def Let_def by (rule quiet_hbind init quiet_split quiet_report quiet_steps)+
qed

subsection \<open>Properties\<close>

lemma test_main_passes: "test_main k = Some (Ok (), k)"
  by (simp add: test_main_def it_works_def)

text \<open>C38: the kernel ends where its demonstration ends. In the test build it then makes one more port access, which
  tells QEMU how it went: \<^verbatim>\<open>Success\<close> when the demonstration ran to its end, \<^verbatim>\<open>Failed\<close> when it panicked; no
  exit code is written before. The ordinary build does nothing more. In neither does the panic handler print
  anything: the screen, the heap and the serial port are as the demonstration left them. A demonstration that
  does not return leaves the entry point not returning.\<close>

theorem kernel_exit_code:
  "case demo pf dev p rs k of
     None \<Rightarrow> kernel_main test pf dev p rs k = None
   | Some (r, k1) \<Rightarrow> exits (ports k1) = exits (ports k) \<and>
       kernel_main test pf dev p rs k = Some (if test
         then k1\<lparr>ports := ports k1 @ [Out 0xF4 (exit_byte (if r = Ok () then Success else Failed))]\<rparr>
         else k1)"
proof (cases "demo pf dev p rs k")
  case None
  then show ?thesis by (simp add: kernel_main_def hbind_def)
next
  case (Some rk)
  obtain r k1 where r: "demo pf dev p rs k = Some (r, k1)" using Some by (cases rk) auto
  have ex: "exits (ports k1) = exits (ports k)" using quiet_demo r unfolding quiet_def by blast
  have "kernel_main test pf dev p rs k
      = Some (if test then k1\<lparr>ports := exit_qemu (if r = Ok () then Success else Failed) (ports k1)\<rparr> else k1)"
  proof (cases test)
    case True
    have "hbind test_main (\<lambda>_. on_ports (\<lambda>h. Some (exit_qemu Success h))) k1 = Some (Ok (), k1\<lparr>ports := exit_qemu Success (ports k1)\<rparr>)"
      using test_main_passes by (simp add: on_ports_def)
    with r True show ?thesis by (cases r) (simp_all add: kernel_main_def hbind_def [of "demo pf dev p rs"] panic_def)
  next
    case False
    with r show ?thesis by (cases r) (simp_all add: kernel_main_def panic_def)
  qed
  with ex show ?thesis unfolding r by (simp add: exit_qemu_def outb_def)
qed

end
