(* ===== verification/Locked_Alloc.thy ===== *)
theory Locked_Alloc
  imports Spin_Lock Slab_Use
begin

text \<open>
  \<^verbatim>\<open>LockedAlloc\<close>, the global allocator, from \<^verbatim>\<open>slaballoc/src/lib.rs\<close>: the slab allocator behind a spin lock,
  as the threads of a program use it.
\<close>

subsection \<open>The locked operations\<close>

definition locked_new :: "memory \<Rightarrow> slab_allocator spin_lock" where
  "locked_new m = spin_lock_new (slab_new m)"

definition locked_default :: "memory \<Rightarrow> slab_allocator spin_lock" where
  "locked_default m = locked_new m"

datatype alloc_call = Call_init u64 u64 | Call_alloc layout | Call_dealloc u64 layout

text \<open>What \<^verbatim>\<open>init\<close>, \<^verbatim>\<open>alloc\<close> and \<^verbatim>\<open>dealloc\<close> do with the guard they hold; the result is the pointer, or 0 for
  the two that return nothing. \<open>None\<close>: the call panics, and the panic handler of the kernel never
  returns, or the call itself does not return.\<close>

fun locked_call :: "profile \<Rightarrow> alloc_call \<Rightarrow> slab_allocator \<Rightarrow> (u64 \<times> slab_allocator) option" where
  "locked_call pf (Call_init start sz) s =
     (case slab_init pf start sz s of (Ok _, s') \<Rightarrow> Some (0, s') | _ \<Rightarrow> None)"
| "locked_call pf (Call_alloc l) s =
     (case slab_alloc pf l s of Some (Ok p, s') \<Rightarrow> Some (p, s') | _ \<Rightarrow> None)"
| "locked_call pf (Call_dealloc p l) s = Some (0, slab_dealloc p l s)"

type_synonym alloc_system = "(alloc_call, slab_allocator, u64) system"

text \<open>C27: whatever threads call \<^verbatim>\<open>init\<close>, \<^verbatim>\<open>alloc\<close> and \<^verbatim>\<open>dealloc\<close> in whatever order, at most one is between taking
  and dropping the guard, and then the lock is taken.\<close>

theorem alloc_mutual_exclusion:
  fixes c :: alloc_system
  assumes "reach (locked_call pf) (inner (locked_new m)) c" "in_section (pcs c t)"
  shows "locked (lock c) \<and> (\<forall>u. in_section (pcs c u) \<longrightarrow> u = t)"
  using lock_inv_holder [OF reach_inv [OF assms(1)] assms(2)] by (auto dest: holderI)

text \<open>A thread that has taken the lock to initialise the allocator.\<close>

definition one_inside :: alloc_system where
  "one_inside = solo (Call_init 0x10000 0x10000) (slab_new (\<lambda>_. 0)) 0 small_heap 3"

lemma init_small_heap: "locked_call Debug (Call_init 0x10000 0x10000) (slab_new (\<lambda>_. 0)) = Some (0, small_heap)"
  by (simp add: small_heap)

lemma alloc_mutual_exclusion_witness: "locked (lock one_inside) \<and> \<not> in_section (pcs one_inside 1)"
proof -
  have "reach (locked_call Debug) (inner (locked_new (\<lambda>_. 0))) one_inside"
    unfolding one_inside_def locked_new_def spin_lock_new_def
    using reach_solo [where exec = "locked_call Debug", OF init_small_heap] by simp
  moreover have "in_section (pcs one_inside 0)" by (simp add: one_inside_def solo_def start_system_def)
  ultimately show ?thesis using alloc_mutual_exclusion [of Debug "\<lambda>_. 0" one_inside 0] by auto
qed

text \<open>C28: linearizability. At every moment the allocator is as if the finished calls had run alone, one after
  the other, and every call returns the result it had there.\<close>

theorem locked_alloc_linearizable:
  fixes c :: alloc_system
  assumes "reach (locked_call pf) (inner (locked_new m)) c"
  shows "replay (locked_call pf) (history c) (inner (locked_new m)) = Some (inner (lock c))
    \<and> (\<forall>t op r. pcs c t = Dropping op r \<longrightarrow> (t, op, r) \<in> set (history c))"
  using reach_replay [OF assms] reach_result [OF assms] by blast

lemma locked_alloc_linearizable_witness:
  "replay (locked_call Debug) [(0, Call_init 0x10000 0x10000, 0)] (slab_new (\<lambda>_. 0)) = Some small_heap"
proof -
  let ?c = "solo (Call_init 0x10000 0x10000) (slab_new (\<lambda>_. 0)) 0 small_heap 4"
  have "reach (locked_call Debug) (inner (locked_new (\<lambda>_. 0))) ?c"
    unfolding locked_new_def spin_lock_new_def using reach_solo [where exec = "locked_call Debug", OF init_small_heap] by simp
  from locked_alloc_linearizable [OF this] show ?thesis
    by (simp only: solo_def locked_new_def spin_lock_new_def) simp
qed

subsection \<open>Threads that own blocks\<close>

text \<open>
  The same calls by threads that release only blocks they hold. Beside the allocator stands the list
  of the blocks held by all threads together; a release of none of them does nothing.
\<close>

fun owned_call ::
  "profile \<Rightarrow> request \<Rightarrow> slab_allocator \<times> handle list \<Rightarrow> (u64 \<times> slab_allocator \<times> handle list) option"
where
  "owned_call pf (Alloc l) (s, live) =
     (case locked_call pf (Call_alloc l) s of
        Some (p, s') \<Rightarrow> Some (p, s', if p = 0 then live else (p, l) # live)
      | None \<Rightarrow> None)"
| "owned_call pf (Free k) (s, live) =
     (if k < length live then
        (case locked_call pf (Call_dealloc (fst (live ! k)) (snd (live ! k))) s of
           Some (r, s') \<Rightarrow> Some (r, s', without k live)
         | None \<Rightarrow> None)
      else Some (0, s, live))"
| "owned_call pf (Store k i v) (s, live) = Some (0, s, live)"

text \<open>Requests for layouts that can be asked for on a heap with the limits \<open>r\<close>.\<close>

definition askable :: "u64 \<times> u64 \<Rightarrow> request \<Rightarrow> bool" where
  "askable r q \<longleftrightarrow> (\<forall>l. q = Alloc l \<longrightarrow> slab_good r l)"

definition owned_ok :: "u64 \<times> u64 \<Rightarrow> slab_allocator \<times> handle list \<Rightarrow> bool" where
  "owned_ok r c \<longleftrightarrow> slab_ok (fst c) (snd c) \<and> limits (fst c) = r"

lemma owned_call_ok:
  assumes "owned_ok r c" "askable r q"
  shows "\<exists>x c'. owned_call pf q c = Some (x, c') \<and> owned_ok r c'"
proof (cases c)
  case (Pair s live)
  with assms(1) have ok: "slab_ok s live" "limits s = r" by (simp_all add: owned_ok_def)
  show ?thesis
  proof (cases q)
    case (Alloc l)
    then have "slab_good (limits s) l" using assms(2) ok(2) by (simp add: askable_def)
    from slab.alloc [OF ok(1) this] obtain p s' where "slab_alloc pf l s = Some (Ok p, s')"
      "slab_ok s' (if p = 0 then live else (p, l) # live)" "limits s' = limits s"
      by blast
    with Alloc Pair ok(2) show ?thesis by (auto simp: owned_ok_def)
  next
    case (Free k)
    show ?thesis
    proof (cases "k < length live")
      case True
      from slab.dealloc [OF ok(1) this, of "fst (live ! k)" "snd (live ! k)"] Free Pair ok(2) True
      show ?thesis by (auto simp: owned_ok_def)
    qed (use Free Pair ok in \<open>simp add: owned_ok_def\<close>)
  next
    case (Store k i v)
    with Pair ok show ?thesis by (simp add: owned_ok_def)
  qed
qed

interpretation owners: guarded "owned_call pf" "askable r" "owned_ok r" for pf r
  by unfold_locales (rule owned_call_ok)

text \<open>C29: however the calls of the threads interleave, the blocks they hold together do not overlap, are
  aligned and lie in the heap.\<close>

theorem concurrent_blocks_separate:
  assumes "slab_ok s0 []" "limits s0 = r"
    and "reach_calling (owned_call pf) (askable r) (s0, []) c" "inner (lock c) = (s, live)"
  shows "separate live \<and> (\<forall>h\<in>set live. aligned h \<and> inside r h)"
proof -
  have "owned_ok r (inner (lock c))"
    by (rule owners.inner_inv [OF assms(3)]) (simp add: owned_ok_def assms(1,2))
  then have "slab_ok s live" "limits s = r" by (simp_all add: owned_ok_def assms(4))
  then show ?thesis using slab.handles [of s live] by simp
qed

lemma concurrent_blocks_separate_witness:
  "\<exists>p s'. owned_call Debug (Alloc page) (small_heap, []) = Some (p, s', [(p, page)])
    \<and> separate [(p, page)] \<and> aligned (p, page) \<and> inside (limits small_heap) (p, page)"
proof -
  obtain p s' where p: "slab_alloc Debug page small_heap = Some (Ok p, s')" "p \<noteq> 0"
    using slab_alloc_page by blast
  then have call: "owned_call Debug (Alloc page) (small_heap, []) = Some (p, s', [(p, page)])" by simp
  let ?c = "solo (Alloc page) (small_heap, []) p (s', [(p, page)])"
  have "askable (limits small_heap) (Alloc page)" by (simp add: askable_def page)
  then have "\<forall>i. calls_ok (askable (limits small_heap)) (?c i)" by (simp add: solo_calls)
  then have "reach_calling (owned_call Debug) (askable (limits small_heap)) (small_heap, []) (?c 5)"
    by (rule run_reach_calling [OF solo_run [where exec = "owned_call Debug", OF call] solo_start])
  moreover have "inner (lock (?c 5)) = (s', [(p, page)])" by (simp add: solo_def)
  ultimately have "separate [(p, page)] \<and> (\<forall>h\<in>set [(p, page)]. aligned h \<and> inside (limits small_heap) h)"
    using concurrent_blocks_separate [OF small_heap(2) refl] by blast
  with call show ?thesis by auto
qed

text \<open>C30: progress. In every infinite run in which each thread with something to do gets its turn again and
  again, while a thread waits in the loop of \<^verbatim>\<open>lock\<close>, some thread gets the guard.\<close>

theorem locked_alloc_progress:
  assumes "slab_ok s0 []" "limits s0 = r"
    and "run_of (owned_call pf) who c" "c 0 = start_system (s0, [])" "\<forall>i. calls_ok (askable r) (c i)"
    and "fair_run who c" "pcs (c i) t = Spinning op"
  shows "\<exists>j\<ge>i. \<not> locked (lock (c j)) \<and> in_section (pcs (c (Suc j)) (who j))"
proof (rule owners.progress [OF assms(3,6,4) _ assms(5,7)])
  show "owned_ok r (s0, [])" by (simp add: owned_ok_def assms(1,2))
qed

definition one_waiting :: "nat \<Rightarrow> (request, slab_allocator \<times> handle list, u64) system" where
  "one_waiting = solo (Free 0) (small_heap, []) 0 (small_heap, [])"

lemma locked_alloc_progress_witness:
  "\<exists>j\<ge>1. \<not> locked (lock (one_waiting j)) \<and> in_section (pcs (one_waiting (Suc j)) 0)"
proof -
  have "owned_call Debug (Free 0) (small_heap, []) = Some (0, small_heap, [])" by simp
  then have run: "run_of (owned_call Debug) (\<lambda>_. 0) one_waiting"
    unfolding one_waiting_def by (rule solo_run)
  have calls: "\<forall>i. calls_ok (askable (limits small_heap)) (one_waiting i)"
    by (simp add: one_waiting_def solo_calls askable_def)
  have c: "one_waiting 0 = start_system (small_heap, [])" "fair_run (\<lambda>_. 0) one_waiting"
    "pcs (one_waiting 1) 0 = Spinning (Free 0)"
    by (simp_all add: one_waiting_def solo_start solo_fair) (simp add: solo_def move_def)
  from locked_alloc_progress [OF small_heap(2) refl run c(1) calls c(2,3)] show ?thesis .
qed

end
