(* ===== verification/Vga_Screen.thy ===== *)
theory Vga_Screen
  imports Vga
begin

text \<open>
  What the screen shows: as a list of 25 lines of 80 cells, the writer is a terminal that lays a text
  out in lines, wraps them at 80 characters and shows the last 25.
\<close>

subsection \<open>Bounds\<close>

definition on_screen :: "vga_writer \<Rightarrow> bool" where
  "on_screen w \<longleftrightarrow> row w < 25 \<and> col w < 80"

text \<open>All bytes outside of the screen memory are the same.\<close>

definition same_outside :: "(nat \<Rightarrow> u8) \<Rightarrow> (nat \<Rightarrow> u8) \<Rightarrow> bool" where
  "same_outside m m' \<longleftrightarrow> (\<forall>x. \<not> (0xb8000 \<le> x \<and> x < 0xb8000 + 4000) \<longrightarrow> m' x = m x)"

lemma same_outside_refl [simp]: "same_outside m m"
  by (simp add: same_outside_def)

lemma same_outside_trans: "same_outside a b \<Longrightarrow> same_outside b c \<Longrightarrow> same_outside a c"
  by (simp add: same_outside_def)

lemma newline_vram:
  "vram (vga_newline w) x =
     (if row w < 24 then vram w x
      else if vga_buffer \<le> x \<and> x < vga_buffer + 3840 then vram w (x + 160)
      else if vga_buffer + 3840 \<le> x \<and> x < vga_buffer + 4000
        then if even (x - vga_buffer) then 0x20 else attr w
      else vram w x)"
  by (simp add: vga_newline_def Let_def scroll_loop last_line_loop)

lemma newline_fields [simp]:
  "row (vga_newline w) = (if row w < 24 then Suc (row w) else 24)" "col (vga_newline w) = 0"
  "attr (vga_newline w) = attr w"
  by (simp_all add: vga_newline_def Let_def)

lemma newline_on_screen: "on_screen (vga_newline w)"
  by (simp add: on_screen_def)

lemma newline_outside: "same_outside (vram w) (vram (vga_newline w))"
  by (auto simp: same_outside_def newline_vram vga_buffer_def)

lemma write_byte_bounds:
  assumes "on_screen w"
  shows "on_screen (write_byte b w) \<and> same_outside (vram w) (vram (write_byte b w))"
proof -
  let ?idx = "(row w * 80 + col w) * 2"
  let ?w = "w\<lparr>vram := (vram w)(vga_buffer + ?idx := b, vga_buffer + (?idx + 1) := attr w), col := col w + 1\<rparr>"
  have "?idx + 1 < 4000" using assms by (simp add: on_screen_def)
  then have "same_outside (vram w) (vram ?w)" by (simp add: same_outside_def vga_buffer_def)
  with newline_outside [of ?w] newline_outside [of w] newline_on_screen assms show ?thesis
    by (auto simp: write_byte_def Let_def on_screen_def intro: same_outside_trans)
qed

lemma write_str_bounds:
  "on_screen w \<Longrightarrow> on_screen (vga_write_str s w) \<and> same_outside (vram w) (vram (vga_write_str s w))"
proof (induction s arbitrary: w)
  case (Cons b s)
  from write_byte_bounds [OF Cons.prems, of b] Cons.IH [of "write_byte b w"] show ?case
    by (auto simp: vga_write_str_def intro: same_outside_trans)
qed (simp add: vga_write_str_def)

lemma print_bounds:
  "on_screen w \<Longrightarrow> on_screen (vga_print ps w) \<and> same_outside (vram w) (vram (vga_print ps w))"
proof (induction ps arbitrary: w)
  case (Cons s ps)
  from write_str_bounds [OF Cons.prems, of s] Cons.IH [of "vga_write_str s w"] show ?case
    by (auto simp: vga_print_def intro: same_outside_trans)
qed (simp add: vga_print_def)

lemma clear_vram:
  "vram (vga_clear w) x = (if vga_buffer \<le> x \<and> x < vga_buffer + 4000
     then if even (x - vga_buffer) then 0x20 else attr w else vram w x)"
  by (simp add: vga_clear_def clear_loop)

lemma clear_bounds: "on_screen (vga_clear w) \<and> same_outside (vram w) (vram (vga_clear w))"
  by (auto simp: same_outside_def clear_vram vga_buffer_def) (simp add: vga_clear_def on_screen_def)

subsection \<open>Cells and lines\<close>

type_synonym cell = "u8 \<times> u8"

definition cell :: "(nat \<Rightarrow> u8) \<Rightarrow> nat \<Rightarrow> nat \<Rightarrow> cell" where
  "cell m r c = (m (vga_buffer + 2 * (r * 80 + c)), m (vga_buffer + (2 * (r * 80 + c) + 1)))"

definition screen :: "(nat \<Rightarrow> u8) \<Rightarrow> cell list list" where
  "screen m = map (\<lambda>r. map (cell m r) [0..<80]) [0..<25]"

lemma length_screen [simp]: "length (screen m) = 25"
  by (simp add: screen_def)

lemma screen_nth: "r < 25 \<Longrightarrow> screen m ! r = map (cell m r) [0..<80]"
  by (simp add: screen_def del: upt_Suc)

lemma screenI:
  "length ls = 25 \<Longrightarrow> (\<And>r. r < 25 \<Longrightarrow> length (ls ! r) = 80) \<Longrightarrow>
     (\<And>r c. r < 25 \<Longrightarrow> c < 80 \<Longrightarrow> cell m r c = ls ! r ! c) \<Longrightarrow> screen m = ls"
  by (intro nth_equalityI) (auto simp: screen_nth simp del: upt_Suc)

lemma screen_newline:
  "screen (vram (vga_newline w)) =
     (if row w < 24 then screen (vram w) else tl (screen (vram w)) @ [replicate 80 (0x20, attr w)])"
proof (cases "row w < 24")
  case False
  have "cell (vram (vga_newline w)) r c = (tl (screen (vram w)) @ [replicate 80 (0x20, attr w)]) ! r ! c"
    if "r < 25" "c < 80" for r c
  proof (cases "r < 24")
    case True
    with that have "r * 80 + c < 1920" by simp
    with True that False show ?thesis
      by (simp add: cell_def newline_vram nth_append nth_tl screen_nth algebra_simps del: upt_Suc)
  next
    case False
    with that have "r = 24" by simp
    with \<open>\<not> row w < 24\<close> that show ?thesis
      by (simp add: cell_def newline_vram nth_append)
  qed
  moreover have "length ((tl (screen (vram w)) @ [replicate 80 (0x20, attr w)]) ! r) = 80" if "r < 25" for r
    using that by (cases "r < 24") (simp_all add: nth_append nth_tl screen_nth del: upt_Suc replicate.simps)
  ultimately show ?thesis using False by (simp add: screenI)
qed (simp add: screen_def cell_def newline_vram)

lemma same_cell:
  fixes r c r' c' :: nat
  assumes "c' < 80" "c < 80"
  shows "r' * 80 + c' = r * 80 + c \<longleftrightarrow> r' = r \<and> c' = c"
proof -
  have "(r' * 80 + c') div 80 = r'" "(r * 80 + c) div 80 = r" using assms by simp_all
  then show ?thesis by (metis add_left_cancel)
qed

lemma put_at:
  "(m(vga_buffer + k * 2 := b, vga_buffer + (k * 2 + 1) := a)) (vga_buffer + 2 * j) =
     (if j = k then b else m (vga_buffer + 2 * j))"
  "(m(vga_buffer + k * 2 := b, vga_buffer + (k * 2 + 1) := a)) (vga_buffer + (2 * j + 1)) =
     (if j = k then a else m (vga_buffer + (2 * j + 1)))"
proof -
  have "2 * j \<noteq> k * 2 + 1" "2 * j + 1 \<noteq> k * 2" by presburger+
  then show "(m(vga_buffer + k * 2 := b, vga_buffer + (k * 2 + 1) := a)) (vga_buffer + 2 * j) =
     (if j = k then b else m (vga_buffer + 2 * j))"
    "(m(vga_buffer + k * 2 := b, vga_buffer + (k * 2 + 1) := a)) (vga_buffer + (2 * j + 1)) =
     (if j = k then a else m (vga_buffer + (2 * j + 1)))" by simp_all
qed

lemma screen_put:
  assumes "r < 25" "c < 80"
  shows "screen (m(vga_buffer + (r * 80 + c) * 2 := b, vga_buffer + ((r * 80 + c) * 2 + 1) := a))
    = (screen m)[r := (screen m ! r)[c := (b, a)]]"
proof (rule screenI)
  fix r' c' :: nat
  assume rc: "r' < 25" "c' < 80"
  then have "r' * 80 + c' = r * 80 + c \<longleftrightarrow> r' = r \<and> c' = c" using assms(2) by (intro same_cell)
  then have "cell (m(vga_buffer + (r * 80 + c) * 2 := b, vga_buffer + ((r * 80 + c) * 2 + 1) := a)) r' c'
      = (if r' = r \<and> c' = c then (b, a) else cell m r' c')"
    unfolding cell_def put_at by simp
  also have "\<dots> = (screen m)[r := (screen m ! r)[c := (b, a)]] ! r' ! c'"
    using rc assms by (auto simp: nth_list_update screen_nth simp del: upt_Suc)
  finally show "cell (m(vga_buffer + (r * 80 + c) * 2 := b, vga_buffer + ((r * 80 + c) * 2 + 1) := a)) r' c'
      = (screen m)[r := (screen m ! r)[c := (b, a)]] ! r' ! c'" .
qed (use assms in \<open>auto simp: nth_list_update screen_nth simp del: upt_Suc\<close>)

lemma screen_clear: "screen (vram (vga_clear w)) = replicate 25 (replicate 80 (0x20, attr w))"
proof (rule screenI)
  fix r c :: nat
  assume "r < 25" "c < 80"
  moreover from this have "r * 80 + c < 2000" by simp
  ultimately show "cell (vram (vga_clear w)) r c = replicate 25 (replicate 80 (0x20, attr w)) ! r ! c"
    by (simp add: cell_def clear_vram del: replicate.simps)
qed simp_all

end
