(* ===== verification/Vga_Terminal.thy ===== *)
theory Vga_Terminal
  imports Vga_Screen
begin

text \<open>
  The writer as a terminal: the text printed since the last clear, laid out in lines, and the screen a
  window on the end of it. Then the writer behind its lock.
\<close>

subsection \<open>Layout\<close>

text \<open>The finished lines and the line that the cursor is on, in cells of attribute \<open>a\<close>.\<close>

type_synonym layout_state = "cell list list \<times> cell list"

fun lay_byte :: "u8 \<Rightarrow> u8 \<Rightarrow> layout_state \<Rightarrow> layout_state" where
  "lay_byte a b (ls, cur) =
     (if b = of_char CHR ''\<newline>'' then (ls @ [cur], [])
      else if length cur < 79 then (ls, cur @ [(b, a)])
      else (ls @ [cur @ [(b, a)]], []))"

definition lay_out :: "u8 \<Rightarrow> rstr \<Rightarrow> layout_state" where
  "lay_out a s = fold (lay_byte a) s ([], [])"

definition pad :: "u8 \<Rightarrow> cell list \<Rightarrow> cell list" where
  "pad a l = l @ replicate (80 - length l) (of_char CHR '' '', a)"

text \<open>The last 25 lines, and blank ones below them.\<close>

definition visible :: "u8 \<Rightarrow> layout_state \<Rightarrow> cell list list" where
  "visible a t =
     (let shown = drop (length (fst t) - 24) (fst t @ [snd t])
      in map (pad a) shown @ replicate (25 - length shown) (pad a []))"

definition displays :: "vga_writer \<Rightarrow> layout_state \<Rightarrow> bool" where
  "displays w t \<longleftrightarrow> screen (vram w) = visible (attr w) t
     \<and> row w = min 24 (length (fst t)) \<and> col w = length (snd t) \<and> length (snd t) < 80"

lemma visible_length: "length (visible a t) = 25"
  by (simp add: visible_def Let_def)

lemma visible_newline:
  "visible a (ls @ [cur], []) =
     (if length ls < 24 then visible a (ls, cur) else tl (visible a (ls, cur)) @ [pad a []])"
proof (cases "length ls < 24")
  case True
  then have "25 - length ls = Suc (25 - Suc (length ls))" "25 - Suc (length ls) = Suc (25 - Suc (Suc (length ls)))"
    by simp_all
  with True show ?thesis by (simp add: visible_def Let_def)
next
  case False
  then have "drop (Suc (length ls) - 24) ls = tl (drop (length ls - 24) ls)"
    by (metis Suc_diff_le drop_Suc not_less tl_drop)
  moreover have "ls \<noteq> [] \<and> length ls - 24 < length ls" using False by (cases ls) auto
  ultimately show ?thesis using False by (simp add: visible_def Let_def map_tl [symmetric])
qed

lemma visible_put:
  assumes "length cur < 80"
  shows "visible a (ls, cur @ [x]) =
    (visible a (ls, cur))[min 24 (length ls) := (visible a (ls, cur) ! min 24 (length ls))[length cur := x]]"
proof -
  let ?n = "length ls - 24"
  have len: "length (map (pad a) (drop ?n ls)) = min 24 (length ls)" by simp
  have w: "visible a (ls, c) = map (pad a) (drop ?n ls) @ pad a c # replicate (24 - min 24 (length ls)) (pad a [])" for c
    by (simp add: visible_def Let_def)
  have "(pad a cur)[length cur := x] = pad a (cur @ [x])"
  proof -
    have "80 - length cur = Suc (80 - Suc (length cur))" using assms by simp
    then show ?thesis by (simp add: pad_def list_update_append)
  qed
  then show ?thesis unfolding w len [symmetric] by (simp add: list_update_append nth_append)
qed

lemma displays_newline:
  assumes "displays w (ls, cur)"
  shows "displays (vga_newline w) (ls @ [cur], [])"
proof -
  have "row w < 24 \<longleftrightarrow> length ls < 24" using assms by (auto simp: displays_def)
  moreover have "pad (attr w) [] = replicate 80 (0x20, attr w)" by (simp add: pad_def)
  ultimately show ?thesis
    using assms by (simp add: displays_def screen_newline visible_newline)
qed

lemma displays_byte:
  assumes "displays w (ls, cur)"
  shows "displays (write_byte b w) (lay_byte (attr w) b (ls, cur)) \<and> attr (write_byte b w) = attr w"
proof (cases "b = of_char CHR ''\<newline>''")
  case True
  with displays_newline [OF assms] show ?thesis by (simp add: write_byte_def)
next
  case False
  let ?idx = "(row w * 80 + col w) * 2"
  let ?w = "w\<lparr>vram := (vram w)(vga_buffer + ?idx := b, vga_buffer + (?idx + 1) := attr w), col := col w + 1\<rparr>"
  have w: "screen (vram w) = visible (attr w) (ls, cur)" "row w = min 24 (length ls)" "col w = length cur"
    "length cur < 80" using assms by (simp_all add: displays_def)
  have scr: "screen (vram ?w) = visible (attr w) (ls, cur @ [(b, attr w)])"
    using screen_put [of "row w" "col w" "vram w" b "attr w"] visible_put [OF w(4)] w by simp
  show ?thesis
  proof (cases "length cur < 79")
    case True
    with scr w False show ?thesis by (simp add: write_byte_def Let_def displays_def)
  next
    case full: False
    have "screen (vram (vga_newline ?w)) = visible (attr w) (ls @ [cur @ [(b, attr w)]], [])"
      unfolding screen_newline scr visible_newline using w(2) by (simp add: pad_def del: replicate.simps)
    with full w False show ?thesis by (simp add: write_byte_def Let_def displays_def)
  qed
qed

lemma displays_str:
  "displays w t \<Longrightarrow> displays (vga_write_str s w) (fold (lay_byte (attr w)) s t) \<and> attr (vga_write_str s w) = attr w"
proof (induction s arbitrary: w t)
  case (Cons b s)
  obtain ls cur where t: "t = (ls, cur)" by fastforce
  from displays_byte [OF Cons.prems [unfolded t], of b]
    Cons.IH [of "write_byte b w" "lay_byte (attr w) b t"]
  show ?case by (simp add: t vga_write_str_def)
qed (simp add: vga_write_str_def)

lemma displays_print:
  "displays w t \<Longrightarrow> displays (vga_print ps w) (fold (lay_byte (attr w)) (concat ps) t) \<and> attr (vga_print ps w) = attr w"
proof (induction ps arbitrary: w t)
  case (Cons s ps)
  from displays_str [OF Cons.prems, of s] Cons.IH [of "vga_write_str s w" "fold (lay_byte (attr w)) s t"]
  show ?case by (simp add: vga_print_def)
qed (simp add: vga_print_def)

lemma displays_clear: "displays (vga_clear w) ([], [])"
proof -
  have "attr (vga_clear w) = attr w" by (simp add: vga_clear_def)
  moreover have "visible a ([], []) = replicate 25 (replicate 80 (0x20, a))" for a
    by (simp add: visible_def Let_def pad_def replicate_Suc [symmetric] del: replicate.simps)
  ultimately show ?thesis using screen_clear [of w] by (simp add: displays_def) (simp add: vga_clear_def)
qed

text \<open>C31: after a clear, what is printed appears as on a terminal: laid out in lines, wrapped at 80 characters,
  the last 25 lines on the screen in the colours of the writer, blanks after the end of each line.\<close>

theorem print_shows_end_of_text:
  "screen (vram (vga_print ps (vga_clear w))) = visible (attr w) (lay_out (attr w) (concat ps))"
proof -
  have "attr (vga_clear w) = attr w" by (simp add: vga_clear_def)
  with displays_print [OF displays_clear, of ps w] show ?thesis by (simp add: displays_def lay_out_def)
qed

subsection \<open>The locked writer\<close>

text \<open>The public functions, each of which runs with the guard of \<^verbatim>\<open>WRITER\<close>.\<close>

datatype vga_request =
    Call_print "rstr list"
  | Call_set_color u8 u8
  | Call_set_colors color color
  | Call_clear

fun vga_call :: "vga_request \<Rightarrow> vga_writer \<Rightarrow> (unit \<times> vga_writer) option" where
  "vga_call (Call_print ps) w = Some ((), vga_print ps w)"
| "vga_call (Call_set_color fg bg) w = Some ((), vga_set_color fg bg w)"
| "vga_call (Call_set_colors fg bg) w = Some ((), vga_set_colors fg bg w)"
| "vga_call Call_clear w = Some ((), vga_clear w)"

lemma vga_call_bounds:
  assumes "on_screen w"
  shows "\<exists>w'. vga_call q w = Some ((), w') \<and> on_screen w' \<and> same_outside (vram w) (vram w')"
  using assms print_bounds [OF assms] clear_bounds [of w]
  by (cases q) (auto simp: vga_set_color_def vga_set_colors_def on_screen_def)

text \<open>\<open>m\<close>: the memory at the start.\<close>

definition vga_ok :: "(nat \<Rightarrow> u8) \<Rightarrow> vga_writer \<Rightarrow> bool" where
  "vga_ok m w \<longleftrightarrow> on_screen w \<and> same_outside m (vram w)"

interpretation screen_lock: guarded vga_call "\<lambda>_. True" "vga_ok m" for m
proof
  fix w q
  assume "vga_ok m w"
  with vga_call_bounds [of w q] show "\<exists>r w'. vga_call q w = Some (r, w') \<and> vga_ok m w'"
    by (auto simp: vga_ok_def intro: same_outside_trans)
qed

text \<open>C32: whatever threads print, clear and recolour, in whatever interleaving, the cursor stays on the screen and
  no byte outside the 4000 of the screen memory changes.\<close>

theorem printing_stays_on_screen:
  assumes "reach vga_call (inner (WRITER m)) c"
  shows "on_screen (inner (lock c)) \<and> same_outside m (vram (inner (lock c)))"
proof -
  have "reach_calling vga_call (\<lambda>_. True) (inner (WRITER m)) c" by (rule reach_calling_all [OF assms])
  moreover have "vga_ok m (inner (WRITER m))"
    by (simp add: vga_ok_def WRITER_def spin_lock_new_def on_screen_def)
  ultimately have "vga_ok m (inner (lock c))" by (rule screen_lock.inner_inv)
  then show ?thesis by (simp add: vga_ok_def)
qed

definition one_printed :: "(vga_request, vga_writer, unit) system" where
  "one_printed = solo (Call_print [bytes ''hi'']) (inner (WRITER (\<lambda>_. 0))) ()
     (vga_print [bytes ''hi''] (inner (WRITER (\<lambda>_. 0)))) 5"

lemma reach_one_printed: "reach vga_call (inner (WRITER (\<lambda>_. 0))) one_printed"
  unfolding one_printed_def by (rule reach_solo) simp

lemma printing_stays_on_screen_witness:
  "on_screen (inner (lock one_printed)) \<and> same_outside (\<lambda>_. 0) (vram (inner (lock one_printed)))"
  by (rule printing_stays_on_screen [OF reach_one_printed])

text \<open>C33: prints are not torn. When the threads print and nothing else, the text that reaches the writer is the
  texts of the finished calls, whole and one after the other.\<close>

theorem prints_are_atomic:
  fixes c :: "(vga_request, vga_writer, unit) system"
  assumes "reach vga_call (vga_clear w) c" "map (\<lambda>(t, q, r). q) (history c) = map Call_print texts"
  shows "screen (vram (inner (lock c))) = visible (attr w) (lay_out (attr w) (concat (map concat texts)))"
proof -
  have "replay vga_call h s = Some (fold vga_print texts s)" if "map (\<lambda>(t, q, r). q) h = map Call_print texts"
    for h :: "(nat \<times> vga_request \<times> unit) list" and texts s
    using that by (induction h arbitrary: texts s) auto
  moreover have "fold vga_print texts s = vga_print (concat texts) s" for texts s
    by (induction texts arbitrary: s) (simp_all add: vga_print_def)
  ultimately have "inner (lock c) = vga_print (concat texts) (vga_clear w)"
    using reach_replay [OF assms(1)] assms(2) by simp
  moreover have "concat (concat texts) = concat (map concat texts)" by (induction texts) simp_all
  ultimately show ?thesis by (simp add: print_shows_end_of_text)
qed

definition cleared :: vga_writer where
  "cleared = vga_clear (inner (WRITER (\<lambda>_. 0)))"

lemma prints_are_atomic_witness:
  "screen (vram (vga_print [bytes ''hi''] cleared)) = visible 0x0F (lay_out 0x0F (bytes ''hi''))"
proof -
  let ?c = "solo (Call_print [bytes ''hi'']) cleared () (vga_print [bytes ''hi''] cleared) 5"
  have "reach vga_call cleared ?c" by (rule reach_solo) simp
  then have "reach vga_call (vga_clear (inner (WRITER (\<lambda>_. 0)))) ?c" by (simp only: cleared_def)
  moreover have "history ?c = [(0, Call_print [bytes ''hi''], ())]"
    "inner (lock ?c) = vga_print [bytes ''hi''] cleared" by (simp_all add: solo_def)
  ultimately show ?thesis
    using prints_are_atomic [of "inner (WRITER (\<lambda>_. 0))" ?c "[[bytes ''hi'']]"]
    by (simp add: WRITER_def spin_lock_new_def)
qed

end
