(* ===== verification/Unit_Volume.thy ===== *)
theory Unit_Volume
  imports Tree_Facts Write_Boot
begin

text \<open>
  The volume the unit tests of \<^verbatim>\<open>fat32/src/lib.rs\<close> build: the one of the kernel's demonstration with other
  end-of-chain marks. It stores the same tree.
\<close>

subsection \<open>The volume of the unit tests\<close>

definition unit_image :: "u8 list" where
  "unit_image = patch_all
     [(11, [0x00]), (12, [0x02]), (13, [0x01]), (14, [0x01]), (15, [0x00]), (16, [0x01]),
      (36, [0x01]), (37, [0x00]), (38, [0x00]), (39, [0x00]),
      (44, [0x02]), (45, [0x00]), (46, [0x00]), (47, [0x00]),
      (512 + 2 * 4, u32_to_le FAT32_EOC),
      (512 + 3 * 4, u32_to_le FAT32_EOC),
      (512 + 4 * 4, u32_to_le FAT32_EOC),
      (2 * 512, hello_entry),
      (2 * 512 + 32, subdir_entry),
      (2 * 512 + 64, [0x00]),
      (3 * 512, bytes ''HELLO''),
      (4 * 512, [0x00])]
     (replicate (512 * 10) 0)"

text \<open>It is the volume of the kernel's demonstration but for the end-of-chain marks.\<close>

definition unit_writes :: "(nat \<times> u8 list) list" where
  "unit_writes = map (\<lambda>(a, ys). (a, if a \<in> {520, 524, 528} then [0xFF, 0xFF, 0xFF, 0x0F] else ys)) image_writes"

lemma unit_mark: "u32_to_le FAT32_EOC = [0xFF, 0xFF, 0xFF, 0x0F]"
  by (simp add: FAT32_EOC_def u32_to_le_eval)

lemma unit_image_eq: "unit_image = patch_all unit_writes (replicate 5120 0)"
  by (simp add: unit_image_def unit_writes_def image_writes_def hello_entry_eq subdir_entry_eq image_bytes
      unit_mark del: patch_all.simps)

lemma unit_in_bounds: "list_all (\<lambda>p. fst p + length (snd p) \<le> 5120) unit_writes"
  by (simp add: unit_writes_def image_writes_def)

lemma length_unit_image [simp]: "length unit_image = 5120"
  using length_patch_all [of "replicate 5120 0" unit_writes] unit_in_bounds by (simp add: unit_image_eq)

lemma window_unit:
  "list_all (\<lambda>p. clear_of b n p \<or> within b n p) unit_writes \<Longrightarrow> b + n \<le> 5120 \<Longrightarrow>
     window unit_image b n = patch_all (in_window b n unit_writes) (replicate n 0)"
  using window_patch_all [of "replicate 5120 0" unit_writes b n] unit_in_bounds
  by (simp add: unit_image_eq window_replicate)

lemma unit_in_window:
  "in_window 0 520 unit_writes = in_window 0 520 image_writes"
  "in_window 532 4588 unit_writes = in_window 532 4588 image_writes"
  by (simp_all add: unit_writes_def image_eval)

lemma unit_parts: "window unit_image 0 520 = window build_test_image 0 520"
  "window unit_image 532 4588 = window build_test_image 532 4588"
proof -
  have "list_all (\<lambda>p. clear_of 0 520 p \<or> within 0 520 p) unit_writes"
    "list_all (\<lambda>p. clear_of 532 4588 p \<or> within 532 4588 p) unit_writes"
    "list_all (\<lambda>p. clear_of 0 520 p \<or> within 0 520 p) image_writes"
    "list_all (\<lambda>p. clear_of 532 4588 p \<or> within 532 4588 p) image_writes"
    by (simp_all add: unit_writes_def image_eval)
  then show "window unit_image 0 520 = window build_test_image 0 520"
    "window unit_image 532 4588 = window build_test_image 532 4588"
    by (simp_all add: window_unit window_image unit_in_window)
qed

lemma unit_data: "532 \<le> a \<Longrightarrow> a + n \<le> 5120 \<Longrightarrow> window unit_image a n = window build_test_image a n"
  using window_window [of "a - 532" n 4588 unit_image 532] window_window [of "a - 532" n 4588 build_test_image 532]
    unit_parts(2) by simp

definition unit_volume :: fat32_mut where
  "unit_volume = test_volume\<lparr>m_disk := unit_image\<rparr>"

lemma unit_volume_geometry [simp]:
  "m_disk unit_volume = unit_image" "m_num_fats unit_volume = 1"
  "m_root_cluster unit_volume = 2" "m_cluster_size unit_volume = 512"
  "m_fat_start_byte unit_volume = 512" "fat_bytes_len unit_volume = 512"
  "m_data_start_byte unit_volume = 1024"
  by (simp_all add: unit_volume_def test_volume_def m_cluster_size_def m_fat_start_byte_def fat_bytes_len_def
      m_data_start_byte_def m_bytes_per_sector_usize_def)

lemma unit_shape: "same_shape test_volume unit_volume"
  by (simp add: same_shape_def unit_volume_def)

lemma mount_unit_image: "fat32_mut_new unit_image = Ok unit_volume"
proof -
  have "window unit_image 0 512 = window build_test_image 0 512"
    using window_window [of 0 512 520 unit_image 0] window_window [of 0 512 520 build_test_image 0] unit_parts(1) by simp
  then have "parse_bpb unit_image = parse_bpb build_test_image"
    by (intro parse_bpb_cong) (simp_all add: window_def)
  with mount_test_image show ?thesis
    by (cases "parse_bpb build_test_image") (auto simp: fat32_mut_new_def unit_volume_def test_volume_def)
qed

lemma unit_volume_max_cluster: "max_cluster_number pf unit_volume = Ok 9"
  using max_cluster_number_same_shape [OF unit_shape] by simp

lemma unit_volume_entries:
  "fat_val unit_volume 2 = 0x0FFFFFFF" "fat_val unit_volume 3 = 0x0FFFFFFF" "fat_val unit_volume 4 = 0x0FFFFFFF"
  "fat_val unit_volume 5 = 0" "fat_val unit_volume 6 = 0" "fat_val unit_volume 7 = 0" "fat_val unit_volume 8 = 0"
  "fat_val unit_volume 9 = 0"
proof -
  have four: "replicate 4 (0 :: u8) = [0, 0, 0, 0]" by (simp add: numeral_eq_Suc)
  note eval = unit_writes_def image_eval
  show "fat_val unit_volume 2 = 0x0FFFFFFF" "fat_val unit_volume 3 = 0x0FFFFFFF" "fat_val unit_volume 4 = 0x0FFFFFFF"
    "fat_val unit_volume 5 = 0" "fat_val unit_volume 6 = 0" "fat_val unit_volume 7 = 0" "fat_val unit_volume 8 = 0"
    "fat_val unit_volume 9 = 0"
    by (simp_all add: fat_val_def copy_val_def cell_def window_unit eval patch_def four u32_from_le_def)
qed

lemma chain_at_unit_volume:
  "chain_at unit_volume 2 [2]" "chain_at unit_volume 3 [3]" "chain_at unit_volume 4 [4]"
  by (simp_all add: chain_at_def unit_volume_entries has_entry_def in_data_def)

lemma free_clusters_unit_volume: "free_clusters unit_volume 9 = [5, 6, 7, 8, 9]"
  by (simp add: free_clusters_def clusters_upto_9 unit_volume_entries)

text \<open>The data area is the same, so is what it holds.\<close>

lemma unit_cluster_bytes: "c \<in> {2, 3, 4} \<Longrightarrow> cluster_bytes (as_read unit_volume) c = cluster_bytes (as_read test_volume) c"
  by (auto simp: cluster_bytes_window cluster_at_def unit_data)

lemma unit_dir_slots:
  "dir_slots (as_read unit_volume) [2] = dir_slots (as_read test_volume) [2]"
  "dir_slots (as_read unit_volume) [4] = dir_slots (as_read test_volume) [4]"
  by (simp_all add: dir_slots_def unit_cluster_bytes)

lemma volume_tree_unit: "volume_tree unit_volume test_layout"
  and tree_unit: "tree_of unit_volume test_layout = tree_of test_volume test_layout"
proof -
  have dirs: "canonical_dir unit_volume [2] = canonical_dir test_volume [2]" "canonical_dir unit_volume [4] = canonical_dir test_volume [4]"
    by (simp_all add: canonical_dir_def unit_dir_slots)
  have st: "stored test_volume test_layout" "\<forall>c. count (owned test_layout) c \<le> 1" using volume_tree_test by (simp_all add: volume_tree_def)
  have root: "root_entry unit_volume = root_entry test_volume" by (rule same_shape_root [OF unit_shape])
  have "stored unit_volume test_layout"
    using st(1) chain_at_unit_volume unfolding test_layout_def
    by (simp add: dirs unit_dir_slots old_chain_def root_entry_def)
  moreover have "mounted unit_volume" using fat32_mut_new_mounted [OF mount_unit_image] by simp
  ultimately show "volume_tree unit_volume test_layout"
    using st(2) by (simp add: volume_tree_def root) (simp add: test_layout_def)
  show "tree_of unit_volume test_layout = tree_of test_volume test_layout"
    by (simp add: test_layout_def chain_bytes_def unit_cluster_bytes)
qed

lemma mount_unit_read: "fat32_new unit_image = Ok (as_read unit_volume)"
  using boot_same_mount(2) [of unit_volume unit_volume] mount_unit_image by simp

lemma list_unit_root: "list_root (as_read unit_volume) = list_root (as_read test_volume)"
  using list_dir_chain [OF chain_at_unit_volume(1)] list_dir_chain [OF chain_at_test_volume(1)]
  by (simp add: list_root_def unit_dir_slots)

end
