(* ===== verification/Driver_Tests.thy ===== *)
theory Driver_Tests
  imports Unit_Volume
begin

text \<open>
  The tests of the driver, run on the model: the unit tests of
  \<^verbatim>\<open>fat32/src/lib.rs\<close>. A test is a result, \<open>Ok ()\<close> when it passes; a failed
  assertion and an \<^verbatim>\<open>unwrap\<close> of nothing are \<open>Panic\<close>.
\<close>

subsection \<open>Assertions\<close>

definition check :: "bool \<Rightarrow> unit fres" where
  "check b = (if b then Ok () else Panic)"

definition expect :: "'a fres \<Rightarrow> 'a fres" where
  "expect r = (case r of Ok x \<Rightarrow> Ok x | _ \<Rightarrow> Panic)"

definition expect_err :: "'a fres \<Rightarrow> fat_error fres" where
  "expect_err r = (case r of Err e \<Rightarrow> Ok e | _ \<Rightarrow> Panic)"

definition expect_some :: "'a option \<Rightarrow> 'a fres" where
  "expect_some x = (case x of Some y \<Rightarrow> Ok y | None \<Rightarrow> Panic)"

lemma tested [simp]: "check True = Ok ()" "expect (Ok x) = Ok x" "expect_err (Err e) = Ok e" "expect_some (Some y) = Ok y"
  by (simp_all add: check_def expect_def expect_err_def expect_some_def)

subsection \<open>The unit tests of the driver\<close>

text \<open>A raw entry of the table; the slice is checked.\<close>

definition fat_entry_raw :: "u8 list \<Rightarrow> u32 \<Rightarrow> u32 fres" where
  "fat_entry_raw dsk cluster =
     (let fat_start = 512;
          off = fat_start + unat cluster * 4
      in if off + 4 \<le> length dsk then Ok (u32_from_le (window dsk off 4) AND 0x0FFFFFFF) else Panic)"

text \<open>The block that mounts the disk for writing and writes one file; what is left of the disk is the second result.\<close>

definition write_block :: "profile \<Rightarrow> rstr \<Rightarrow> u8 list \<Rightarrow> u8 list \<Rightarrow> (unit fres \<times> u8 list) fres" where
  "write_block pf path content dsk = rbind (expect (fat32_mut_new dsk)) (\<lambda>rw.
     case write_file_by_path pf path content rw of (res, rw') \<Rightarrow> Ok (res, m_disk rw'))"

definition new_on_too_small_buffer_fails :: "unit fres" where
  "new_on_too_small_buffer_fails =
     (let tiny = replicate 128 0 in
      rbind (expect_err (fat32_new tiny)) (\<lambda>err. check (err = BufferTooSmall)))"

definition list_root_and_read_file :: "unit fres" where
  "list_root_and_read_file =
     (let dsk = unit_image in
      rbind (expect (fat32_new dsk)) (\<lambda>fs.
      rbind (expect (list_root fs)) (\<lambda>root.
      rbind (check (length root = 2)) (\<lambda>_.
      rbind (expect_some (find (\<lambda>e. e_name e = bytes ''HELLO.TXT'') root)) (\<lambda>hello.
      rbind (expect_some (find (\<lambda>e. e_name e = bytes ''DIR'') root)) (\<lambda>dir.
      rbind (check (is_file hello)) (\<lambda>_.
      rbind (check (is_dir dir)) (\<lambda>_.
      rbind (expect (read_file_by_path fs (bytes ''/HELLO.TXT''))) (\<lambda>found.
      rbind (expect_some found) (\<lambda>content.
        check (content = bytes ''HELLO'')))))))))))"

definition list_dir_on_file_returns_not_a_directory :: "unit fres" where
  "list_dir_on_file_returns_not_a_directory =
     (let dsk = unit_image in
      rbind (expect (fat32_new dsk)) (\<lambda>fs.
      rbind (expect_err (list_dir_path fs (bytes ''/HELLO.TXT''))) (\<lambda>err.
        check (err = NotADirectory))))"

definition read_file_on_directory_via_open_path_returns_not_a_file :: "unit fres" where
  "read_file_on_directory_via_open_path_returns_not_a_file =
     (let dsk = unit_image in
      rbind (expect (fat32_new dsk)) (\<lambda>fs.
      rbind (expect (open_path fs (bytes ''/DIR''))) (\<lambda>found.
      rbind (expect_some found) (\<lambda>entry.
      rbind (check (is_dir entry)) (\<lambda>_.
      rbind (expect_err (read_file fs entry)) (\<lambda>err.
        check (err = NotAFile)))))))"

definition open_path_is_case_insensitive_for_short_names :: "unit fres" where
  "open_path_is_case_insensitive_for_short_names =
     (let dsk = unit_image in
      rbind (expect (fat32_new dsk)) (\<lambda>fs.
      rbind (expect (open_path fs (bytes ''/hello.txt''))) (\<lambda>found.
      rbind (expect_some found) (\<lambda>entry.
      rbind (check (e_name entry = bytes ''HELLO.TXT'')) (\<lambda>_.
        check (is_file entry))))))"

definition write_create_new_file_and_read_back :: "profile \<Rightarrow> unit fres" where
  "write_create_new_file_and_read_back pf =
     (let dsk = unit_image in
      rbind (write_block pf (bytes ''/NEW.TXT'') (bytes ''ABC'') dsk) (\<lambda>(res, dsk).
      rbind (expect res) (\<lambda>_.
      rbind (expect (fat32_new dsk)) (\<lambda>ro.
      rbind (expect (read_file_by_path ro (bytes ''/NEW.TXT''))) (\<lambda>found.
      rbind (expect_some found) (\<lambda>content.
        check (content = bytes ''ABC'')))))))"

definition write_overwrite_existing_file :: "profile \<Rightarrow> unit fres" where
  "write_overwrite_existing_file pf =
     (let dsk = unit_image in
      rbind (write_block pf (bytes ''/HELLO.TXT'') (bytes ''HELLO WORLD'') dsk) (\<lambda>(res, dsk).
      rbind (expect res) (\<lambda>_.
      rbind (expect (fat32_new dsk)) (\<lambda>ro.
      rbind (expect (read_file_by_path ro (bytes ''/HELLO.TXT''))) (\<lambda>found.
      rbind (expect_some found) (\<lambda>content.
        check (content = bytes ''HELLO WORLD'')))))))"

definition write_rejects_invalid_8_3_name :: "profile \<Rightarrow> unit fres" where
  "write_rejects_invalid_8_3_name pf =
     (let dsk = unit_image in
      rbind (write_block pf (bytes ''/TOO_LONG_NAME.TXT'') (bytes ''x'') dsk) (\<lambda>(res, dsk).
      rbind (expect_err res) (\<lambda>err. check (err = InvalidName))))"

definition write_fails_when_parent_directory_missing :: "profile \<Rightarrow> unit fres" where
  "write_fails_when_parent_directory_missing pf =
     (let dsk = unit_image in
      rbind (write_block pf (bytes ''/NOPE/FILE.TXT'') (bytes ''x'') dsk) (\<lambda>(res, dsk).
      rbind (expect_err res) (\<lambda>err. check (err = PathNotFound))))"

definition overwrite_frees_old_clusters_in_fat :: "profile \<Rightarrow> unit fres" where
  "overwrite_frees_old_clusters_in_fat pf =
     (let dsk = unit_image;
          big = replicate 600 0x41
      in
      rbind (expect (fat32_mut_new dsk)) (\<lambda>rw.
      case write_file_by_path pf (bytes ''/BIG.TXT'') big rw of (res, rw) \<Rightarrow>
      rbind (expect res) (\<lambda>_.
      let ro = as_read rw in
      rbind (expect (open_path ro (bytes ''/BIG.TXT''))) (\<lambda>found.
      rbind (expect_some found) (\<lambda>e.
      rbind (check (unat (e_size e) = length big)) (\<lambda>_.
      rbind (check (2 \<le> e_first_cluster e)) (\<lambda>_.
      let dsk = m_disk rw;
          c1 = e_first_cluster e
      in
      rbind (fat_entry_raw dsk c1) (\<lambda>c2.
      rbind (check (2 \<le> c2)) (\<lambda>_.
      rbind (fat_entry_raw dsk c2) (\<lambda>end_mark.
      rbind (check (0x0FFFFFF8 \<le> end_mark)) (\<lambda>_.
      rbind (write_block pf (bytes ''/BIG.TXT'') [] dsk) (\<lambda>(res, dsk).
      rbind (expect res) (\<lambda>_.
      rbind (fat_entry_raw dsk c1) (\<lambda>v1.
      rbind (check (v1 = 0)) (\<lambda>_.
      rbind (fat_entry_raw dsk c2) (\<lambda>v2.
      rbind (check (v2 = 0)) (\<lambda>_.
      rbind (expect (fat32_new dsk)) (\<lambda>ro.
      rbind (expect (open_path ro (bytes ''/BIG.TXT''))) (\<lambda>found.
      rbind (expect_some found) (\<lambda>e.
      rbind (check (e_size e = 0)) (\<lambda>_.
        check (e_first_cluster e = 0))))))))))))))))))))))"

text \<open>The tests, in the order of the file.\<close>

definition driver_tests :: "profile \<Rightarrow> unit fres list" where
  "driver_tests pf =
     [new_on_too_small_buffer_fails, list_root_and_read_file, list_dir_on_file_returns_not_a_directory,
      read_file_on_directory_via_open_path_returns_not_a_file, open_path_is_case_insensitive_for_short_names,
      write_create_new_file_and_read_back pf, write_overwrite_existing_file pf, write_rejects_invalid_8_3_name pf,
      write_fails_when_parent_directory_missing pf, overwrite_frees_old_clusters_in_fat pf]"

subsection \<open>The tests that only read\<close>

lemma small_buffer_run: "new_on_too_small_buffer_fails = Ok ()"
  by (simp add: new_on_too_small_buffer_fails_def fat32_new_def parse_bpb_def)

text \<open>A path to a name in the root.\<close>

lemma unit_paths:
  "starts_with slash (bytes ''/HELLO.TXT'')" "map normalize_name (components (bytes ''/HELLO.TXT'')) = [bytes ''HELLO.TXT'']"
  "\<forall>c\<in>set (components (bytes ''/HELLO.TXT'')). \<not> special c" "components (bytes ''/HELLO.TXT'') \<noteq> []"
  "starts_with slash (bytes ''/DIR'')" "map normalize_name (components (bytes ''/DIR'')) = [bytes ''DIR'']"
  "\<forall>c\<in>set (components (bytes ''/DIR'')). \<not> special c" "components (bytes ''/DIR'') \<noteq> []"
  "starts_with slash (bytes ''/BIG.TXT'')" "map normalize_name (components (bytes ''/BIG.TXT'')) = [bytes ''BIG.TXT'']"
  "\<forall>c\<in>set (components (bytes ''/BIG.TXT'')). \<not> special c" "components (bytes ''/BIG.TXT'') \<noteq> []"
  "starts_with slash (bytes ''/NEW.TXT'')" "\<forall>c\<in>set (components (bytes ''/NEW.TXT'')). \<not> special c"
  "components (bytes ''/NEW.TXT'') \<noteq> []"
  by code_simp+

text \<open>What the tree holds at a path is what the driver reads there.\<close>

lemma read_file_tree:
  assumes "volume_tree m L" "starts_with slash path" "\<forall>c\<in>set (components path). \<not> special c"
    and "lookup (tree_of m L) (map normalize_name (components path)) = Some (File content)"
  shows "read_file_by_path (as_read m) path = Ok (Some content)"
proof -
  obtain K where K: "sub L (map normalize_name (components path)) = Some K" "tree_of m K = File content"
    using assms(4) by (auto simp: lookup_sub)
  then obtain en cs where "K = LFile en cs" by (cases K) auto
  then show ?thesis using read_sub [OF assms(1-3) sub_not_through [OF K(1)]] K by simp
qed

lemma open_tree:
  assumes "volume_tree m L" "starts_with slash path" "\<forall>c\<in>set (components path). \<not> special c"
    and "sub L (map normalize_name (components path)) = Some K" "components path \<noteq> []"
  shows "open_path (as_read m) path = Ok (Some (entry_of K))"
  using volume_open [OF assms(1-3) sub_not_through [OF assms(4)]] assms(4,5) by simp

lemmas unit_tree = tree_unit [unfolded tree_test]

text \<open>The entries of the two names.\<close>

definition hello :: dir_entry where
  "hello = \<lparr>e_name = bytes ''HELLO.TXT'', e_attrs = from_byte 0x20, e_first_cluster = 3, e_size = 5\<rparr>"

definition subdir :: dir_entry where
  "subdir = \<lparr>e_name = bytes ''DIR'', e_attrs = from_byte 0x10, e_first_cluster = 4, e_size = 0\<rparr>"

lemma entry_kinds: "is_file hello" "\<not> is_dir hello" "is_dir subdir" "\<not> is_file subdir" "e_name hello = bytes ''HELLO.TXT''"
  by (simp_all add: hello_def subdir_def is_file_def is_dir_def from_byte_def)

lemma sub_unit:
  "sub test_layout [bytes ''HELLO.TXT''] = Some (LFile hello [3])" "sub test_layout [bytes ''DIR''] = Some (LDir subdir [4] [])"
  using test_names by (simp_all add: test_layout_def hello_def subdir_def key_def)

lemma unit_opens:
  "open_path (as_read unit_volume) (bytes ''/HELLO.TXT'') = Ok (Some hello)"
  "open_path (as_read unit_volume) (bytes ''/hello.txt'') = Ok (Some hello)"
  "open_path (as_read unit_volume) (bytes ''/DIR'') = Ok (Some subdir)"
proof -
  have "components (bytes ''/hello.txt'') \<noteq> []" using hello_path(2) by auto
  then show "open_path (as_read unit_volume) (bytes ''/HELLO.TXT'') = Ok (Some hello)"
    "open_path (as_read unit_volume) (bytes ''/hello.txt'') = Ok (Some hello)"
    "open_path (as_read unit_volume) (bytes ''/DIR'') = Ok (Some subdir)"
    using open_tree [OF volume_tree_unit unit_paths(1,3) _ unit_paths(4), unfolded unit_paths(2), OF sub_unit(1)]
      open_tree [OF volume_tree_unit hello_path(1,3), unfolded hello_path(2), OF sub_unit(1)]
      open_tree [OF volume_tree_unit unit_paths(5,7) _ unit_paths(8), unfolded unit_paths(6), OF sub_unit(2)]
    by simp_all
qed

lemma list_root_run: "list_root_and_read_file = Ok ()"
proof -
  have "read_file_by_path (as_read unit_volume) (bytes ''/HELLO.TXT'') = Ok (Some (bytes ''HELLO''))"
    by (rule read_file_tree [OF volume_tree_unit unit_paths(1,3)]) (simp add: unit_paths(2) unit_tree test_names(5))
  moreover have "list_root (as_read unit_volume) = Ok [hello, subdir]"
    using list_test_root unfolding list_unit_root by (simp add: list_root_def hello_def subdir_def)
  moreover have "e_name subdir = bytes ''DIR''" by (simp add: subdir_def)
  ultimately show ?thesis
    using test_names(5) entry_kinds by (simp add: list_root_and_read_file_def mount_unit_read)
qed

lemma read_only_runs:
  "list_dir_on_file_returns_not_a_directory = Ok ()"
  "read_file_on_directory_via_open_path_returns_not_a_file = Ok ()"
  "open_path_is_case_insensitive_for_short_names = Ok ()"
proof -
  have "bytes ''/HELLO.TXT'' \<noteq> [slash]" by code_simp
  then have "list_dir_path (as_read unit_volume) (bytes ''/HELLO.TXT'') = Err NotADirectory"
    using unit_opens(1) entry_kinds(2) by (simp add: list_dir_path_def)
  then show "list_dir_on_file_returns_not_a_directory = Ok ()"
    by (simp add: list_dir_on_file_returns_not_a_directory_def mount_unit_read)
  have "read_file (as_read unit_volume) subdir = Err NotAFile"
    using entry_kinds(4) by (simp add: read_file_def)
  then show "read_file_on_directory_via_open_path_returns_not_a_file = Ok ()"
    using unit_opens(3) entry_kinds(3) by (simp add: read_file_on_directory_via_open_path_returns_not_a_file_def mount_unit_read)
  show "open_path_is_case_insensitive_for_short_names = Ok ()"
    using unit_opens(2) entry_kinds(1,5) by (simp add: open_path_is_case_insensitive_for_short_names_def mount_unit_read)
qed


subsection \<open>The tests that write\<close>

text \<open>Every file of the root with a plain name other than \<^verbatim>\<open>DIR\<close> can be written.\<close>

lemma unit_accepts:
  assumes "starts_with slash path" "split_parent path = Ok ([slash], nm)" "encode_short_name_8_3 nm = Ok (n, e)"
    "plain_name nm" "map normalize_name (components path) = [x]" "x \<noteq> bytes ''DIR''" "length content \<le> 2560"
  shows "accepts pf unit_volume test_layout path content"
proof (rule acceptsI [OF assms(1,2) _ _ assms(3,4) _ _ _ _ unit_volume_max_cluster])
  show "\<forall>c\<in>set (components [slash]). \<not> special c" "components [slash] = [] \<longrightarrow> [slash] = [slash]"
    by (simp_all add: root_path(2))
  show "sub test_layout (map normalize_name (components [slash])) = Some (LDir (root_entry test_volume) [2]
     [LFile hello [3], LDir subdir [4] []])"
    by (simp add: root_path(2) test_layout_def hello_def subdir_def)
  show "\<forall>f. lookup (tree_of unit_volume test_layout) (map normalize_name (components path)) \<noteq> Some (Dir f)"
    using assms(6) by (simp add: assms(5) unit_tree split: option.split)
  show "unlabelled unit_volume [2] n e" using unlabelled_test_root by (simp add: unlabelled_def unit_dir_slots)
  have "roomy_end unit_volume [2]" using roomy_test_root by (simp add: roomy_end_def unit_dir_slots)
  then show "lookup (tree_of unit_volume test_layout) (map normalize_name (components path)) = None \<longrightarrow>
      roomy_end unit_volume [2] \<and> (\<exists>s\<in>set (dir_slots (as_read unit_volume) [2]). \<not> used s)"
    by (simp add: unit_dir_slots test_root_slots used_def)
  show "(9 :: u32) < 0x0FFFFFF8" "length content < 2 ^ 32" using assms(7) by simp_all
  show "div_ceil (length content) (m_cluster_size unit_volume) \<le> min 4096 (length (free_clusters unit_volume 9))"
    using div_ceil_covers(2) [of 512 "length content"] assms(7) by (simp add: free_clusters_unit_volume)
qed

lemma test_paths:
  "split_parent (bytes ''/NEW.TXT'') = Ok ([slash], bytes ''NEW.TXT'')"
  "split_parent (bytes ''/HELLO.TXT'') = Ok ([slash], bytes ''HELLO.TXT'')"
  "split_parent (bytes ''/BIG.TXT'') = Ok ([slash], bytes ''BIG.TXT'')"
  "encode_short_name_8_3 (bytes ''BIG.TXT'') = Ok (bytes ''BIG     '', bytes ''TXT'')"
  "plain_name (bytes ''HELLO.TXT'')" "plain_name (bytes ''BIG.TXT'')" "bytes ''BIG.TXT'' \<noteq> bytes ''DIR''"
  by code_simp+

lemma unit_writes_accepted:
  "length content \<le> 2560 \<Longrightarrow> accepts pf unit_volume test_layout (bytes ''/NEW.TXT'') content"
  "length content \<le> 2560 \<Longrightarrow> accepts pf unit_volume test_layout (bytes ''/HELLO.TXT'') content"
  "length content \<le> 2560 \<Longrightarrow> accepts pf unit_volume test_layout (bytes ''/BIG.TXT'') content"
  using unit_accepts [OF new_name(4) test_paths(1) new_name(2,3) new_path(1) new_path(3)]
    unit_accepts [OF unit_paths(1) test_paths(2) hello_name(2) test_paths(5) unit_paths(2) test_names(5)]
    unit_accepts [OF unit_paths(9) test_paths(3,4,6) unit_paths(10) test_paths(7)]
  by blast+

text \<open>What the block leaves is a disk that mounts again.\<close>

lemma write_remount:
  assumes "fat32_mut_new (m_disk m) = Ok m" "512 \<le> m_fat_start_byte m" "write_file_by_path pf path content m = (r, m')"
  shows "write_block pf path content (m_disk m) = Ok (r, m_disk m')" "fat32_mut_new (m_disk m') = Ok m'"
    "fat32_new (m_disk m') = Ok (as_read m')" "m_fat_start_byte m' = m_fat_start_byte m"
proof -
  note boot = write_file_boot [OF assms(3)]
  show "write_block pf path content (m_disk m) = Ok (r, m_disk m')" using assms(1,3) by (simp add: write_block_def)
  show "fat32_mut_new (m_disk m') = Ok m'" "fat32_new (m_disk m') = Ok (as_read m')"
    by (rule boot_same_mount [OF assms(1) boot assms(2)])+
  show "m_fat_start_byte m' = m_fat_start_byte m" using boot by (simp add: boot_same_def same_shapeD)
qed

lemma unit_remount:
  assumes "write_file_by_path pf path content unit_volume = (r, m')"
  shows "write_block pf path content unit_image = Ok (r, m_disk m')" "fat32_mut_new (m_disk m') = Ok m'"
    "fat32_new (m_disk m') = Ok (as_read m')" "m_fat_start_byte m' = 512"
  using write_remount [of unit_volume pf path content r m'] assms mount_unit_image by simp_all

lemma unit_write_read:
  assumes "accepts pf unit_volume test_layout path content" "starts_with slash path" "\<forall>c\<in>set (components path). \<not> special c"
    and "map normalize_name (components path) = [x]"
  shows "\<exists>dsk m'. write_block pf path content unit_image = Ok (Ok (), dsk) \<and> fat32_new dsk = Ok (as_read m')
    \<and> read_file_by_path (as_read m') path = Ok (Some content)"
proof -
  obtain m' L' where w: "write_file_by_path pf path content unit_volume = (Ok (), m')" "volume_tree m' L'"
    "tree_of m' L' = update (tree_of unit_volume test_layout) (map normalize_name (components path)) (File content)"
    using accepted_write [OF volume_tree_unit assms(1)] by blast
  have "read_file_by_path (as_read m') path = Ok (Some content)"
    by (rule read_file_tree [OF w(2) assms(2,3)]) (simp add: w(3) assms(4) unit_tree)
  with unit_remount [OF w(1)] show ?thesis by blast
qed

lemma write_and_read_runs:
  "write_create_new_file_and_read_back pf = Ok ()" "write_overwrite_existing_file pf = Ok ()"
proof -
  obtain dsk m' where "write_block pf (bytes ''/NEW.TXT'') (bytes ''ABC'') unit_image = Ok (Ok (), dsk)"
    "fat32_new dsk = Ok (as_read m')" "read_file_by_path (as_read m') (bytes ''/NEW.TXT'') = Ok (Some (bytes ''ABC''))"
    using unit_write_read [OF unit_writes_accepted(1) unit_paths(13,14) new_path(1), of "bytes ''ABC''" pf] by auto
  then show "write_create_new_file_and_read_back pf = Ok ()" by (simp add: write_create_new_file_and_read_back_def)
  obtain dsk m' where "write_block pf (bytes ''/HELLO.TXT'') (bytes ''HELLO WORLD'') unit_image = Ok (Ok (), dsk)"
    "fat32_new dsk = Ok (as_read m')" "read_file_by_path (as_read m') (bytes ''/HELLO.TXT'') = Ok (Some (bytes ''HELLO WORLD''))"
    using unit_write_read [OF unit_writes_accepted(2) unit_paths(1,3,2), of "bytes ''HELLO WORLD''" pf] by auto
  then show "write_overwrite_existing_file pf = Ok ()" by (simp add: write_overwrite_existing_file_def)
qed

lemma refused_runs: "write_rejects_invalid_8_3_name pf = Ok ()" "write_fails_when_parent_directory_missing pf = Ok ()"
proof -
  have path: "starts_with slash (bytes ''/TOO_LONG_NAME.TXT'')" "bytes ''/TOO_LONG_NAME.TXT'' \<noteq> [slash]"
    "split_parent (bytes ''/TOO_LONG_NAME.TXT'') = Ok ([slash], bytes ''TOO_LONG_NAME.TXT'')"
    "encode_short_name_8_3 (bytes ''TOO_LONG_NAME.TXT'') = Err InvalidName"
    by code_simp+
  have "write_file_by_path pf (bytes ''/TOO_LONG_NAME.TXT'') (bytes ''x'') unit_volume = (Err InvalidName, unit_volume)"
    by (simp add: write_file_by_path_def path)
  from unit_remount(1) [OF this] show "write_rejects_invalid_8_3_name pf = Ok ()" by (simp add: write_rejects_invalid_8_3_name_def)
  have nope: "starts_with slash (bytes ''/NOPE/FILE.TXT'')" "bytes ''/NOPE/FILE.TXT'' \<noteq> [slash]"
    "split_parent (bytes ''/NOPE/FILE.TXT'') = Ok (bytes ''/NOPE'', bytes ''FILE.TXT'')"
    "encode_short_name_8_3 (bytes ''FILE.TXT'') = Ok (bytes ''FILE    '', bytes ''TXT'')"
    "starts_with slash (bytes ''/NOPE'')" "bytes ''/NOPE'' \<noteq> [slash]" "\<forall>c\<in>set (components (bytes ''/NOPE'')). \<not> special c"
    "map normalize_name (components (bytes ''/NOPE'')) = [bytes ''NOPE'']"
    "bytes ''NOPE'' \<noteq> bytes ''HELLO.TXT''" "bytes ''NOPE'' \<noteq> bytes ''DIR''"
    by code_simp+
  have "sub test_layout [bytes ''NOPE''] = None" using nope(9,10) test_names by (simp add: test_layout_def key_def)
  then have "open_path (as_read unit_volume) (bytes ''/NOPE'') = Ok None"
    using volume_open [OF volume_tree_unit nope(5,7)] nope(9,10) by (simp add: nope(8) unit_tree)
  then have "write_file_by_path pf (bytes ''/NOPE/FILE.TXT'') (bytes ''x'') unit_volume = (Err PathNotFound, unit_volume)"
    by (simp add: write_file_by_path_def nope parent_cluster_def)
  from unit_remount(1) [OF this] show "write_fails_when_parent_directory_missing pf = Ok ()"
    by (simp add: write_fails_when_parent_directory_missing_def)
qed

text \<open>The file that is found where a write of it succeeded.\<close>

lemma written_file:
  assumes "volume_tree m L" "new_file m0 L0 L p content" "lookup (tree_of m L) p = Some (File content)" "length content < 2 ^ 32"
  obtains x nks where "sub L p = Some (LFile x nks)" "old_chain m (Some x) nks" "unat (e_size x) = length content"
    "length nks = div_ceil (length content) (m_cluster_size m0)" "owned L + owned_at L0 p = owned L0 + mset nks"
    "content = [] \<longrightarrow> e_first_cluster x = 0"
proof -
  obtain x nks where x: "sub L p = Some (LFile x nks)"
    "length nks = div_ceil (length content) (m_cluster_size m0)" "owned L + owned_at L0 p = owned L0 + mset nks"
    "content = [] \<longrightarrow> e_first_cluster x = 0"
    using assms(2) by (auto simp: new_file_def)
  have st: "stored m (LFile x nks)" using assms(1) sub_stored [OF _ x(1)] by (simp add: volume_tree_def)
  have "take (unat (e_size x)) (chain_bytes (as_read m) nks) = content" using assms(3) x(1) by (simp add: lookup_sub)
  with length_stored_file [OF st] st that [OF x(1) _ _ x(2-4)] show thesis by simp
qed

lemma fat_entry_raw_val:
  assumes "has_entry m c" "m_fat_start_byte m = 512"
  shows "fat_entry_raw (m_disk m) c = Ok (fat_val m c)"
proof -
  have "cell m 0 c + 4 \<le> length (m_disk m)" using cell_in_fat(3) [of m c 0] assms(1) by (simp add: has_entry_def)
  with assms(2) show ?thesis by (simp add: fat_entry_raw_def fat_val_def copy_val_def cell_def Let_def mult.commute)
qed

lemma overwrite_run: "overwrite_frees_old_clusters_in_fat pf = Ok ()"
proof -
  let ?path = "bytes ''/BIG.TXT''" and ?p = "[bytes ''BIG.TXT'']" and ?big = "replicate 600 (0x41 :: u8)"
  have acc: "accepts pf unit_volume test_layout ?path ?big" by (rule unit_writes_accepted(3)) simp
  obtain m1 L1 where w1: "write_file_by_path pf ?path ?big unit_volume = (Ok (), m1)" "volume_tree m1 L1"
    "tree_of m1 L1 = update (tree_of unit_volume test_layout) ?p (File ?big)" "new_file unit_volume test_layout L1 ?p ?big"
    and again: "accepts pf m1 L1 ?path []"
    using accepted_write [OF volume_tree_unit acc] unit_volume_max_cluster by (auto simp: unit_paths(10) div_ceil_def)
  have "lookup (tree_of m1 L1) ?p = Some (File ?big)" by (simp add: w1(3) unit_tree)
  then obtain x nks where x: "sub L1 ?p = Some (LFile x nks)" "old_chain m1 (Some x) nks" "unat (e_size x) = 600" "length nks = 2"
    by (rule written_file [OF w1(2,4)]) (simp_all add: div_ceil_def)
  then obtain c1 c2 where nks: "nks = [c1, c2]" by (auto simp: length_Suc_conv numeral_2_eq_2)
  then have chain: "chain_at m1 (e_first_cluster x) [c1, c2]" using x(2) by (auto simp: old_chain_def split: if_splits)
  then have first: "e_first_cluster x = c1" "2 \<le> c1" "2 \<le> c2" "fat_val m1 c1 = c2" "0x0FFFFFF8 \<le> fat_val m1 c2"
    "has_entry m1 c1" "has_entry m1 c2"
    by (auto simp: chain_at_def in_data_def)
  have open1: "open_path (as_read m1) ?path = Ok (Some x)"
    using open_tree [OF w1(2) unit_paths(9,11) _ unit_paths(12), unfolded unit_paths(10), OF x(1)] by simp
  note boot1 = unit_remount [OF w1(1)]
  obtain m2 L2 where w2: "write_file_by_path pf ?path [] m1 = (Ok (), m2)" "volume_tree m2 L2"
    "tree_of m2 L2 = update (tree_of m1 L1) ?p (File [])" "unowned m2 L2 = unowned m1 L1" "new_file m1 L1 L2 ?p []"
    using accepted_write [OF w1(2) again] by (auto simp: unit_paths(10))
  have "lookup (tree_of m2 L2) ?p = Some (File [])" by (simp add: w2(3) w1(3) unit_tree)
  then obtain y ks where "sub L2 ?p = Some (LFile y ks)" "unat (e_size y) = 0" "length ks = div_ceil 0 (m_cluster_size m1)"
    "owned L2 + owned_at L1 ?p = owned L1 + mset ks" "e_first_cluster y = 0"
    by (rule written_file [OF w2(2,5)]) simp_all
  moreover from this(3) have "ks = []" by (simp add: div_ceil_def split: if_splits)
  ultimately have y: "sub L2 ?p = Some (LFile y [])" "unat (e_size y) = 0" "e_first_cluster y = 0"
    "owned L2 + owned_at L1 ?p = owned L1"
    by simp_all
  have open2: "open_path (as_read m2) ?path = Ok (Some y)"
    using open_tree [OF w2(2) unit_paths(9,11) _ unit_paths(12), unfolded unit_paths(10), OF y(1)] by simp
  have "512 \<le> m_fat_start_byte m1" using boot1(4) by simp
  note boot2 = write_remount [OF boot1(2) this w2(1)]
  have freed: "fat_entry_raw (m_disk m2) c = Ok 0" if "c \<in> {c1, c2}" for c
  proof -
    have has: "has_entry m2 c"
      using that first(6,7) write_file_boot [OF w2(1)] by (auto simp: boot_same_def has_entry_same_shape)
    have "count (owned L1) c = count (owned L2) c + count (mset nks) c"
      using arg_cong [OF y(4), of "\<lambda>M. count M c"] x(1) by (simp add: owned_at_def)
    moreover have "0 < count (mset nks) c" using that nks by auto
    moreover have "count (owned L1) c \<le> 1" using w1(2) by (simp add: volume_tree_def)
    ultimately have "count (owned L2) c = 0" "0 < count (owned L1) c" by linarith+
    then have "c \<notin># owned L2" "c \<in># owned L1" by (simp_all only: not_in_iff count_greater_zero_iff)
    then have "c \<notin> unowned m1 L1" by (simp add: unowned_def)
    then have "fat_val m2 c = 0" using has \<open>c \<notin># owned L2\<close> unfolding w2(4) [symmetric] by (simp add: unowned_def)
    with fat_entry_raw_val [OF has] boot1(4) boot2(4) show ?thesis by simp
  qed
  have "e_size y = 0" using y(2) by (simp add: unat_eq_0)
  then show ?thesis
    using mount_unit_image w1(1) open1 x(3) first fat_entry_raw_val [OF first(6) boot1(4)] fat_entry_raw_val [OF first(7) boot1(4)]
      boot2(1,3) freed open2 y(3)
    by (simp add: overwrite_frees_old_clusters_in_fat_def Let_def)
qed

text \<open>Every unit test of the driver passes, with overflow checks and without.\<close>

theorem driver_tests_pass: "driver_tests pf = replicate 10 (Ok ())"
  by (simp add: driver_tests_def small_buffer_run list_root_run read_only_runs write_and_read_runs refused_runs
      overwrite_run numeral_eq_Suc)

end
