(* ===== verification/Image_Test.thy ===== *)
theory Image_Test
  imports Driver_Tests Shell_Tree Utf8
begin

text \<open>
  The unit tests of \<^verbatim>\<open>fat32/src/main.rs\<close>, and the test of \<^verbatim>\<open>fat32/tests/disk_img.rs\<close> on any image file.
\<close>

subsection \<open>The unit tests of the tool\<close>

definition chemin_parent_depuis_dir :: "unit fres" where
  "chemin_parent_depuis_dir =
     (let r = resolve_path (bytes ''/DIR'') (bytes ''..'') in check (r = bytes ''/''))"

definition chemin_courant_point_file :: "unit fres" where
  "chemin_courant_point_file =
     (let r = resolve_path (bytes ''/DIR'') (bytes ''./FILE.TXT'') in check (r = bytes ''/DIR/FILE.TXT''))"

definition chemin_absolu_ignore_courant :: "unit fres" where
  "chemin_absolu_ignore_courant =
     (let r = resolve_path (bytes ''/DIR'') (bytes ''/AUTRE/XX'') in check (r = bytes ''/AUTRE/XX''))"

definition tool_tests :: "unit fres list" where
  "tool_tests = [chemin_parent_depuis_dir, chemin_courant_point_file, chemin_absolu_ignore_courant]"

lemma tool_tests_pass: "tool_tests = replicate 3 (Ok ())"
proof -
  have "chemin_parent_depuis_dir = Ok ()" "chemin_courant_point_file = Ok ()" "chemin_absolu_ignore_courant = Ok ()"
    by code_simp+
  then show ?thesis by (simp add: tool_tests_def numeral_eq_Suc)
qed

subsection \<open>The test on an image file\<close>

text \<open>The test is given whether the image file is there and what reading it gives.\<close>

definition read_real_disk_img_if_present :: "bool \<Rightarrow> u8 list option \<Rightarrow> unit fres" where
  "read_real_disk_img_if_present exists contents =
     (if \<not> exists then Ok ()
      else
        rbind (ok_or contents Other) (\<lambda>data.
        rbind (fat32_new data) (\<lambda>fs.
        rbind (list_root fs) (\<lambda>root.
        rbind (check (root \<noteq> [])) (\<lambda>_.
        case find (\<lambda>e. map ascii_upper (e_name e) = map ascii_upper (bytes ''HELLO.TXT'')) root of
          Some entry \<Rightarrow>
            rbind (check (is_file entry)) (\<lambda>_.
            rbind (read_file fs entry) (\<lambda>content.
            let text = from_utf8_lossy content in
            check (text \<noteq> [])))
        | None \<Rightarrow> Ok ())))))"

text \<open>The test on an image file passes, on an image that stores a tree with something in its root, exactly when
  \<^verbatim>\<open>HELLO.TXT\<close> is not in the root or is a file that is not empty; no error of the driver comes out of it.\<close>

theorem image_test_verdict:
  assumes "image_tree img m L" "tree_of m L = Dir f" "f \<noteq> Map.empty"
  shows "read_real_disk_img_if_present True (Some img) =
    (case f (bytes ''HELLO.TXT'') of None \<Rightarrow> Ok () | Some (Dir g) \<Rightarrow> Panic | Some (File c) \<Rightarrow> if c = [] then Panic else Ok ())"
proof -
  have img: "fat32_mut_new img = Ok m" "512 \<le> m_fat_start_byte m" "volume_tree m L"
    using assms(1) by (simp_all add: image_tree_def)
  have "m_disk m = img" using fat32_mut_new_mounted [OF img(1)] by simp
  then have mount: "fat32_new img = Ok (as_read m)"
    using boot_same_mount(2) [of m m] img(1,2) by simp
  obtain cs ks where L: "L = LDir (root_entry m) cs ks" and st: "stored m (LDir (root_entry m) cs ks)"
    using img(3) by (auto simp: volume_tree_def)
  let ?es = "listing (dir_slots (as_read m) cs)" and ?x = "bytes ''HELLO.TXT''"
  have root: "list_root (as_read m) = Ok ?es"
    using st list_dir_chain [of m "m_root_cluster m" cs] by (simp add: list_root_def root_entry_def)
  have f: "f = map_of (map (\<lambda>k. (key k, tree_of m k)) ks)" using assms(2) L by simp
  then have "ks \<noteq> []" using assms(3) by auto
  moreover have "filter ordinary ?es = map entry_of ks" using st by simp
  ultimately have "?es \<noteq> []" by auto
  moreover have x: "map ascii_upper ?x = ?x" "\<not> special ?x" using test_names by (simp_all add: normalize_name_def)
  moreover have "find (\<lambda>e. map ascii_upper (e_name e) = ?x) ?es = map_option entry_of (find (\<lambda>k. key k = ?x) ks)"
    using stored_find [OF st x(2)] by (simp add: normalize_name_def)
  moreover have "f ?x = map_option (tree_of m) (find (\<lambda>k. key k = ?x) ks)" by (simp add: f map_of_keys)
  moreover have "case find (\<lambda>k. key k = ?x) ks of None \<Rightarrow> True
      | Some (LFile en fs) \<Rightarrow> is_file en \<and> read_file (as_read m) en = Ok (take (unat (e_size en)) (chain_bytes (as_read m) fs))
      | Some (LDir en ds js) \<Rightarrow> \<not> is_file en"
  proof (cases "find (\<lambda>k. key k = ?x) ks")
    case (Some k)
    then have k: "stored m k" using st by (auto dest: find_in)
    show ?thesis
    proof (cases k)
      case (LFile en fs)
      with k stored_read [of m en fs] Some show ?thesis by (simp add: old_chain_def)
    next
      case (LDir en ds js)
      with k Some show ?thesis by (simp add: is_file_not_dir)
    qed
  qed simp
  ultimately show ?thesis
    by (auto simp: read_real_disk_img_if_present_def mount root ok_or_def check_def split: option.splits layout.splits)
qed

lemma image_test_verdict_witness: "read_real_disk_img_if_present True (Some build_test_image) = Ok ()"
proof -
  have "[bytes ''HELLO.TXT'' \<mapsto> File (bytes ''HELLO''), bytes ''DIR'' \<mapsto> Dir Map.empty] \<noteq> Map.empty" by simp
  moreover have "bytes ''HELLO'' \<noteq> []" by code_simp
  ultimately show ?thesis
    using image_test_verdict [OF image_tree_test tree_test] test_names(5) by simp
qed

end
