(* ===== verification/Slab_Capacity.thy ===== *)
theory Slab_Capacity
  imports Slab_Use
begin

text \<open>
  How much the slab allocator can hand out: the exact number of blocks of a class, from the
  invariant on.
\<close>

text \<open>\<open>n\<close> allocations in a row.\<close>

fun alloc_times :: "profile \<Rightarrow> nat \<Rightarrow> layout \<Rightarrow> (slab_allocator, u64 list) hprog" where
  "alloc_times pf 0 l = hret []"
| "alloc_times pf (Suc n) l = hbind (slab_alloc pf l) (\<lambda>p. hbind (alloc_times pf n l) (\<lambda>ps. hret (p # ps)))"

lemma alloc_times_capacity:
  "heap_ok s fls R \<Longrightarrow> class_index_for l = Some i \<Longrightarrow>
     \<exists>ps s'. alloc_times pf n l s = Some (Ok ps, s') \<and> length ps = n
       \<and> (\<forall>k<n. ps ! k \<noteq> 0 \<longleftrightarrow> k < capacity i fls s)"
proof (induction n arbitrary: s fls R)
  case (Suc n)
  obtain p s1 where p: "slab_alloc pf l s = Some (Ok p, s1)"
    and "if p = 0 then s1 = s \<and> caches s ! i = None \<and> unat (heap_end s) < unat (bump s) + 8192 \<and> capacity i fls s = 0
     else class_size i dvd unat p \<and> keeps_used R s s1 \<and> unat (bump s1) < unat (bump s) + 8192
       \<and> (\<exists>fls'. heap_ok s1 fls' ((unat p, class_size i) # R) \<and> capacity i fls s = Suc (capacity i fls' s1))"
    using slab_alloc_class [OF Suc.prems, of pf] by blast
  then have res: "if p = 0 then s1 = s \<and> capacity i fls s = 0
      else \<exists>fls1. heap_ok s1 fls1 ((unat p, class_size i) # R) \<and> capacity i fls s = Suc (capacity i fls1 s1)"
    by (simp split: if_splits)
  show ?case
  proof (cases "p = 0")
    case True
    with res obtain ps s' where "alloc_times pf n l s1 = Some (Ok ps, s')" "length ps = n" "\<forall>k<n. ps ! k = 0"
      and "capacity i fls s = 0"
      using Suc.IH [OF Suc.prems] by auto
    with p True show ?thesis by (auto simp: nth_Cons' intro!: exI [of _ "p # ps"])
  next
    case False
    with res obtain fls1 where fls1: "heap_ok s1 fls1 ((unat p, class_size i) # R)"
      "capacity i fls s = Suc (capacity i fls1 s1)" by auto
    from Suc.IH [OF this(1) Suc.prems(2)] obtain ps s' where
      "alloc_times pf n l s1 = Some (Ok ps, s')" "length ps = n" "\<forall>k<n. ps ! k \<noteq> 0 \<longleftrightarrow> k < capacity i fls1 s1"
      by blast
    with p False fls1(2) show ?thesis by (auto simp: nth_Cons' intro!: exI [of _ "p # ps"])
  qed
qed simp

text \<open>C23: how many blocks a heap is good for: every whole aligned page of it gives all the blocks of the class that
  fit, and not one allocation more succeeds. The first \<open>n\<close> requests of a class after \<^verbatim>\<open>init\<close> are
  served exactly as long as this number lasts.\<close>

theorem slab_capacity:
  assumes "0 < unat start" "unat start + unat sz + 4096 < 2 ^ 64"
    and "slab_init pf start sz (slab_new m) = (Ok (), s0)" "class_index_for l = Some i"
  shows "\<exists>ps s'. alloc_times pf n l s0 = Some (Ok ps, s') \<and> length ps = n
    \<and> (\<forall>k<n. ps ! k \<noteq> 0 \<longleftrightarrow>
         k < 4096 div class_size i * ((unat start + unat sz) div 4096 - (unat start + 4095) div 4096))"
proof -
  have s0: "heap_ok s0 (replicate 10 []) []" "limits s0 = (start, start + sz)" "bump s0 = start"
    using slab_init_heap [OF assms(1,2), of pf m] assms(3) by auto
  have "unat (start + sz) = unat start + unat sz" using assms(2) by (simp add: add64)
  then have "capacity i (replicate 10 []) s0
      = 4096 div class_size i * ((unat start + unat sz) div 4096 - (unat start + 4095) div 4096)"
    using s0(2,3) class_index_Some(1) [OF assms(4)] by (simp add: capacity_def pages_left_def limits_def)
  with alloc_times_capacity [OF s0(1) assms(4), of pf n] show ?thesis by simp
qed

lemma slab_capacity_witness:
  "\<exists>ps s'. alloc_times Debug 20 page small_heap = Some (Ok ps, s') \<and> ps ! 15 \<noteq> 0 \<and> ps ! 16 = 0"
proof -
  obtain ps s' where ps: "alloc_times Debug 20 page small_heap = Some (Ok ps, s')"
    "\<forall>k<20. ps ! k \<noteq> 0 \<longleftrightarrow> k < 16"
    using slab_capacity [OF _ _ small_heap(1) page(2), of 20] by (auto simp: class_size_def SIZE_CLASSES_def)
  from ps(2) [rule_format, of 15] ps(2) [rule_format, of 16] have "ps ! 15 \<noteq> 0" "ps ! 16 = 0" by simp_all
  with ps(1) show ?thesis by blast
qed

end
