(* ===== verification/Slab_Tests.thy ===== *)
theory Slab_Tests
  imports Slab_Capacity
begin

text \<open>
  The tests of \<^verbatim>\<open>slaballoc/src/lib.rs\<close>, run on the model. A test starts with a new allocator and a buffer at
  the address \<open>buf\<close>; nobody else takes its lock, so a call of \<^verbatim>\<open>LockedAlloc\<close> is the call of the
  allocator in it.
\<close>

subsection \<open>The tests\<close>

definition init_call :: "profile \<Rightarrow> u64 \<Rightarrow> u64 \<Rightarrow> (slab_allocator, unit) hprog" where
  "init_call pf start sz = (\<lambda>s. Some (slab_init pf start sz s))"

definition dealloc_call :: "u64 \<Rightarrow> layout \<Rightarrow> (slab_allocator, unit) hprog" where
  "dealloc_call p l = (\<lambda>s. Some (Ok (), slab_dealloc p l s))"

definition small_alloc_dealloc :: "profile \<Rightarrow> u64 \<Rightarrow> (slab_allocator, unit) hprog" where
  "small_alloc_dealloc pf buf =
     hbind (init_call pf buf 8192) (\<lambda>_.
     hbind (unwrap_some (from_size_align 32 8)) (\<lambda>l.
     hbind (slab_alloc pf l) (\<lambda>p.
     hbind (assert_that (p \<noteq> 0)) (\<lambda>_.
     hbind (dealloc_call p l) (\<lambda>_.
     hbind (slab_alloc pf l) (\<lambda>q.
       assert_that (q \<noteq> 0)))))))"

text \<open>The loops that fill the array of pointers, and the one that releases them.\<close>

fun fill_ptrs :: "profile \<Rightarrow> nat \<Rightarrow> layout \<Rightarrow> (slab_allocator, u64 list) hprog" where
  "fill_ptrs pf 0 l = hret []"
| "fill_ptrs pf (Suc n) l =
     hbind (slab_alloc pf l) (\<lambda>p.
     hbind (assert_that (p \<noteq> 0)) (\<lambda>_.
     hbind (fill_ptrs pf n l) (\<lambda>ps.
       hret (p # ps))))"

fun free_ptrs :: "u64 list \<Rightarrow> layout \<Rightarrow> (slab_allocator, unit) hprog" where
  "free_ptrs [] l = hret ()"
| "free_ptrs (p # ps) l = hbind (dealloc_call p l) (\<lambda>_. free_ptrs ps l)"

definition refill_many_objects :: "profile \<Rightarrow> u64 \<Rightarrow> (slab_allocator, unit) hprog" where
  "refill_many_objects pf buf =
     hbind (init_call pf buf (64 * 1024)) (\<lambda>_.
     hbind (unwrap_some (from_size_align 16 8)) (\<lambda>l.
     hbind (fill_ptrs pf 200 l) (\<lambda>ptrs.
     hbind (free_ptrs ptrs l) (\<lambda>_.
     hbind (fill_ptrs pf 200 l) (\<lambda>_.
       hret ())))))"

definition alignment_constraints_respected :: "profile \<Rightarrow> u64 \<Rightarrow> (slab_allocator, unit) hprog" where
  "alignment_constraints_respected pf buf =
     hbind (init_call pf buf (32 * 1024)) (\<lambda>_.
     hbind (unwrap_some (from_size_align 24 32)) (\<lambda>l.
     hbind (slab_alloc pf l) (\<lambda>p.
     hbind (assert_that (p \<noteq> 0)) (\<lambda>_.
       assert_that (p mod 32 = 0)))))"

definition boundary_classes_and_large :: "profile \<Rightarrow> u64 \<Rightarrow> (slab_allocator, unit) hprog" where
  "boundary_classes_and_large pf buf =
     hbind (init_call pf buf (128 * 1024)) (\<lambda>_.
     hbind (unwrap_some (from_size_align 4096 64)) (\<lambda>l_exact.
     hbind (slab_alloc pf l_exact) (\<lambda>p1.
     hbind (assert_that (p1 \<noteq> 0)) (\<lambda>_.
     hbind (unwrap_some (from_size_align 4097 8)) (\<lambda>l_over.
     hbind (slab_alloc pf l_over) (\<lambda>q1.
     hbind (slab_alloc pf l_over) (\<lambda>q2.
     hbind (assert_that (q1 \<noteq> 0)) (\<lambda>_.
     hbind (assert_that (q2 \<noteq> 0)) (\<lambda>_.
       assert_that (q1 \<noteq> q2))))))))))"

definition freelist_reuse_lifo :: "profile \<Rightarrow> u64 \<Rightarrow> (slab_allocator, unit) hprog" where
  "freelist_reuse_lifo pf buf =
     hbind (init_call pf buf (32 * 1024)) (\<lambda>_.
     hbind (unwrap_some (from_size_align 64 8)) (\<lambda>l.
     hbind (slab_alloc pf l) (\<lambda>a.
     hbind (slab_alloc pf l) (\<lambda>b.
     hbind (dealloc_call a l) (\<lambda>_.
     hbind (dealloc_call b l) (\<lambda>_.
     hbind (slab_alloc pf l) (\<lambda>c.
       assert_that (c = b))))))))"

text \<open>What the tests return, each on a new allocator; \<open>None\<close> when a test hangs.\<close>

definition slab_tests :: "profile \<Rightarrow> u64 \<Rightarrow> memory \<Rightarrow> (unit, unit) res option list" where
  "slab_tests pf buf m = map (\<lambda>t. map_option fst (t pf buf (slab_new m)))
     [small_alloc_dealloc, refill_many_objects, alignment_constraints_respected,
      boundary_classes_and_large, freelist_reuse_lifo]"

subsection \<open>Steps\<close>

lemma alloc_step:
  assumes "heap_ok s fls R" "class_index_for l = Some i" "0 < capacity i fls s"
  obtains p s' fls' where "slab_alloc pf l s = Some (Ok p, s')" "p \<noteq> 0" "class_size i dvd unat p"
    "heap_ok s' fls' ((unat p, class_size i) # R)" "capacity i fls s = Suc (capacity i fls' s')"
    "unat (bump s') < unat (bump s) + 8192" "limits s' = limits s"
proof -
  obtain p s' where p: "slab_alloc pf l s = Some (Ok p, s')"
    "if p = 0 then s' = s \<and> caches s ! i = None \<and> unat (heap_end s) < unat (bump s) + 8192 \<and> capacity i fls s = 0
     else class_size i dvd unat p \<and> keeps_used R s s' \<and> unat (bump s') < unat (bump s) + 8192
       \<and> (\<exists>fls'. heap_ok s' fls' ((unat p, class_size i) # R) \<and> capacity i fls s = Suc (capacity i fls' s'))"
    using slab_alloc_class [OF assms(1,2), of pf] by blast
  then have "p \<noteq> 0" using assms(3) by (auto split: if_splits)
  with p that show thesis by (auto simp: keeps_used_def)
qed

lemma dealloc_step:
  assumes "heap_ok s fls ((unat p, class_size i) # R)" "class_index_for l = Some i" "class_size i dvd unat p"
  shows "heap_ok (slab_dealloc p l s) (fls[i := p # fls ! i]) R"
    "capacity i (fls[i := p # fls ! i]) (slab_dealloc p l s) = Suc (capacity i fls s)"
    "bump (slab_dealloc p l s) = bump s" "limits (slab_dealloc p l s) = limits s"
proof -
  note i = class_index_Some(1) [OF assms(2)]
  have "bounds_ok s" "taken s (unat p, class_size i)" "length fls = 10"
    using assms(1) by (simp_all add: heap_ok_def lists_ok_def)
  then have p: "p \<noteq> 0" "initialized s" "i < length fls" using taken_bound i by (auto simp: bounds_ok_def)
  have de: "slab_dealloc p l s = push_block i p s" using p assms(2) by (simp add: slab_dealloc_def)
  show "heap_ok (slab_dealloc p l s) (fls[i := p # fls ! i]) R" unfolding de by (rule push_ok(1) [OF assms(1) i assms(3)])
  show "bump (slab_dealloc p l s) = bump s" "limits (slab_dealloc p l s) = limits s"
    unfolding de by (simp_all add: push_block_def limits_def)
  show "capacity i (fls[i := p # fls ! i]) (slab_dealloc p l s) = Suc (capacity i fls s)"
    unfolding de using p(3) by (simp add: capacity_def pages_left_def push_block_def)
qed

lemma init_step:
  assumes "0 < unat buf" "unat buf + unat sz + 4096 < 2 ^ 64" "8192 \<le> unat sz"
  obtains s where "init_call pf buf sz (slab_new m) = Some (Ok (), s)" "heap_ok s (replicate 10 []) []"
    "unat (heap_end s) = unat buf + unat sz" "bump s = buf" "unat sz div 4096 \<le> Suc (pages_left s)"
proof -
  obtain s where s: "slab_init pf buf sz (slab_new m) = (Ok (), s)" "heap_ok s (replicate 10 []) []"
    "limits s = (buf, buf + sz)" "bump s = buf"
    using slab_init_heap [OF assms(1,2), of pf m] by auto
  have e: "unat (heap_end s) = unat buf + unat sz" using s(3) assms(2) by (simp add: limits_def add64)
  have "unat sz div 4096 + unat buf div 4096 \<le> (unat buf + unat sz) div 4096"
    by (simp add: div_add1_eq [of "unat buf" "unat sz"])
  moreover have "(unat buf + 4095) div 4096 \<le> Suc (unat buf div 4096)" by simp
  ultimately have "unat sz div 4096 \<le> Suc (pages_left s)" by (simp add: pages_left_def e s(4))
  with that s(1,2,4) e show thesis by (simp add: init_call_def)
qed

lemma fill_step:
  assumes "class_index_for l = Some i"
  shows "heap_ok s fls R \<Longrightarrow> n \<le> capacity i fls s \<Longrightarrow>
    \<exists>ps s' fls'. fill_ptrs pf n l s = Some (Ok ps, s') \<and> (\<forall>p\<in>set ps. class_size i dvd unat p)
      \<and> heap_ok s' fls' (map (\<lambda>p. (unat p, class_size i)) ps @ R) \<and> capacity i fls s = n + capacity i fls' s'"
proof (induction n arbitrary: s fls R)
  case (Suc n)
  then have "0 < capacity i fls s" by simp
  then obtain p s1 fls1 where p: "slab_alloc pf l s = Some (Ok p, s1)" "p \<noteq> 0" "class_size i dvd unat p"
    "heap_ok s1 fls1 ((unat p, class_size i) # R)" "capacity i fls s = Suc (capacity i fls1 s1)"
    by (rule alloc_step [OF Suc.prems(1) assms, where pf = pf])
  then have "n \<le> capacity i fls1 s1" using Suc.prems(2) by simp
  from Suc.IH [OF p(4) this] obtain ps s' fls' where
    ps: "fill_ptrs pf n l s1 = Some (Ok ps, s')" "\<forall>p\<in>set ps. class_size i dvd unat p"
      "heap_ok s' fls' (map (\<lambda>p. (unat p, class_size i)) ps @ (unat p, class_size i) # R)"
      "capacity i fls1 s1 = n + capacity i fls' s'"
    by blast
  have "heap_ok s' fls' (map (\<lambda>p. (unat p, class_size i)) (p # ps) @ R)"
    by (rule iffD1 [OF heap_ok_perm ps(3)]) simp
  moreover have "fill_ptrs pf (Suc n) l s = Some (Ok (p # ps), s')" using p(1,2) ps(1) by simp
  ultimately show ?case using p(3,5) ps(2,4)
    by (intro exI [of _ "p # ps"] exI [of _ s'] exI [of _ fls'] conjI) simp_all
qed auto

lemma length_fill_ptrs: "fill_ptrs pf n l s = Some (Ok ps, s') \<Longrightarrow> length ps = n"
  by (induction n arbitrary: s ps s')
    (auto simp: hbind_def hret_def assert_that_def split: option.splits prod.splits res.splits if_splits)

lemma free_step:
  assumes "class_index_for l = Some i"
  shows "heap_ok s fls (map (\<lambda>p. (unat p, class_size i)) ps @ R) \<Longrightarrow> \<forall>p\<in>set ps. class_size i dvd unat p \<Longrightarrow>
    \<exists>s' fls'. free_ptrs ps l s = Some (Ok (), s') \<and> heap_ok s' fls' R
      \<and> capacity i fls' s' = length ps + capacity i fls s"
proof (induction ps arbitrary: s fls)
  case (Cons p ps)
  have ok: "heap_ok s fls ((unat p, class_size i) # map (\<lambda>p. (unat p, class_size i)) ps @ R)"
    "class_size i dvd unat p" using Cons.prems by simp_all
  note de = dealloc_step [OF ok(1) assms ok(2)]
  from Cons.IH [OF de(1)] Cons.prems(2) obtain s' fls' where
    "free_ptrs ps l (slab_dealloc p l s) = Some (Ok (), s')" "heap_ok s' fls' R"
    "capacity i fls' s' = length ps + Suc (capacity i fls s)"
    unfolding de(2) by auto
  then show ?case by (auto simp: dealloc_call_def)
qed auto

lemma head_step:
  assumes "heap_ok s fls R" "class_index_for l = Some i" "fls ! i = a # t"
  shows "\<exists>s'. slab_alloc pf l s = Some (Ok a, s')"
proof -
  note i = class_index_Some(1) [OF assms(2)]
  have "initialized s" "caches s ! i \<noteq> None"
    using assms(1) head_None [OF assms(1) i] assms(3) by (simp_all add: heap_ok_def bounds_ok_def)
  with pop_ok(1) [OF assms(1) i assms(3)] assms(2) show ?thesis by (auto simp: slab_alloc_def)
qed

text \<open>The layouts of the tests.\<close>

lemma test_layouts:
  "from_size_align 32 8 = Some \<lparr>l_size = 32, l_align = 8\<rparr>" "class_index_for \<lparr>l_size = 32, l_align = 8\<rparr> = Some 2"
  "from_size_align 16 8 = Some \<lparr>l_size = 16, l_align = 8\<rparr>" "class_index_for \<lparr>l_size = 16, l_align = 8\<rparr> = Some 1"
  "from_size_align 24 32 = Some \<lparr>l_size = 24, l_align = 32\<rparr>" "class_index_for \<lparr>l_size = 24, l_align = 32\<rparr> = Some 2"
  "from_size_align 4096 64 = Some \<lparr>l_size = 4096, l_align = 64\<rparr>" "class_index_for \<lparr>l_size = 4096, l_align = 64\<rparr> = Some 9"
  "from_size_align 4097 8 = Some \<lparr>l_size = 4097, l_align = 8\<rparr>" "class_index_for \<lparr>l_size = 4097, l_align = 8\<rparr> = None"
  "from_size_align 64 8 = Some \<lparr>l_size = 64, l_align = 8\<rparr>" "class_index_for \<lparr>l_size = 64, l_align = 8\<rparr> = Some 3"
  by (simp_all add: from_size_align_def valid_layout_def is_power_of_two_def class_index_for_def SIZE_CLASSES_def)

lemma start_capacity: "i < 10 \<Longrightarrow> capacity i (replicate 10 []) s = 4096 div class_size i * pages_left s"
  by (simp add: capacity_def)

lemma class_blocks: "4096 div class_size 1 = 256" "4096 div class_size 2 = 128" "4096 div class_size 3 = 64" "4096 div class_size 9 = 1"
  by (simp_all add: class_size_def SIZE_CLASSES_def)

subsection \<open>The tests pass\<close>

text \<open>A test passes when it returns \<open>Ok ()\<close> on a new allocator.\<close>

definition passes :: "(slab_allocator, unit) hprog \<Rightarrow> memory \<Rightarrow> bool" where
  "passes t m \<longleftrightarrow> map_option fst (t (slab_new m)) = Some (Ok ())"

lemma passesI: "t (slab_new m) = Some (Ok (), s) \<Longrightarrow> passes t m"
  by (simp add: passes_def)

lemma small_run:
  assumes "0 < unat buf" "unat buf + 0x20000 + 4096 < 2 ^ 64"
  shows "passes (small_alloc_dealloc pf buf) m"
proof -
  obtain s where s: "init_call pf buf 8192 (slab_new m) = Some (Ok (), s)" "heap_ok s (replicate 10 []) []"
    "unat (8192 :: u64) div 4096 \<le> Suc (pages_left s)"
    by (rule init_step [of buf 8192 pf m]) (use assms in simp_all)
  then have "0 < capacity 2 (replicate 10 []) s" by (simp add: start_capacity class_blocks)
  with s(2) test_layouts(2) obtain p s1 fls1 where p: "slab_alloc pf \<lparr>l_size = 32, l_align = 8\<rparr> s = Some (Ok p, s1)" "p \<noteq> 0"
    "class_size 2 dvd unat p" "heap_ok s1 fls1 [(unat p, class_size 2)]"
    by (rule alloc_step [where pf = pf])
  note de = dealloc_step [OF p(4) test_layouts(2) p(3)]
  have "length fls1 = 10" using p(4) by (simp add: heap_ok_def lists_ok_def)
  then have "(fls1[2 := p # fls1 ! 2]) ! 2 = p # fls1 ! 2" by simp
  from head_step [OF de(1) test_layouts(2) this, of pf] obtain s3 where
    "slab_alloc pf \<lparr>l_size = 32, l_align = 8\<rparr> (slab_dealloc p \<lparr>l_size = 32, l_align = 8\<rparr> s1) = Some (Ok p, s3)" ..
  with s(1) p(1,2) test_layouts(1) show ?thesis
    by (intro passesI [of _ m s3]) (simp add: small_alloc_dealloc_def dealloc_call_def)
qed

lemma refill_run:
  assumes "0 < unat buf" "unat buf + 0x20000 + 4096 < 2 ^ 64"
  shows "passes (refill_many_objects pf buf) m"
proof -
  let ?l = "\<lparr>l_size = 16, l_align = 8\<rparr> :: layout"
  obtain s where s: "init_call pf buf (64 * 1024) (slab_new m) = Some (Ok (), s)" "heap_ok s (replicate 10 []) []"
    "unat (64 * 1024 :: u64) div 4096 \<le> Suc (pages_left s)"
    by (rule init_step [of buf "64 * 1024" pf m]) (use assms in simp_all)
  then have "200 \<le> capacity 1 (replicate 10 []) s" using class_blocks(1) by (simp add: start_capacity)
  from fill_step [OF test_layouts(4) s(2) this, of pf] obtain ps s1 fls1 where
    ps: "fill_ptrs pf 200 ?l s = Some (Ok ps, s1)" "\<forall>p\<in>set ps. class_size 1 dvd unat p"
      "heap_ok s1 fls1 (map (\<lambda>p. (unat p, class_size 1)) ps @ [])"
      "capacity 1 (replicate 10 []) s = 200 + capacity 1 fls1 s1"
    by (elim exE conjE) (rule that)
  from free_step [OF test_layouts(4) ps(3,2)] obtain s2 fls2 where
    fr: "free_ptrs ps ?l s1 = Some (Ok (), s2)" "heap_ok s2 fls2 []" "capacity 1 fls2 s2 = length ps + capacity 1 fls1 s1"
    by (elim exE conjE) (rule that)
  have "200 \<le> capacity 1 fls2 s2" using fr(3) length_fill_ptrs [OF ps(1)] by simp
  from fill_step [OF test_layouts(4) fr(2) this, of pf] obtain qs s3 where "fill_ptrs pf 200 ?l s2 = Some (Ok qs, s3)"
    by (elim exE conjE) (rule that)
  with s(1) ps(1) fr(1) test_layouts(3) show ?thesis
    by (intro passesI [of _ m s3]) (simp add: refill_many_objects_def del: fill_ptrs.simps)
qed

lemma aligned_run:
  assumes "0 < unat buf" "unat buf + 0x20000 + 4096 < 2 ^ 64"
  shows "passes (alignment_constraints_respected pf buf) m"
proof -
  obtain s where s: "init_call pf buf (32 * 1024) (slab_new m) = Some (Ok (), s)" "heap_ok s (replicate 10 []) []"
    "unat (32 * 1024 :: u64) div 4096 \<le> Suc (pages_left s)"
    by (rule init_step [of buf "32 * 1024" pf m]) (use assms in simp_all)
  then have "0 < capacity 2 (replicate 10 []) s" by (simp add: start_capacity class_blocks)
  with s(2) test_layouts(6) obtain p s1 where p: "slab_alloc pf \<lparr>l_size = 24, l_align = 32\<rparr> s = Some (Ok p, s1)" "p \<noteq> 0"
    "class_size 2 dvd unat p"
    by (rule alloc_step [where pf = pf])
  have "unat (p mod 32) = 0" using p(3) by (simp add: class_size_def SIZE_CLASSES_def unat_mod)
  then have "p mod 32 = 0" by (simp only: unat_eq_0)
  with s(1) p(1,2) test_layouts(5) show ?thesis
    by (intro passesI [of _ m s1]) (simp add: alignment_constraints_respected_def)
qed

lemma lifo_run:
  assumes "0 < unat buf" "unat buf + 0x20000 + 4096 < 2 ^ 64"
  shows "passes (freelist_reuse_lifo pf buf) m"
proof -
  let ?l = "\<lparr>l_size = 64, l_align = 8\<rparr> :: layout"
  obtain s where s: "init_call pf buf (32 * 1024) (slab_new m) = Some (Ok (), s)" "heap_ok s (replicate 10 []) []"
    "unat (32 * 1024 :: u64) div 4096 \<le> Suc (pages_left s)"
    by (rule init_step [of buf "32 * 1024" pf m]) (use assms in simp_all)
  then have cap: "2 \<le> capacity 3 (replicate 10 []) s" by (simp add: start_capacity class_blocks)
  then have "0 < capacity 3 (replicate 10 []) s" by simp
  with s(2) test_layouts(12) obtain a s1 fls1 where a: "slab_alloc pf ?l s = Some (Ok a, s1)" "class_size 3 dvd unat a"
    "heap_ok s1 fls1 [(unat a, class_size 3)]" "capacity 3 (replicate 10 []) s = Suc (capacity 3 fls1 s1)"
    by (rule alloc_step [where pf = pf])
  then have "0 < capacity 3 fls1 s1" using cap by simp
  with a(3) test_layouts(12) obtain b s2 fls2 where b: "slab_alloc pf ?l s1 = Some (Ok b, s2)" "class_size 3 dvd unat b"
    "heap_ok s2 fls2 [(unat b, class_size 3), (unat a, class_size 3)]"
    by (rule alloc_step [where pf = pf])
  have "heap_ok s2 fls2 [(unat a, class_size 3), (unat b, class_size 3)]"
    by (rule iffD1 [OF heap_ok_perm b(3)]) simp
  note de_a = dealloc_step [OF this test_layouts(12) a(2)]
  note de_b = dealloc_step [OF de_a(1) test_layouts(12) b(2)]
  have "length fls2 = 10" using b(3) by (simp add: heap_ok_def lists_ok_def)
  then have "(fls2[3 := a # fls2 ! 3, 3 := b # fls2[3 := a # fls2 ! 3] ! 3]) ! 3 = b # a # fls2 ! 3" by simp
  from head_step [OF de_b(1) test_layouts(12) this, of pf] obtain s3 where
    "slab_alloc pf ?l (slab_dealloc b ?l (slab_dealloc a ?l s2)) = Some (Ok b, s3)" ..
  with s(1) a(1) b(1) test_layouts(11) show ?thesis
    by (intro passesI [of _ m s3]) (simp add: freelist_reuse_lifo_def dealloc_call_def)
qed

lemma big_step:
  assumes "heap_ok t fls R" "unat (bump t) + 4105 \<le> unat (heap_end t)"
  shows "\<exists>q s'. slab_alloc pf \<lparr>l_size = 4097, l_align = 8\<rparr> t = Some (Ok q, s') \<and> q \<noteq> 0 \<and> heap_ok s' fls ((unat q, 4097) # R)
      \<and> unat (bump s') < unat (bump t) + 4105 \<and> heap_end s' = heap_end t"
proof -
  let ?l = "\<lparr>l_size = 4097, l_align = 8\<rparr> :: layout"
  have "bounds_ok t" using assms(1) by (simp add: heap_ok_def)
  then have good: "slab_good (limits t) ?l"
    by (simp add: slab_good_def valid_layout_def is_power_of_two_def limits_def bounds_ok_def)
  have sizes: "unat (l_align ?l) = 8" "unat (l_size ?l) = 4097" by simp_all
  obtain q s' where q: "slab_alloc pf ?l t = Some (Ok q, s')"
    "if q = 0 then s' = t \<and> unat (heap_end t) < unat (bump t) + 8 + 4097
     else 8 dvd unat q \<and> keeps_used R t s' \<and> heap_ok s' fls ((unat q, 4097) # R)
       \<and> (\<forall>i<4097. mem s' (q + word_of_nat i) = 0) \<and> unat (bump s') < unat (bump t) + 8 + 4097"
    using slab_alloc_big [OF assms(1) test_layouts(10) good, of pf] unfolding sizes by blast
  have nz: "q \<noteq> 0"
  proof
    assume "q = 0"
    with q(2) have "unat (heap_end t) < unat (bump t) + 8 + 4097" by (simp only: if_True)
    with assms(2) show False by linarith
  qed
  with q(2) have "keeps_used R t s'" "heap_ok s' fls ((unat q, 4097) # R)" "unat (bump s') < unat (bump t) + 8 + 4097"
    by (simp_all only: if_False)
  with q(1) nz show ?thesis by (intro exI [of _ q] exI [of _ s']) (simp add: keeps_used_def limits_def)
qed

lemma boundary_run:
  assumes "0 < unat buf" "unat buf + 0x20000 + 4096 < 2 ^ 64"
  shows "passes (boundary_classes_and_large pf buf) m"
proof -
  let ?l = "\<lparr>l_size = 4097, l_align = 8\<rparr> :: layout"
  obtain s where s: "init_call pf buf (128 * 1024) (slab_new m) = Some (Ok (), s)" "heap_ok s (replicate 10 []) []"
    "unat (heap_end s) = unat buf + unat (128 * 1024 :: u64)" "bump s = buf"
    "unat (128 * 1024 :: u64) div 4096 \<le> Suc (pages_left s)"
    by (rule init_step [of buf "128 * 1024" pf m]) (use assms in simp_all)
  then have "0 < capacity 9 (replicate 10 []) s" by (simp add: start_capacity class_blocks)
  with s(2) test_layouts(8) obtain p s1 fls1 where p: "slab_alloc pf \<lparr>l_size = 4096, l_align = 64\<rparr> s = Some (Ok p, s1)" "p \<noteq> 0"
    "heap_ok s1 fls1 [(unat p, class_size 9)]" "unat (bump s1) < unat (bump s) + 8192" "limits s1 = limits s"
    by (rule alloc_step [where pf = pf])
  have ends: "unat (heap_end s1) = unat buf + 0x20000" using p(5) s(3) by (simp add: limits_def)
  have "unat (bump s1) + 4105 \<le> unat (heap_end s1)" using p(4) s(4) ends by simp
  from big_step [OF p(3) this, of pf] obtain q1 s2 where q1: "slab_alloc pf ?l s1 = Some (Ok q1, s2)" "q1 \<noteq> 0"
    "heap_ok s2 fls1 [(unat q1, 4097), (unat p, class_size 9)]" "unat (bump s2) < unat (bump s1) + 4105" "heap_end s2 = heap_end s1"
    by (elim exE conjE) (rule that)
  have "unat (bump s2) + 4105 \<le> unat (heap_end s2)" using q1(4,5) p(4) s(4) ends by simp
  from big_step [OF q1(3) this, of pf] obtain q2 s3 where q2: "slab_alloc pf ?l s2 = Some (Ok q2, s3)" "q2 \<noteq> 0"
    "heap_ok s3 fls1 [(unat q2, 4097), (unat q1, 4097), (unat p, class_size 9)]"
    by (elim exE conjE) (rule that)
  then have "apart (unat q2, 4097) (unat q1, 4097)" by (simp add: heap_ok_def all_apart_append all_apart_Cons)
  then have "q1 \<noteq> q2" by (auto simp: apart_def)
  with s(1) p(1,2) q1(1,2) q2(1,2) test_layouts(7,9) show ?thesis
    by (intro passesI [of _ m s3]) (simp add: boundary_classes_and_large_def)
qed

text \<open>The five tests of the allocator pass wherever their buffers lie, as long as an address a page after
  the buffer does not overflow.\<close>

theorem slab_tests_pass:
  assumes "0 < unat buf" "unat buf + 0x20000 + 4096 < 2 ^ 64"
  shows "slab_tests pf buf m = replicate 5 (Some (Ok ()))"
  using small_run [OF assms, of pf m] refill_run [OF assms, of pf m] aligned_run [OF assms, of pf m]
    boundary_run [OF assms, of pf m] lifo_run [OF assms, of pf m]
  by (simp add: slab_tests_def passes_def numeral_eq_Suc)

lemma slab_tests_pass_witness: "slab_tests Debug 0x10000 (\<lambda>_. 0) = replicate 5 (Some (Ok ()))"
  by (rule slab_tests_pass) simp_all

end
