(* ===== verification/Spec2Isabelle.thy ===== *)
theory Spec2Isabelle
  imports Shell_Put Write_Mirror Cli_Text Kernel_Main Locked_Alloc Vga_Terminal Image_Test Slab_Tests
begin

text \<open>
  A model of The Heap, a small \<^verbatim>\<open>no_std\<close> Rust system made of a FAT32 driver with a command line tool
  (\<^verbatim>\<open>fat32/\<close>), a slab allocator behind a spin lock (\<^verbatim>\<open>slaballoc/\<close>) and a kernel (\<^verbatim>\<open>kernel/\<close>) that uses
  the driver and the allocator and prints to a serial port and to the screen.

  \<^bold>\<open>The driver.\<close> \<^verbatim>\<open>fat32/src/lib.rs\<close> works on a volume held in one byte buffer. \<^verbatim>\<open>Fat32\<close> is the read-only
  view (list a directory, resolve a path, read a file) and \<^verbatim>\<open>Fat32Mut\<close> the read-write one, whose
  only public operation besides mounting is \<^verbatim>\<open>write_file_by_path\<close>. Both keep the buffer and the six
  BPB parameters they compute offsets from; the read-write view hands out a read-only one
  (\<^verbatim>\<open>as_read\<close>) and has its own copies of the private helpers. \<^verbatim>\<open>fat32/src/dir_entry.rs\<close> decodes the
  32-byte directory entries. \<^verbatim>\<open>fat32/src/main.rs\<close> is a tool on top of it, with a shell: it reads an image
  from the host into memory, lists, reads and writes files in it and writes the image back.

  \<^bold>\<open>The allocator.\<close> \<^verbatim>\<open>slaballoc/src/allocator.rs\<close> serves ten size classes from free lists that live in the
  free blocks, refilled from a bump region that also serves larger blocks; \<^verbatim>\<open>slaballoc/src/lib.rs\<close> puts
  it behind a spin lock as the global allocator.

  \<^bold>\<open>The kernel.\<close> \<^verbatim>\<open>kernel/src/main.rs\<close> starts the allocator and the serial port, mounts a volume it has
  built, reads and writes it, and reports over both outputs; \<^verbatim>\<open>kernel/src/vga.rs\<close> is a scrolling text
  writer behind a lock of its own.

  \<^bold>\<open>How it is modelled.\<close> A buffer is a list of bytes, a Rust string the list of its UTF-8 bytes, an
  integer of 8, 16 or 32 bits a word of that width. In the driver and on the screen \<^verbatim>\<open>usize\<close> is a natural
  number: no offset reaches \<open>2 ^ 64\<close> (\<open>offsets_fit_usize\<close>, \<open>printing_stays_on_screen\<close>); in the allocator
  an address is a 64-bit word. A \<^verbatim>\<open>Result\<close> is \<open>Ok\<close> or \<open>Err\<close>, and every index, slice or arithmetic
  operation of the source that can panic is a branch to \<open>Panic\<close>; an overflow panics in the \<open>Debug\<close>
  profile and wraps in \<open>Release\<close>. A \<^verbatim>\<open>&mut self\<close> method is a function of the state that returns its
  result beside the state it leaves, also after an error. Loops are recursions over what they iterate
  on. The two loops that need not end, cutting a chunk into blocks and polling the serial port, are
  partial functions with \<open>None\<close> for not returning; \<open>refill_terminates\<close>, \<open>slab_alloc_hangs\<close> and
  \<open>serial_write_byte_blocks\<close> say when they return. No fuel is added anywhere. Waiting for the spin lock is
  a step relation of threads, and \<open>locked_alloc_progress\<close> a statement on its fair infinite runs.

  \<^bold>\<open>Theories.\<close>
  \<^item> \<open>Prelude\<close>: words, results, state passing, little-endian encodings, slices and chunks.
  \<^item> \<open>Volume\<close>: \<^verbatim>\<open>FatError\<close>, \<^verbatim>\<open>BpbParams\<close>, \<^verbatim>\<open>parse_bpb\<close>, both views, their offsets and
    \<^verbatim>\<open>max_cluster_number\<close>; the prefix \<open>m_\<close> marks the fields and methods of \<^verbatim>\<open>Fat32Mut\<close>.
  \<^item> \<open>Dir_Entry\<close>: \<^verbatim>\<open>Attributes\<close>, \<^verbatim>\<open>DirEntry\<close>, its parser and the decoding of names.
  \<^item> \<open>Names\<close>: \<^verbatim>\<open>normalize_name\<close>, \<^verbatim>\<open>split_parent\<close>, \<^verbatim>\<open>encode_short_name_8_3\<close>, \<^verbatim>\<open>div_ceil\<close>.
  \<^item> \<open>Fat_Chain\<close>: chains of links, and the interface between the table and the loops on it as two
    locales; \<open>Fat_Table\<close>: the table on the disk, which provides both (reading, following, writing all
    copies, releasing, allocating); \<open>Fat_Alloc\<close>: what following, allocating and releasing do.
  \<^item> \<open>Reader\<close>: every operation of \<^verbatim>\<open>Fat32\<close>. \<open>Writer\<close>: every operation of \<^verbatim>\<open>Fat32Mut\<close>.
  \<^item> \<open>Write_Safety\<close>: no panic, and what a rejected request leaves behind. \<open>Write_Frame\<close>: what holds across every
    write, as a locale over the relation, interpreted twice: \<open>Write_Boot\<close>: no write touches the reserved
    sectors, so that the volume mounts again; \<open>Write_Mirror\<close>: writes keep the copies of the table equal.
  \<^item> \<open>Chain_Data\<close>, \<open>Dir_Slots\<close>, \<open>Chain_Frame\<close>, \<open>Write_Entry\<close>, \<open>Write_Read\<close>, \<open>Write_File\<close>: the
    functional correctness of a write, from the data clusters over the directory seen as a list of
    slots to the whole operation.
  \<^item> \<open>File_Tree\<close>, \<open>Tree_Write\<close>, \<open>Tree_Facts\<close>: a volume as a tree of files and directories. A \<open>layout\<close> says
    which entry and which clusters each node has, \<open>volume_tree\<close> that the disk holds a layout in which no
    cluster has two owners, \<open>tree_of\<close> which tree that is; reading, listing and writing by path are lookup
    and update on it. \<open>Write_Outcome\<close>: every outcome of a write on such a volume, failures included.
  \<^item> \<open>Test_Image\<close> and \<open>Test_Volume\<close>: the volume of the kernel's demonstration, on which the witnesses
    run.
  \<^item> \<open>Cli\<close>, \<open>Cli_Facts\<close>: the command line tool, its arguments, paths, commands and shell; \<open>Shell_Tree\<close>: its
    sessions without \<^verbatim>\<open>put\<close> as sessions of an abstract shell on a tree, a step relation; \<open>Shell_Put\<close>: those with
    it; \<open>Cli_Text\<close>: its usage and help.
  \<^item> \<open>Slab\<close>: the allocator over a byte memory. \<open>Slab_Heap\<close>: free lists in memory and the heap invariant;
    \<open>Slab_Alloc\<close>: each operation keeps it; \<open>Slab_Client\<close>: the contract with the clients as the locale
    \<open>allocator\<close>; \<open>Slab_Spec\<close>: its interpretation on the slab allocator; \<open>Slab_Use\<close>: whole sessions;
    \<open>Slab_Capacity\<close>: how many blocks a heap is good for.
  \<^item> \<open>Spin_Lock\<close>: the lock, the threads at it, and the locale \<open>guarded\<close> for what a lock protects;
    \<open>Locked_Alloc\<close> interprets it on the global allocator, \<open>Vga_Terminal\<close> on the screen writer.
  \<^item> \<open>Vga_Lock\<close>: the screen's own copy of the lock, the same as the other. \<open>Vga\<close>, \<open>Vga_Screen\<close>, \<open>Vga_Terminal\<close>: the writer, its cells, and the abstract terminal it implements.
  \<^item> \<open>Serial\<close>: port accesses and the serial port. \<open>Kernel\<close>, \<open>Kernel_Demo\<close>: the demonstration as a whole;
    \<open>Kernel_Main\<close>: the entry point of both builds, the runner of the test build and the panic handler. \<open>Utf8\<close>: the
    checks and repairs of UTF-8 that the kernel, the arguments of the tool and the tests use.
  \<^item> \<open>Unit_Volume\<close>, \<open>Driver_Tests\<close>: the unit tests of the driver and the volume they build; \<open>Image_Test\<close>: those of
    the tool, and the test on an image file; \<open>Slab_Tests\<close>: those of the allocator. Each test is a program of
    the model, with \<open>Panic\<close> for a failed assertion.

  \<^bold>\<open>What is shown.\<close> At the top the driver is a file system on trees: \<open>read_refines_tree\<close>,
  \<open>list_refines_tree\<close> and \<open>write_refines_tree\<close> say that on a volume that stores a tree the operations by path
  are lookup and update, and that a volume goes on storing a tree; \<open>reads_after_write\<close> is what a client
  sees of it. \<open>accepts\<close> collects what a write needs: a plain 8.3 name that no directory or label has, for a new
  name a free slot and room for the end mark, and clusters, those of the replaced file included. \<open>write_outcome\<close> covers
  the failures too: on directories that are \<open>tidy\<close> (nothing after their end mark, no label with the name of a file; writes
  keep them so) it says how a write of any content ends, the refusals, the full volume and the full directory
  included, for a path without \<^verbatim>\<open>.\<close> and \<^verbatim>\<open>..\<close> that does not go on after a file and whose last name is
  shown as it is written (\<open>proper\<close>; a name that ends in a dot, has spaces before the dot or at its end, or begins with
  NUL is not). A write of a content too long to be read back succeeds all the same; after that, and after an overwrite that
  runs out of clusters, nothing is said of the tree. \<open>shell_refines_tree\<close> carries this through whole sessions of the tool, \<open>put\<close> included, up to the
  first \<open>hazard\<close>: a request after which nothing is promised, such as an overwrite with too few free
  clusters; the abstract shell counts the clusters known to be free. Paths with \<^verbatim>\<open>.\<close> and \<^verbatim>\<open>..\<close> are outside of it (the shell removes them), and paths
  that go on after a file, which the driver does not refuse (\<open>open_through_file\<close>).

  Below, the specification of a volume is a table \<open>fat_val\<close> from clusters to links, a directory as the list
  of its slots, a file as the bytes of its chain. \<open>alloc_chain_spec\<close> and \<open>free_chain_spec\<close> give the table
  operations as updates of \<open>fat_val\<close> and \<open>write_keeps_mirrored\<close> keeps its copies equal; \<open>list_dir_spec\<close> and
  \<open>read_file_contents\<close> give the read operations. \<open>write_then_read\<close>, \<open>write_then_read_by_path\<close>,
  \<open>write_updates_listing\<close> and \<open>write_keeps_other_files\<close> are the contract of a write when only a part of the
  volume is known to be consistent: the chains of the directory (\<open>chain_at\<close>), its slots
  (\<open>canonical_dir\<close>) and the old file's chain (\<open>old_chain\<close>) are what the premises speak of, and the rest
  of the volume may be arbitrary. \<open>write_never_panics\<close>, \<open>write_rejected_untouched\<close>, \<open>write_keeps_boot\<close> and
  \<open>reads_never_panic\<close> need no consistency at all; nor do \<open>cli_panics_iff\<close>, which covers every run of the
  tool, and \<open>shell_directory_invariant\<close>. \<open>put_then_cat\<close> is the round trip through the tool and the host.

  For the allocator, \<open>slab_clients_safe\<close> is the promise to whole sequences of requests and \<open>slab_alloc_spec\<close>
  that of one; \<open>locked_alloc_linearizable\<close> and \<open>concurrent_blocks_separate\<close> carry them to any interleaving
  of threads. \<open>slab_capacity\<close> is exact: it says which allocations of a class succeed after \<^verbatim>\<open>init\<close>, and which
  do not. \<open>print_shows_end_of_text\<close> refines the screen to the last lines of the printed text.
  \<open>kernel_demo_runs\<close> composes driver, allocator, serial port and screen, and \<open>kernel_exit_code\<close> says what the
  entry point makes of it. \<open>unit_tests_pass\<close> runs the unit tests of the repository on the model, and
  \<open>image_test_verdict\<close> says on which images the test on an image file passes.

  Some theorems record limits of the code: \<open>overwrite_without_space\<close>, \<open>max_cluster_number_overflow\<close>, the
  4096 clusters of \<open>follow_chain_prefix\<close>, the root in \<open>read_refines_tree\<close>, the silent panic of \<open>kernel_exit_code\<close>, \<open>slab_alloc_hangs\<close>, \<open>bump_leaves_heap\<close>, \<open>open_through_file\<close>,
  \<open>release_outside_table\<close> and \<open>cd_root_fails\<close>.

  \<^bold>\<open>Not modelled.\<close> Memory exhaustion (\<^verbatim>\<open>Vec::with_capacity\<close>), and when the vectors and strings of the
  standard library allocate: what the demonstration asks of the allocator for them is a parameter. The
  memory orderings of the atomic operations, taken as sequentially consistent. The wording of the
  tool's messages (but for its usage and help) and failures to print, and what the tests print. What the hardware does with port
  accesses and screen memory: the serial device is a parameter. The boot information that the loader
  passes to the kernel, which does not read it.
\<close>

section \<open>Properties of the driver\<close>

text \<open>Write, then read. On a mounted volume no larger than FAT32 allows, let a path name a parent
  directory (whose chain lies on the disk and whose slots are canonical) and a plain 8.3 name in it,
  new or of a file whose own chain does not cross the directory's. If there are clusters for the
  content and a slot for the entry, \<^verbatim>\<open>write_file_by_path\<close> succeeds; the directory then lists a file
  under that name, first among those that match it, with the size of the content, and reading it
  returns the content.\<close>

theorem write_then_read:
  assumes "mounted m" "max_cluster_number pf m = Ok mx" "mx < 0x0FFFFFF8"
    and "starts_with slash path" "split_parent path = Ok (pp, nm)"
      "encode_short_name_8_3 nm = Ok (n, e)" "plain_name nm" "parent_cluster pp m = Ok dir"
    and "chain_at m dir cls" "canonical_dir m cls"
    and "find_dir_entry_offset_by_short_name m dir n e = Ok (off, old)" "old_chain m old fs"
      "set fs \<inter> set cls = {}"
    and "off = None \<longrightarrow> (\<exists>s\<in>set (dir_slots (as_read m) cls). \<not> used s)"
    and "div_ceil (length content) (m_cluster_size m) \<le> min 4096 (length (free_clusters m mx))"
    and "length content < 2 ^ 32"
  shows "\<exists>m' es en. write_file_by_path pf path content m = (Ok (), m')
    \<and> list_dir_cluster (as_read m') dir = Ok es
    \<and> find (\<lambda>x. normalize_name (e_name x) = normalize_name nm) es = Some en
    \<and> is_file en \<and> unat (e_size en) = length content \<and> read_file (as_read m') en = Ok content"
  using write_reads_back [OF assms] by (auto simp: names_def [abs_def])


theorem write_then_read_witness:
  "\<exists>m' es en. write_file_by_path Debug (bytes ''/NEW.TXT'') (bytes ''NEW!'') test_volume = (Ok (), m')
    \<and> list_dir_cluster (as_read m') 2 = Ok es
    \<and> find (\<lambda>x. normalize_name (e_name x) = normalize_name (bytes ''NEW.TXT'')) es = Some en
    \<and> read_file (as_read m') en = Ok (bytes ''NEW!'')"
  using write_then_read [of test_volume Debug, OF new_txt] by blast

text \<open>Write, then read by the same path. When, moreover, no directory on the way to the parent
  shares a cluster with the parent's chain or the released one, \<^verbatim>\<open>read_file_by_path\<close> on the path that
  was written returns exactly the content. For a file of the root directory the way is empty.\<close>

theorem write_then_read_by_path:
  assumes "mounted m" "max_cluster_number pf m = Ok mx" "mx < 0x0FFFFFF8"
    and "starts_with slash path" "split_parent path = Ok (pp, nm)"
      "encode_short_name_8_3 nm = Ok (n, e)" "plain_name nm" "parent_cluster pp m = Ok dir"
    and "chain_at m dir cls" "canonical_dir m cls"
    and "find_dir_entry_offset_by_short_name m dir n e = Ok (off, old)" "old_chain m old fs"
      "set fs \<inter> set cls = {}"
    and "off = None \<longrightarrow> (\<exists>s\<in>set (dir_slots (as_read m) cls). \<not> used s)"
    and "div_ceil (length content) (m_cluster_size m) \<le> min 4096 (length (free_clusters m mx))"
    and "length content < 2 ^ 32"
    and "\<forall>d\<in>set (walk (as_read m) (components pp) (m_root_cluster m)).
      \<exists>ds. chain_at m d ds \<and> set ds \<inter> (set fs \<union> set cls) = {}"
  shows "\<exists>m'. write_file_by_path pf path content m = (Ok (), m')
    \<and> read_file_by_path (as_read m') path = Ok (Some content)"
  by (rule write_reads_path [OF assms])

theorem write_then_read_by_path_witness:
  "\<exists>m'. write_file_by_path Debug (bytes ''/NEW.TXT'') (bytes ''NEW!'') test_volume = (Ok (), m')
    \<and> read_file_by_path (as_read m') (bytes ''/NEW.TXT'') = Ok (Some (bytes ''NEW!''))"
proof -
  have "components (bytes ''/'') = []" by code_simp
  then show ?thesis using write_then_read_by_path [of test_volume Debug, OF new_txt] by simp
qed

text \<open>C7: What a write does to the listing of the directory: the new entry takes the place of the old
  one, or is one more entry, shown after those of the slots before the first that is not in use; every
  other entry is kept in its order. The end of the directory
  must not be in the last slot of a cluster that another one follows, where the driver has no room
  to mark the new end.\<close>

theorem write_updates_listing:
  assumes "mounted m" "max_cluster_number pf m = Ok mx" "mx < 0x0FFFFFF8"
    and "starts_with slash path" "split_parent path = Ok (pp, nm)"
      "encode_short_name_8_3 nm = Ok (n, e)" "plain_name nm" "parent_cluster pp m = Ok dir"
    and "chain_at m dir cls" "canonical_dir m cls"
    and "find_dir_entry_offset_by_short_name m dir n e = Ok (off, old)" "old_chain m old fs"
      "set fs \<inter> set cls = {}"
    and "off = None \<longrightarrow> (\<exists>s\<in>set (dir_slots (as_read m) cls). \<not> used s)"
    and "div_ceil (length content) (m_cluster_size m) \<le> min 4096 (length (free_clusters m mx))"
    and "length content < 2 ^ 32"
    and "roomy_end m cls"
  shows "\<exists>m' en A B. write_file_by_path pf path content m = (Ok (), m')
    \<and> list_dir_cluster (as_read m) dir = Ok (A @ (case old of None \<Rightarrow> [] | Some x \<Rightarrow> [x]) @ B)
    \<and> list_dir_cluster (as_read m') dir = Ok (A @ [en] @ B)
    \<and> (off = None \<longrightarrow> A = listing (takeWhile used (dir_slots (as_read m) cls)))
    \<and> is_file en \<and> unat (e_size en) = length content \<and> read_file (as_read m') en = Ok content"
  using write_reads_back [OF assms(1-16)] assms(17) by (fastforce simp: shown_def)

theorem write_updates_listing_witness:
  "\<exists>m' en A B. write_file_by_path Debug (bytes ''/NEW.TXT'') (bytes ''NEW!'') test_volume = (Ok (), m')
    \<and> list_dir_cluster (as_read test_volume) 2 = Ok (A @ B)
    \<and> list_dir_cluster (as_read m') 2 = Ok (A @ [en] @ B)
    \<and> read_file (as_read m') en = Ok (bytes ''NEW!'')"
  using write_updates_listing [of test_volume Debug, OF new_txt roomy_test_root] by auto

text \<open>A write leaves every other file alone: a file whose chain shares no cluster with the directory
  written to or with the released chain reads the same before and after.\<close>

theorem write_keeps_other_files:
  assumes "mounted m" "max_cluster_number pf m = Ok mx" "mx < 0x0FFFFFF8"
    and "starts_with slash path" "split_parent path = Ok (pp, nm)"
      "encode_short_name_8_3 nm = Ok (n, e)" "plain_name nm" "parent_cluster pp m = Ok dir"
    and "chain_at m dir cls" "canonical_dir m cls"
    and "find_dir_entry_offset_by_short_name m dir n e = Ok (off, old)" "old_chain m old fs"
      "set fs \<inter> set cls = {}"
    and "off = None \<longrightarrow> (\<exists>s\<in>set (dir_slots (as_read m) cls). \<not> used s)"
    and "div_ceil (length content) (m_cluster_size m) \<le> min 4096 (length (free_clusters m mx))"
    and "length content < 2 ^ 32"
    and "is_file other" "chain_at m (e_first_cluster other) cs" "set cs \<inter> (set fs \<union> set cls) = {}"
  shows "\<exists>m'. write_file_by_path pf path content m = (Ok (), m')
    \<and> read_file (as_read m') other = read_file (as_read m) other"
proof -
  obtain m' K where run: "write_file_by_path pf path content m = (Ok (), m')" "same_but K m m'"
    "\<forall>c cs. chain_at m c cs \<longrightarrow> set cs \<inter> (set fs \<union> set cls) = {} \<longrightarrow> set cs \<inter> K = {}"
    using write_reads_back [OF assms(1-16)] by blast
  have "set cs \<inter> K = {}" using run(3) assms(18,19) by blast
  note kept = same_but_chain [OF run(2) assms(18) this]
  have "read_file (as_read m') other = read_file (as_read m) other"
  proof (cases "e_size other = 0")
    case True
    then show ?thesis by (simp add: read_file_def)
  next
    case False
    then have "0 < unat (e_size other)" by (simp add: unat_gt_0)
    with kept(1,2) assms(17,18) show ?thesis by (simp add: read_file_chain)
  qed
  with run(1) show ?thesis by blast
qed

theorem write_keeps_other_files_witness:
  "\<exists>m' other. write_file_by_path Release (bytes ''/NEW.TXT'') (bytes ''NEW!'') test_volume = (Ok (), m')
    \<and> parse hello_entry = Some other
    \<and> read_file (as_read m') other = read_file (as_read test_volume) other"
proof -
  obtain other where hello: "parse hello_entry = Some other" "is_file other" "e_first_cluster other = 3"
    by (simp add: parse_image_entries is_file_def from_byte_def)
  have "chain_at test_volume (e_first_cluster other) [3]" "set [3 :: u32] \<inter> (set [] \<union> set [2]) = {}"
    using hello(3) chain_at_test_volume(2) by simp_all
  with hello write_keeps_other_files [of test_volume Release, OF new_txt, of other "[3]"]
  show ?thesis by blast
qed

text \<open>C13: An overwrite that does not fit destroys the old file. When the content needs more clusters than
  are free with the old chain released, the write fails with \<open>NoSpaceLeft\<close>, but the old chain is
  released already: the directory still lists the old entry, with its size, and reading it fails
  with \<open>InvalidCluster\<close>.\<close>

theorem overwrite_without_space:
  assumes "mounted m" "max_cluster_number pf m = Ok mx"
    and "starts_with slash path" "split_parent path = Ok (pp, nm)"
      "encode_short_name_8_3 nm = Ok (n, e)" "parent_cluster pp m = Ok dir" "chain_at m dir cls"
    and "find_dir_entry_offset_by_short_name m dir n e = Ok (off, Some en)" "is_file en"
      "e_size en \<noteq> 0" "chain_at m (e_first_cluster en) fs" "set fs \<inter> set cls = {}"
    and "length (free_clusters m mx) + length fs < div_ceil (length content) (m_cluster_size m)"
  shows "\<exists>m'. write_file_by_path pf path content m = (Err NoSpaceLeft, m')
    \<and> list_dir_cluster (as_read m') dir = list_dir_cluster (as_read m) dir
    \<and> read_file (as_read m') en = Err InvalidCluster"
proof -
  note fs = chain_atD [OF assms(11)]
  have "old_chain m (Some en) fs" using assms(9,11) fs(3) by (simp add: old_chain_def)
  from release_existing_spec [OF this] obtain m1 where
    m1: "release_existing (Some en) m = (Ok (), m1)" "same_but (set fs) m m1"
    "\<And>d. has_entry m d \<Longrightarrow> fat_val m1 d = (if d \<in> set fs then 0 else fat_val m d)"
    by blast
  note s1 = same_but_shape [OF m1(2)]
  have vol1: "max_cluster_number pf m1 = Ok mx" "mounted m1"
    using assms(1,2) mounted_same_shape [OF s1] max_cluster_number_same_shape [OF s1] by simp_all
  have "length (free_clusters m1 mx) < div_ceil (length content) (m_cluster_size m1)"
    using free_clusters_release [OF assms(2,1) m1(3)] assms(13) by (simp add: same_shapeD [OF s1])
  then have "alloc_chain pf (div_ceil (length content) (m_cluster_size m1)) m1 = (Err NoSpaceLeft, m1)"
    and "content \<noteq> []"
    using alloc_chain_full [OF vol1] by (auto simp: div_ceil_def split: if_splits)
  then have store: "store_content pf content m1 = (Err NoSpaceLeft, m1)"
    by (simp add: store_content_def Let_def)
  have "path \<noteq> [slash]"
    using assms(4) by (auto simp: split_parent_def trim_end_matches_def res_simps)
  then have "write_file_by_path pf path content m = (Err NoSpaceLeft, m1)"
    using assms(3-6,8) m1(1) store by (simp add: write_file_by_path_def Let_def)
  moreover have "set cls \<inter> set fs = {}" using assms(12) by blast
  then have "list_dir_cluster (as_read m1) dir = list_dir_cluster (as_read m) dir"
    by (rule same_but_list [OF m1(2) assms(7)])
  moreover have "e_first_cluster en \<in> set fs"
    using assms(11) hd_in_set [of fs] by (simp add: chain_at_def)
  then have "read_file (as_read m1) en = Err InvalidCluster"
    using m1(3) fs(3,4) has_entry_same_shape [OF s1] assms(9,10) by (intro read_file_released) auto
  ultimately show ?thesis by blast
qed

theorem overwrite_without_space_witness:
  "\<exists>m' en. parse hello_entry = Some en
    \<and> write_file_by_path Debug (bytes ''/HELLO.TXT'') (replicate 3585 7) test_volume = (Err NoSpaceLeft, m')
    \<and> read_file (as_read m') en = Err InvalidCluster"
proof -
  obtain en where en: "parse hello_entry = Some en" "is_file en" "e_size en \<noteq> 0" "e_first_cluster en = 3"
    by (simp add: parse_image_entries is_file_def from_byte_def)
  have chain: "chain_at test_volume (e_first_cluster en) [3]" "set [3 :: u32] \<inter> set [2] = {}"
    using en(4) chain_at_test_volume(2) by simp_all
  have full: "length (free_clusters test_volume 9) + length [3 :: u32]
      < div_ceil (length (replicate 3585 (7 :: u8))) (m_cluster_size test_volume)"
    by (simp add: free_clusters_test_volume div_ceil_def)
  show ?thesis
    using overwrite_without_space [of test_volume Debug, OF mounted_test_volume test_volume_max_cluster
        hello_name(3,1,2) new_ready(2) chain_at_test_volume(1) find_hello [OF en(1)] en(2,3) chain full] en(1)
    by blast
qed

text \<open>The kernel's demonstration, its reads: the volume it builds lists \<^verbatim>\<open>HELLO.TXT\<close> and \<^verbatim>\<open>DIR\<close> in its
  root, and \<^verbatim>\<open>/HELLO.TXT\<close> reads \<^verbatim>\<open>HELLO\<close>, so none of its \<^verbatim>\<open>unwrap\<close>s on them panics.\<close>

theorem kernel_demo_reads:
  "\<exists>m es. fat32_mut_new build_test_image = Ok m \<and> list_root (as_read m) = Ok es
    \<and> map e_name es = [bytes ''HELLO.TXT'', bytes ''DIR''] \<and> map is_dir es = [False, True]
    \<and> read_file_by_path (as_read m) (bytes ''/HELLO.TXT'') = Ok (Some (bytes ''HELLO''))"
  using demo_reads(3) mount_test_image list_test_root by (simp add: list_root_def is_dir_def from_byte_def)

section \<open>The tests of the repository\<close>

text \<open>C40: the unit tests of the repository pass: the ten of the driver and the three of the tool, with overflow
  checks and without, and the five of the allocator wherever their buffers lie, as long as the address a
  page after the buffer does not overflow.\<close>

theorem unit_tests_pass:
  assumes "0 < unat buf" "unat buf + 0x20000 + 4096 < 2 ^ 64"
  shows "driver_tests pf = replicate 10 (Ok ()) \<and> tool_tests = replicate 3 (Ok ())
    \<and> slab_tests pf buf m = replicate 5 (Some (Ok ()))"
  using driver_tests_pass tool_tests_pass slab_tests_pass [OF assms] by blast

lemma unit_tests_pass_witness:
  "driver_tests Debug = replicate 10 (Ok ()) \<and> slab_tests Debug 0x10000 (\<lambda>_. 0) = replicate 5 (Some (Ok ()))"
  using unit_tests_pass [of "0x10000" Debug "\<lambda>_. 0"] by simp

end
